(* ===== verification/Prelude.thy ===== *)
theory Prelude
  imports Main "HOL-Library.Word"
begin

text \<open>
  What every component of the development shares: the names of the machine integer types of
  the C++ code, the value of a call that does not return normally, and generic lemmas on
  lists, words and outcomes.

  A call that does not come back is one of five things, the constructors of \<open>stop\<close>: the
  process ends in \<open>g_Dump.Crash()\<close>, the C runtime's invalid parameter handler ends it, an
  exception that no frame of the thread catches ends it, the standard gives the program no
  meaning any more, or the thread waits for a lock it holds itself.
\<close>

section \<open>Machine integers\<close>

type_synonym u8 = "8 word"
type_synonym u16 = "16 word"
type_synonym u32 = "32 word"
type_synonym u64 = "64 word"

section \<open>Outcomes of calls\<close>

datatype stop = Crash | InvalidParameter | UncaughtException | UndefinedBehaviour | SelfDeadlock

type_synonym 'a outcome = "stop + 'a"

named_theorems outcome_simps \<open>facts on the composition of calls that may not return\<close>
named_theorems enum_simps \<open>the numbers behind the enumerators and the constants of the headers\<close>

fun obind :: "'a outcome \<Rightarrow> ('a \<Rightarrow> 'b outcome) \<Rightarrow> 'b outcome" where
  "obind (Inl e) f = Inl e"
| "obind (Inr x) f = f x"

lemma obind_eq_Inr_iff [outcome_simps]:
  "obind m f = Inr y \<longleftrightarrow> (\<exists>x. m = Inr x \<and> f x = Inr y)"
  by (cases m) auto

lemma obind_eq_Inl_iff [outcome_simps]:
  "obind m f = Inl e \<longleftrightarrow> m = Inl e \<or> (\<exists>x. m = Inr x \<and> f x = Inl e)"
  by (cases m) auto

lemma obind_assoc: "obind (obind m f) g = obind m (\<lambda>x. obind (f x) g)"
  by (cases m) auto

lemma obind_cong [fundef_cong]:
  "m = m' \<Longrightarrow> (\<And>x. m' = Inr x \<Longrightarrow> f x = f' x) \<Longrightarrow> obind m f = obind m' f'"
  by (cases m') auto

text \<open>
  Code with a loop whose return is not clear from its form has the type \<open>'a outcome option\<close>:
  \<open>None\<close> is a run that does not return. \<open>rbind\<close> composes such runs.
\<close>

fun rbind :: "'a outcome option \<Rightarrow> ('a \<Rightarrow> 'b outcome option) \<Rightarrow> 'b outcome option" where
  "rbind None f = None"
| "rbind (Some (Inl e)) f = Some (Inl e)"
| "rbind (Some (Inr x)) f = f x"

lemma rbind_eq_Inr_iff [outcome_simps]:
  "rbind m f = Some (Inr y) \<longleftrightarrow> (\<exists>x. m = Some (Inr x) \<and> f x = Some (Inr y))"
  by (cases "(m, f)" rule: rbind.cases) auto

lemma rbind_eq_None_iff [outcome_simps]:
  "rbind m f = None \<longleftrightarrow> m = None \<or> (\<exists>x. m = Some (Inr x) \<and> f x = None)"
  by (cases "(m, f)" rule: rbind.cases) auto

section \<open>Writing into a block of memory\<close>

text \<open>
  \<open>mem_put off bs mem\<close> is the block \<open>mem\<close> after \<open>bs\<close> was copied to \<open>mem[off]\<close>. Outside the
  block the C++ standard gives the copy no meaning.
\<close>

definition mem_put :: "int \<Rightarrow> u8 list \<Rightarrow> u8 list \<Rightarrow> u8 list outcome" where
  "mem_put off bs mem =
     (if 0 \<le> off \<and> nat off + length bs \<le> length mem
      then Inr (take (nat off) mem @ bs @ drop (nat off + length bs) mem)
      else Inl UndefinedBehaviour)"

lemma mem_put_Inr:
  "0 \<le> off \<Longrightarrow> nat off + length bs \<le> length mem \<Longrightarrow>
   mem_put off bs mem = Inr (take (nat off) mem @ bs @ drop (nat off + length bs) mem)"
  by (simp add: mem_put_def)

lemma mem_put_Nil: "n \<le> length mem \<Longrightarrow> mem_put (int n) [] mem = Inr mem"
  by (simp add: mem_put_def)

lemma mem_put_length: "mem_put off bs mem = Inr mem' \<Longrightarrow> length mem' = length mem"
  by (auto simp: mem_put_def split: if_splits)

lemma mem_put_prefix:
  "mem_put (int n) bs mem = Inr mem' \<Longrightarrow> take (n + length bs) mem' = take n mem @ bs"
  by (auto simp: mem_put_def split: if_splits)

section \<open>Generic lemmas\<close>

lemma take_append_stable: "n \<le> length xs \<Longrightarrow> take n (xs @ ys) = take n xs"
  by simp

lemma take_drop_append_stable:
  "n + k \<le> length xs \<Longrightarrow> take k (drop n (xs @ ys)) = take k (drop n xs)"
  by simp

lemma int_less_uint_iff: "int k < uint (w :: 'a::len word) \<longleftrightarrow> k < unat w"
  by (metis of_nat_less_iff uint_nat)

lemma uint_le_int_iff: "uint (w :: 'a::len word) \<le> int k \<longleftrightarrow> unat w \<le> k"
  by (metis of_nat_le_iff uint_nat)

lemma uint_add_le_int_iff: "uint (w :: 'a::len word) + int m \<le> int k \<longleftrightarrow> m + unat w \<le> k"
  by (metis add.commute of_nat_add of_nat_le_iff uint_nat)

lemma word_of_nat_Suc_minus_1 [simp]: "(of_nat (Suc n) :: 'a::len word) - 1 = of_nat n"
  by simp

lemma less_plus_1: "(w :: 'a::len word) \<noteq> - 1 \<Longrightarrow> w < w + 1"
proof -
  assume "w \<noteq> - 1"
  then have "1 + w \<noteq> 0" by (metis add.commute add_eq_0_iff)
  from unatSuc [OF this] have "unat (w + 1) = Suc (unat w)" by (simp add: add.commute)
  then show ?thesis by (simp add: word_less_nat_alt)
qed

section \<open>Refinement\<close>

text \<open>
  A forward simulation: every step of the detailed relation from a state with the invariant is a
  step of the abstract one, and keeps the invariant.
\<close>

locale simulation =
  fixes cstep :: "'s \<Rightarrow> 's \<Rightarrow> bool"
    and astep :: "'a \<Rightarrow> 'a \<Rightarrow> bool"
    and inv :: "'s \<Rightarrow> bool"
    and abs :: "'s \<Rightarrow> 'a"
  assumes step_inv: "cstep s s' \<Longrightarrow> inv s \<Longrightarrow> inv s'"
    and step_sim: "cstep s s' \<Longrightarrow> inv s \<Longrightarrow> astep (abs s) (abs s')"
begin

lemma run_sim: "cstep\<^sup>*\<^sup>* s s' \<Longrightarrow> inv s \<Longrightarrow> inv s' \<and> astep\<^sup>*\<^sup>* (abs s) (abs s')"
proof (induction rule: rtranclp_induct)
  case (step y z)
  then show ?case using step_inv step_sim by (meson rtranclp.rtrancl_into_rtrancl)
qed simp

end

end
