(* ===== verification/EnumTypes.thy ===== *)
theory EnumTypes
  imports Prelude
begin

text \<open>
  The enumerations of EnumType.h and the constants of DefineType.h. An \<open>enum class\<close> is a
  datatype; its underlying number is a function, with the cast back as a partial function. The
  packet ids are ordered by their number.
\<close>

section \<open>DefineType.h\<close>

type_synonym SessionId = u64
type_synonym DBJobKey = u64
type_synonym PacketId = u32

definition INVALID_SESSION_ID :: SessionId where "INVALID_SESSION_ID = 0"
definition MAX_RIO_RESULT :: nat where "MAX_RIO_RESULT = 256"
definition MAX_SEND_BUFFER_SIZE :: int where "MAX_SEND_BUFFER_SIZE = 16384"
definition MAXIMUM_BATCHED_DB_JOB_SIZE :: nat where "MAXIMUM_BATCHED_DB_JOB_SIZE = 16"
definition ONE_FRAME :: u64 where "ONE_FRAME = 33"
definition INVALID_DB_JOB_KEY :: DBJobKey where "INVALID_DB_JOB_KEY = - 1"

lemmas define_type_defs [enum_simps] =
  INVALID_SESSION_ID_def MAX_RIO_RESULT_def MAX_SEND_BUFFER_SIZE_def
  MAXIMUM_BATCHED_DB_JOB_SIZE_def ONE_FRAME_def INVALID_DB_JOB_KEY_def

section \<open>EnumType.h\<close>

datatype RIO_OPERATION_TYPE = OP_ERROR | OP_RECV | OP_SEND | OP_SEND_REQUEST

datatype IO_MODE = IO_NONE_SENDING | IO_SENDING

datatype IO_POST_ERROR =
    SUCCESS | IS_DELETED_SESSION | FAILED_RECV_POST | FAILED_SEND_POST | INVALID_OPERATION_TYPE

datatype PACKET_ID =
    INVALID_PACKET | TEST_STRING_PACKET | ECHO_STRING_PACEKT | CALL_TEST_PROCEDURE_PACKET
  | CALL_SELECT_TEST_2_PROCEDURE_PACKET | CALL_SELECT_TEST_2_PROCEDURE_PACKET_REPLY | PING | PONG
  | REQUEST_FILE_STREAM | RESPONSE_FILE_STREAM | GAME2DB_TEST | GAME2DB_BATCHED_DB_JOB
  | GAME2DB_SELECT_TEST_2 | DB2GAME_SELECT_TEST_2 | DB2GAME_BATCHED_DB_JOB

datatype ERROR_CODE = EC_SUCCESS | BATCHED_DB_JOB_SIZE_OVERFLOWED

fun packet_id_value :: "PACKET_ID \<Rightarrow> PacketId" where
  "packet_id_value INVALID_PACKET = 0"
| "packet_id_value TEST_STRING_PACKET = 1"
| "packet_id_value ECHO_STRING_PACEKT = 2"
| "packet_id_value CALL_TEST_PROCEDURE_PACKET = 3"
| "packet_id_value CALL_SELECT_TEST_2_PROCEDURE_PACKET = 4"
| "packet_id_value CALL_SELECT_TEST_2_PROCEDURE_PACKET_REPLY = 5"
| "packet_id_value PING = 6"
| "packet_id_value PONG = 7"
| "packet_id_value REQUEST_FILE_STREAM = 8"
| "packet_id_value RESPONSE_FILE_STREAM = 9"
| "packet_id_value GAME2DB_TEST = 10"
| "packet_id_value GAME2DB_BATCHED_DB_JOB = 11"
| "packet_id_value GAME2DB_SELECT_TEST_2 = 12"
| "packet_id_value DB2GAME_SELECT_TEST_2 = 13"
| "packet_id_value DB2GAME_BATCHED_DB_JOB = 14"

lemma packet_id_value_inj [simp]: "packet_id_value a = packet_id_value b \<longleftrightarrow> a = b"
  by (cases a; cases b) simp_all

instantiation PACKET_ID :: linorder
begin

definition less_eq_PACKET_ID :: "PACKET_ID \<Rightarrow> PACKET_ID \<Rightarrow> bool" where
  "less_eq_PACKET_ID a b \<longleftrightarrow> packet_id_value a \<le> packet_id_value b"

definition less_PACKET_ID :: "PACKET_ID \<Rightarrow> PACKET_ID \<Rightarrow> bool" where
  "less_PACKET_ID a b \<longleftrightarrow> packet_id_value a < packet_id_value b"

instance
  by standard
    (auto simp: less_eq_PACKET_ID_def less_PACKET_ID_def order.strict_iff_order)

end

section \<open>GlobalUtil.cpp\<close>

definition IsSuccess :: "ERROR_CODE \<Rightarrow> bool" where
  "IsSuccess errorCode = (if errorCode = EC_SUCCESS then True else False)"

end
