(* ===== verification/External.thy ===== *)
theory External
  imports EnumTypes "HOL-Library.Countable"
begin

text \<open>
  The classes the repository uses but does not hold: CNetServerSerializationBuf (NetBuffer) and
  CSerializationBuf of the serialize buffer library, CRingbuffer, CLockFreeQueue and CTLSMemoryPool. Their
  operations are parameters of the model, the fields of a record of operations that every
  definition takes as an argument; the members of NetBuffer that the repository itself reads
  and writes are the fields of a record.

  What the code relies on is stated once here, as a predicate on the record of operations. Each
  predicate says what the operations do to the value a structure stands for (the bytes of a
  ring, the items of a queue, the fields of a stream), as their documentation does. The last
  section gives concrete operations that satisfy them.
\<close>

section \<open>Serialize buffers\<close>

record NetBuffer =
  m_pSerializeBuffer :: "u8 list"
  m_iRead :: int
  m_iWrite :: int
  m_iWriteLast :: int
  m_bIsEncoded :: bool

text \<open>The types that the code streams with \<open><<\<close> and \<open>>>\<close>, and their values.\<close>

datatype wire_value =
    FUInt u32 | FInt u32 | FUInt64 u64 | FLongLong u64 | FString string | FWString "u16 list"
  | FChars "u8 list" | FIntList "u32 list" | FStringList "string list"

datatype wire_type =
    TUInt | TInt | TUInt64 | TLongLong | TString | TWString | TChars nat | TIntList | TStringList

fun wire_type_of :: "wire_value \<Rightarrow> wire_type" where
  "wire_type_of (FUInt _) = TUInt"
| "wire_type_of (FInt _) = TInt"
| "wire_type_of (FUInt64 _) = TUInt64"
| "wire_type_of (FLongLong _) = TLongLong"
| "wire_type_of (FString _) = TString"
| "wire_type_of (FWString _) = TWString"
| "wire_type_of (FChars cs) = TChars (length cs)"
| "wire_type_of (FIntList _) = TIntList"
| "wire_type_of (FStringList _) = TStringList"

text \<open>
  The operations of NetBuffer. \<open>nb_Alloc\<close> is what \<open>NetBuffer::Alloc()\<close> returns, \<open>None\<close> for a
  null pointer; \<open>nb_get_BYTE\<close> and \<open>nb_get_WORD\<close> are \<open>>>\<close> at the two types of the packet
  header, \<open>nb_put\<close> and \<open>nb_get\<close> are \<open><<\<close> and \<open>>>\<close> at the type of a packet's field.
\<close>

record net_ops =
  nb_Alloc :: "NetBuffer option"
  nb_get_BYTE :: "NetBuffer \<Rightarrow> u8 \<times> NetBuffer"
  nb_get_WORD :: "NetBuffer \<Rightarrow> u16 \<times> NetBuffer"
  nb_put :: "wire_value \<Rightarrow> NetBuffer \<Rightarrow> NetBuffer"
  nb_get :: "wire_type \<Rightarrow> NetBuffer \<Rightarrow> wire_value \<times> NetBuffer"
  nb_Encode :: "NetBuffer \<Rightarrow> NetBuffer"
  nb_Decode :: "NetBuffer \<Rightarrow> bool \<times> NetBuffer"
  nb_GetAllUseSize :: "NetBuffer \<Rightarrow> int"
  nb_GetBufferPtr :: "NetBuffer \<Rightarrow> u8 list"
  m_byHeaderCode :: u8
  df_HEADER_SIZE :: nat
  dfDEFAULTSIZE :: nat

text \<open>
  A buffer fresh from the pool has room for a header and for the largest payload behind its
  write position, and reading advances the read position only.
\<close>

definition net_frame_laws :: "net_ops \<Rightarrow> bool" where
  "net_frame_laws no \<longleftrightarrow>
     0 < df_HEADER_SIZE no \<and>
     (\<exists>b. nb_Alloc no = Some b \<and> 0 \<le> m_iWrite b \<and>
        df_HEADER_SIZE no \<le> length (m_pSerializeBuffer b) \<and>
        nat (m_iWrite b) + dfDEFAULTSIZE no \<le> length (m_pSerializeBuffer b)) \<and>
     (\<forall>b. \<exists>v n. nb_get_BYTE no b = (v, b\<lparr>m_iRead := n\<rparr>)) \<and>
     (\<forall>b. \<exists>v n. nb_get_WORD no b = (v, b\<lparr>m_iRead := n\<rparr>))"

text \<open>
  The encoded bytes of a buffer (\<open>GetBufferPtr\<close>, \<open>GetAllUseSize\<close>): the size is that of a part
  of the memory the pointer gives.
\<close>

definition net_size_laws :: "net_ops \<Rightarrow> bool" where
  "net_size_laws no \<longleftrightarrow>
     (\<forall>b. 0 \<le> nb_GetAllUseSize no b \<and> nat (nb_GetAllUseSize no b) \<le> length (nb_GetBufferPtr no b))"

text \<open>
  Fields are read in the order they were written: \<open>flds b\<close> are the fields written to the
  buffer and not yet read. Nothing is said of a \<open>char[n]\<close>, for which the overload of the
  library is not known.
\<close>

definition net_read_laws :: "net_ops \<Rightarrow> (NetBuffer \<Rightarrow> wire_value list) \<Rightarrow> bool" where
  "net_read_laws no flds \<longleftrightarrow>
     (\<forall>f fs b. flds b = f # fs \<longrightarrow> (\<forall>n. wire_type_of f \<noteq> TChars n) \<longrightarrow>
        (\<exists>b'. nb_get no (wire_type_of f) b = (f, b') \<and> flds b' = fs))"

text \<open>
  A buffer is bounded: fields that together take at most \<open>dfDEFAULTSIZE\<close> bytes (\<open>sz\<close> is what a
  field takes) fit into a fresh one. Nothing is said of fields that do not fit.
\<close>

definition net_fits :: "net_ops \<Rightarrow> (wire_value \<Rightarrow> nat) \<Rightarrow> wire_value list \<Rightarrow> bool" where
  "net_fits no sz fs \<longleftrightarrow> sum_list (map sz fs) \<le> dfDEFAULTSIZE no"

definition net_stream_laws ::
  "net_ops \<Rightarrow> (wire_value \<Rightarrow> nat) \<Rightarrow> (NetBuffer \<Rightarrow> wire_value list) \<Rightarrow> bool" where
  "net_stream_laws no sz flds \<longleftrightarrow> net_read_laws no flds \<and>
     (\<exists>b. nb_Alloc no = Some b \<and> (\<forall>fs. net_fits no sz fs \<longrightarrow> flds (fold (nb_put no) fs b) = fs))"

lemma net_read_get:
  "net_read_laws no flds \<Longrightarrow> flds b = f # fs \<Longrightarrow> (\<And>n. wire_type_of f \<noteq> TChars n) \<Longrightarrow>
   \<exists>b'. nb_get no (wire_type_of f) b = (f, b') \<and> flds b' = fs"
  by (simp add: net_read_laws_def)

lemma net_stream_read: "net_stream_laws no sz flds \<Longrightarrow> net_read_laws no flds"
  by (simp add: net_stream_laws_def)

lemma net_stream_puts:
  assumes "net_stream_laws no sz flds" and "net_fits no sz fs"
  obtains b where "nb_Alloc no = Some b" and "flds (fold (nb_put no) fs b) = fs"
  using assms by (auto simp: net_stream_laws_def)

section \<open>Ring buffers\<close>

record 'r ring_ops =
  rb_MoveWritePos :: "int \<Rightarrow> 'r \<Rightarrow> 'r"
  rb_GetUseSize :: "'r \<Rightarrow> int"
  rb_GetFreeSize :: "'r \<Rightarrow> int"
  rb_GetNotBrokenGetSize :: "'r \<Rightarrow> int"
  rb_GetNotBrokenPutSize :: "'r \<Rightarrow> int"
  rb_IsFull :: "'r \<Rightarrow> bool"
  rb_Peek :: "int \<Rightarrow> 'r \<Rightarrow> u8 list"
  rb_RemoveData :: "int \<Rightarrow> 'r \<Rightarrow> 'r"
  rb_Dequeue :: "int \<Rightarrow> 'r \<Rightarrow> u8 list \<times> 'r"

text \<open>The bytes between the read and the write position of a ring are \<open>bytes r\<close>.\<close>

definition ring_laws :: "'r ring_ops \<Rightarrow> ('r \<Rightarrow> u8 list) \<Rightarrow> bool" where
  "ring_laws ro bytes \<longleftrightarrow>
     (\<forall>r. rb_GetUseSize ro r = int (length (bytes r))) \<and>
     (\<forall>r n. n \<le> length (bytes r) \<longrightarrow>
        rb_Peek ro (int n) r = take n (bytes r) \<and>
        bytes (rb_RemoveData ro (int n) r) = drop n (bytes r) \<and>
        fst (rb_Dequeue ro (int n) r) = take n (bytes r) \<and>
        bytes (snd (rb_Dequeue ro (int n) r)) = drop n (bytes r))"

lemma ring_laws_use: "ring_laws ro bytes \<Longrightarrow> rb_GetUseSize ro r = int (length (bytes r))"
  by (simp add: ring_laws_def)

lemma ring_laws_peek:
  "ring_laws ro bytes \<Longrightarrow> n \<le> length (bytes r) \<Longrightarrow> rb_Peek ro (int n) r = take n (bytes r)"
  unfolding ring_laws_def by blast

section \<open>Lock-free queues\<close>

text \<open>\<open>Dequeue(&x)\<close> leaves \<open>x\<close> unassigned on an empty queue: the first component is \<open>None\<close>.\<close>

record ('a, 'q) queue_ops =
  q_Enqueue :: "'a \<Rightarrow> 'q \<Rightarrow> 'q"
  q_Dequeue :: "'q \<Rightarrow> 'a option \<times> 'q"
  q_GetRestSize :: "'q \<Rightarrow> int"

definition queue_laws :: "('a, 'q) queue_ops \<Rightarrow> ('q \<Rightarrow> 'a list) \<Rightarrow> bool" where
  "queue_laws qo items \<longleftrightarrow>
     (\<forall>x q. items (q_Enqueue qo x q) = items q @ [x]) \<and>
     (\<forall>x xs q. items q = x # xs \<longrightarrow> (\<exists>q'. q_Dequeue qo q = (Some x, q') \<and> items q' = xs)) \<and>
     (\<forall>q. q_GetRestSize qo q = int (length (items q)))"

lemma queue_laws_Enqueue: "queue_laws qo items \<Longrightarrow> items (q_Enqueue qo x q) = items q @ [x]"
  by (simp add: queue_laws_def)

lemma queue_laws_Dequeue:
  "queue_laws qo items \<Longrightarrow> items q = x # xs \<Longrightarrow>
   \<exists>q'. q_Dequeue qo q = (Some x, q') \<and> items q' = xs"
  by (simp add: queue_laws_def)

lemma queue_laws_GetRestSize:
  "queue_laws qo items \<Longrightarrow> q_GetRestSize qo q = int (length (items q))"
  by (simp add: queue_laws_def)

section \<open>Memory pools\<close>

text \<open>
  CTLSMemoryPool: \<open>Alloc\<close> gives an object that is not in use, \<open>Free\<close> takes one back.
  \<open>used p\<close> are the objects in use.
\<close>

record 'p pool_ops =
  pool_Alloc :: "'p \<Rightarrow> nat \<times> 'p"
  pool_Free :: "nat \<Rightarrow> 'p \<Rightarrow> 'p"

definition pool_laws :: "'p pool_ops \<Rightarrow> ('p \<Rightarrow> nat set) \<Rightarrow> bool" where
  "pool_laws po used \<longleftrightarrow>
     (\<forall>p. fst (pool_Alloc po p) \<notin> used p \<and>
        used (snd (pool_Alloc po p)) = insert (fst (pool_Alloc po p)) (used p)) \<and>
     (\<forall>p a. used (pool_Free po a p) = used p - {a})"

lemma pool_laws_Alloc:
  "pool_laws po used \<Longrightarrow> pool_Alloc po p = (a, p') \<Longrightarrow> a \<notin> used p \<and> used p' = insert a (used p)"
  unfolding pool_laws_def by (metis fst_conv snd_conv)

lemma pool_laws_Free: "pool_laws po used \<Longrightarrow> used (pool_Free po a p) = used p - {a}"
  by (simp add: pool_laws_def)

section \<open>Concrete operations\<close>

text \<open>
  A ring and a queue as lists, and a buffer whose header is a code byte and a little-endian
  length, with an identity code: they show that the laws can hold together, and concrete runs
  of the model evaluate on them.
\<close>

definition list_ring :: "u8 list ring_ops" where
  "list_ring = \<lparr>
     rb_MoveWritePos = (\<lambda>n r. r @ replicate (nat n) 0),
     rb_GetUseSize = (\<lambda>r. int (length r)),
     rb_GetFreeSize = (\<lambda>r. 64 - int (length r)),
     rb_GetNotBrokenGetSize = (\<lambda>r. int (length r)),
     rb_GetNotBrokenPutSize = (\<lambda>r. 64 - int (length r)),
     rb_IsFull = (\<lambda>r. 64 \<le> length r),
     rb_Peek = (\<lambda>n r. take (nat n) r),
     rb_RemoveData = (\<lambda>n r. drop (nat n) r),
     rb_Dequeue = (\<lambda>n r. (take (nat n) r, drop (nat n) r))\<rparr>"

lemma list_ring_laws: "ring_laws list_ring (\<lambda>r. r)"
  by (simp add: ring_laws_def list_ring_def)

definition list_queue :: "('a, 'a list) queue_ops" where
  "list_queue = \<lparr>
     q_Enqueue = (\<lambda>x q. q @ [x]),
     q_Dequeue = (\<lambda>q. case q of [] \<Rightarrow> (None, []) | x # xs \<Rightarrow> (Some x, xs)),
     q_GetRestSize = (\<lambda>q. int (length q))\<rparr>"

lemma list_queue_laws: "queue_laws list_queue (\<lambda>q. q)"
  by (simp add: queue_laws_def list_queue_def)

text \<open>A pool that never gives out the same object again, as the list of those in use.\<close>

definition list_pool :: "(nat \<times> nat list) pool_ops" where
  "list_pool = \<lparr>
     pool_Alloc = (\<lambda>(n, xs). (n, Suc n, n # xs)),
     pool_Free = (\<lambda>a (n, xs). (n, removeAll a xs))\<rparr>"

text \<open>The objects in use, below the next one.\<close>

definition list_pool_used :: "nat \<times> nat list \<Rightarrow> nat set" where
  "list_pool_used p = {a \<in> set (snd p). a < fst p}"

lemma list_pool_laws: "pool_laws list_pool list_pool_used"
  by (auto simp: pool_laws_def list_pool_def list_pool_used_def split: prod.splits)

definition byte_at :: "NetBuffer \<Rightarrow> int \<Rightarrow> u8" where
  "byte_at b i = (if 0 \<le> i \<and> nat i < length (m_pSerializeBuffer b)
     then m_pSerializeBuffer b ! nat i else 0)"

definition plain_net :: net_ops where
  "plain_net = \<lparr>
     nb_Alloc = Some \<lparr>m_pSerializeBuffer = replicate 16 0, m_iRead = 0, m_iWrite = 3,
       m_iWriteLast = 0, m_bIsEncoded = False\<rparr>,
     nb_get_BYTE = (\<lambda>b. (byte_at b (m_iRead b), b\<lparr>m_iRead := m_iRead b + 1\<rparr>)),
     nb_get_WORD = (\<lambda>b. (ucast (byte_at b (m_iRead b)) + 256 * ucast (byte_at b (m_iRead b + 1)),
       b\<lparr>m_iRead := m_iRead b + 2\<rparr>)),
     nb_put = (\<lambda>f b. b),
     nb_get = (\<lambda>t b. (FUInt 0, b)),
     nb_Encode = (\<lambda>b. b\<lparr>m_bIsEncoded := True\<rparr>),
     nb_Decode = (\<lambda>b. (True, b)),
     nb_GetAllUseSize = (\<lambda>b. max 0 (min (m_iWriteLast b) (int (length (m_pSerializeBuffer b))))),
     nb_GetBufferPtr = m_pSerializeBuffer,
     m_byHeaderCode = 119,
     df_HEADER_SIZE = 3,
     dfDEFAULTSIZE = 8\<rparr>"

lemma plain_net_frame_laws: "net_frame_laws plain_net"
  unfolding net_frame_laws_def by (auto simp: plain_net_def)

lemma plain_net_size_laws: "net_size_laws plain_net"
  by (auto simp: net_size_laws_def plain_net_def)

text \<open>
  A stream of fields in 64 bytes: the buffer keeps the number of the list of its fields in its
  write position, and a field that does not fit is not written.
\<close>

fun wire_size :: "wire_value \<Rightarrow> nat" where
  "wire_size (FUInt _) = 4"
| "wire_size (FInt _) = 4"
| "wire_size (FUInt64 _) = 8"
| "wire_size (FLongLong _) = 8"
| "wire_size (FString s) = 2 + length s"
| "wire_size (FWString s) = 2 + 2 * length s"
| "wire_size (FChars cs) = length cs"
| "wire_size (FIntList ns) = 2 + 4 * length ns"
| "wire_size (FStringList ss) = 2 + sum_list (map (\<lambda>s. 2 + length s) ss)"

instance wire_value :: countable
  by countable_datatype

definition stored_fields :: "NetBuffer \<Rightarrow> wire_value list" where
  "stored_fields b = from_nat (nat (m_iWrite b))"

definition store_fields :: "wire_value list \<Rightarrow> NetBuffer \<Rightarrow> NetBuffer" where
  "store_fields fs b = b\<lparr>m_iWrite := int (to_nat fs)\<rparr>"

lemma stored_store [simp]: "stored_fields (store_fields fs b) = fs"
  by (simp add: stored_fields_def store_fields_def)

definition blank_buffer :: NetBuffer where
  "blank_buffer = \<lparr>m_pSerializeBuffer = [], m_iRead = 0, m_iWrite = 0, m_iWriteLast = 0,
     m_bIsEncoded = False\<rparr>"

definition stream_net :: net_ops where
  "stream_net = plain_net\<lparr>
     dfDEFAULTSIZE := 64,
     nb_Alloc := Some (store_fields [] blank_buffer),
     nb_put := (\<lambda>f b. if sum_list (map wire_size (stored_fields b @ [f])) \<le> 64
       then store_fields (stored_fields b @ [f]) b else b),
     nb_get := (\<lambda>t b. case stored_fields b of [] \<Rightarrow> (FUInt 0, b) | f # fs \<Rightarrow> (f, store_fields fs b))\<rparr>"

lemma stream_net_puts:
  "sum_list (map wire_size (stored_fields b @ fs)) \<le> 64 \<Longrightarrow>
   stored_fields (fold (nb_put stream_net) fs b) = stored_fields b @ fs"
  by (induction fs arbitrary: b) (simp_all add: stream_net_def)

lemma stream_net_laws: "net_stream_laws stream_net wire_size stored_fields"
proof -
  have "net_read_laws stream_net stored_fields" by (simp add: net_read_laws_def stream_net_def)
  moreover have "stored_fields (fold (nb_put stream_net) fs (store_fields [] blank_buffer)) = fs"
    if "net_fits stream_net wire_size fs" for fs
    using stream_net_puts [of "store_fields [] blank_buffer" fs] that by (simp add: net_fits_def stream_net_def)
  moreover have "nb_Alloc stream_net = Some (store_fields [] blank_buffer)" by (simp add: stream_net_def)
  ultimately show ?thesis unfolding net_stream_laws_def by blast
qed

end
