(* ===== verification/SendStream.thy ===== *)
theory SendStream
  imports External
begin

text \<open>
  The send path below RIOTestServer::SendPost: \<open>MakeSendStream\<close> gathers the queued packets of a
  session into the registered send buffer of 16384 bytes. The theory says which packets a call
  gathers, what it leaves behind and what length it returns, on every branch, and shows that it
  never writes outside the buffer.
\<close>

section \<open>The code\<close>

text \<open>The state of SendItem in RIOTestSession.h that the send path works on.\<close>

record 'q SendItem =
  sendQueue :: 'q
  rioSendBuffer :: "u8 list"
  reservedBuffer :: "NetBuffer option"
  ioMode :: IO_MODE

text \<open>
  \<open>memcpy_s(mem + off, destSize, src, count)\<close> of the C runtime: the sizes are converted to
  \<open>size_t\<close>, a destination smaller than the count calls the invalid parameter handler, and
  nothing is copied for a count of 0.
\<close>

definition memcpy_s :: "int \<Rightarrow> int \<Rightarrow> u8 list \<Rightarrow> int \<Rightarrow> u8 list \<Rightarrow> u8 list outcome" where
  "memcpy_s off destSize src count mem =
     (let dest = word_of_int destSize :: u64; n = word_of_int count :: u64
      in if n = 0 then Inr mem
         else if dest < n then Inl InvalidParameter
         else if length src < unat n then Inl UndefinedBehaviour
         else mem_put off (take (unat n) src) mem)"

definition IsValidPacketSize :: "int \<Rightarrow> bool outcome" where
  "IsValidPacketSize bufferSize =
     (if bufferSize < MAX_SEND_BUFFER_SIZE then Inr True else Inl Crash)"

text \<open>The \<open>for\<close> loop, with the iterations that are left and \<open>totalSendSize\<close>.\<close>

fun stream_loop ::
  "net_ops \<Rightarrow> (NetBuffer, 'q) queue_ops \<Rightarrow> nat \<Rightarrow> int \<Rightarrow> 'q SendItem \<Rightarrow> (int \<times> 'q SendItem) outcome" where
  "stream_loop no qo 0 totalSendSize item = Inr (totalSendSize, item)"
| "stream_loop no qo (Suc i) totalSendSize item =
     (case q_Dequeue qo (sendQueue item) of
        (None, q) \<Rightarrow> Inl UndefinedBehaviour
      | (Some netBufferPtr, q) \<Rightarrow>
          (let item = item\<lparr>sendQueue := q\<rparr>;
               useSize = nb_GetAllUseSize no netBufferPtr
           in obind (IsValidPacketSize useSize) (\<lambda>_.
                let totalSendSize = totalSendSize + useSize
                in if totalSendSize \<ge> MAX_SEND_BUFFER_SIZE
                   then Inr (totalSendSize, item\<lparr>reservedBuffer := Some netBufferPtr\<rparr>)
                   else obind (memcpy_s (totalSendSize - useSize)
                          (MAX_SEND_BUFFER_SIZE - totalSendSize - useSize)
                          (nb_GetBufferPtr no netBufferPtr) useSize (rioSendBuffer item)) (\<lambda>mem.
                          stream_loop no qo i totalSendSize (item\<lparr>rioSendBuffer := mem\<rparr>)))))"

definition take_reserved :: "net_ops \<Rightarrow> 'q SendItem \<Rightarrow> (int \<times> 'q SendItem) outcome" where
  "take_reserved no item =
     (case reservedBuffer item of
        None \<Rightarrow> Inr (0, item)
      | Some buffer \<Rightarrow>
          (let useSize = nb_GetAllUseSize no buffer
           in obind (IsValidPacketSize useSize) (\<lambda>_.
                obind (memcpy_s 0 MAX_SEND_BUFFER_SIZE (nb_GetBufferPtr no buffer) useSize
                  (rioSendBuffer item)) (\<lambda>mem.
                  Inr (useSize, item\<lparr>rioSendBuffer := mem, reservedBuffer := None\<rparr>)))))"

definition MakeSendStream ::
  "net_ops \<Rightarrow> (NetBuffer, 'q) queue_ops \<Rightarrow> 'q SendItem \<Rightarrow> (u32 \<times> 'q SendItem) outcome" where
  "MakeSendStream no qo item =
     (let bufferCount = q_GetRestSize qo (sendQueue item)
      in obind (take_reserved no item) (\<lambda>(totalSendSize, item).
         obind (stream_loop no qo (nat bufferCount) totalSendSize item) (\<lambda>(totalSendSize, item).
           Inr (word_of_int totalSendSize, item))))"

section \<open>Packets and their bytes\<close>

definition packet_bytes :: "net_ops \<Rightarrow> NetBuffer \<Rightarrow> u8 list" where
  "packet_bytes no b = take (nat (nb_GetAllUseSize no b)) (nb_GetBufferPtr no b)"

definition stream_of :: "net_ops \<Rightarrow> NetBuffer list \<Rightarrow> u8 list" where
  "stream_of no ps = concat (map (packet_bytes no) ps)"

text \<open>The packets of a session that are still to be sent, in order.\<close>

definition unsent :: "('q \<Rightarrow> NetBuffer list) \<Rightarrow> 'q SendItem \<Rightarrow> NetBuffer list" where
  "unsent items item =
     (case reservedBuffer item of None \<Rightarrow> [] | Some b \<Rightarrow> [b]) @ items (sendQueue item)"

lemma stream_of_simps [simp]:
  "stream_of no [] = []"
  "stream_of no (p # ps) = packet_bytes no p @ stream_of no ps"
  "stream_of no (ps @ qs) = stream_of no ps @ stream_of no qs"
  by (simp_all add: stream_of_def)

lemma size_packet_bytes:
  "net_size_laws no \<Longrightarrow> nb_GetAllUseSize no b = int (length (packet_bytes no b))"
  by (simp add: net_size_laws_def packet_bytes_def)

lemma packet_bytes_source:
  assumes "net_size_laws no"
  shows "length (packet_bytes no b) \<le> length (nb_GetBufferPtr no b)"
    and "take (length (packet_bytes no b)) (nb_GetBufferPtr no b) = packet_bytes no b"
  using assms by (simp_all add: net_size_laws_def packet_bytes_def)

text \<open>
  The size test of \<open>memcpy_s\<close> as the loop calls it: behind a packet of \<open>n\<close> bytes that ends at
  \<open>used\<close>, the code claims \<open>16384 - used - n\<close> bytes of room, a number that may be negative and
  is then a huge \<open>size_t\<close>.
\<close>

definition room_ok :: "nat \<Rightarrow> nat \<Rightarrow> bool" where
  "room_ok used n \<longleftrightarrow> n = 0 \<or> used + 2 * n \<le> 16384 \<or> 16384 < used + n"

lemma uint_size_t:
  assumes "- (2 ^ 63) \<le> k" and "k < 2 ^ 63"
  shows "uint (word_of_int k :: u64) = (if 0 \<le> k then k else k + 2 ^ 64)"
proof (cases "0 \<le> k")
  case True
  with assms show ?thesis by (simp add: uint_word_of_int)
next
  case False
  have "k mod 2 ^ 64 = (k + 2 ^ 64) mod 2 ^ 64" by simp
  also have "\<dots> = k + 2 ^ 64" using False assms by (intro mod_pos_pos_trivial) auto
  finally show ?thesis using False by (simp add: uint_word_of_int)
qed

lemma size_t_less:
  assumes "n \<le> 16384" and "e \<le> 16384"
  shows "(word_of_int (16384 - int e - int n) :: u64) < word_of_int (int n) \<longleftrightarrow>
    \<not> (e + 2 * n \<le> 16384 \<or> 16384 < e + n)"
proof -
  have "uint (word_of_int (int n) :: u64) = int n"
    using assms by (subst uint_size_t) auto
  moreover have "uint (word_of_int (16384 - int e - int n) :: u64) =
      (if e + n \<le> 16384 then 16384 - int e - int n else 16384 - int e - int n + 2 ^ 64)"
    using assms by (subst uint_size_t) auto
  ultimately show ?thesis
    unfolding word_less_def using assms by auto
qed

lemma memcpy_s_room:
  assumes "e < 16384" and "n \<le> e" and "n \<le> length src"
  shows "memcpy_s (int e - int n) (MAX_SEND_BUFFER_SIZE - int e - int n) src (int n) mem =
    (if n = 0 then Inr mem else if room_ok e n then mem_put (int (e - n)) (take n src) mem
     else Inl InvalidParameter)"
proof -
  have n: "unat (word_of_int (int n) :: u64) = n" "(word_of_int (int n) :: u64) = 0 \<longleftrightarrow> n = 0"
    using assms by (simp_all add: unat_of_nat unat_eq_0 [symmetric])
  have "int e - int n = int (e - n)" using assms(2) by simp
  then show ?thesis
    using assms size_t_less [of n e] n
    by (auto simp: memcpy_s_def MAX_SEND_BUFFER_SIZE_def room_ok_def Let_def simp del: of_int_diff)
qed

section \<open>One round of the loop\<close>

text \<open>
  Behind \<open>acc\<close> in the buffer, a round of the loop appends the bytes of the packet it dequeues,
  or stops: at an oversized packet, at a failed \<open>memcpy_s\<close>, or by reserving the packet.
\<close>

definition holds :: "'q SendItem \<Rightarrow> u8 list \<Rightarrow> bool" where
  "holds item acc \<longleftrightarrow> length (rioSendBuffer item) = 16384 \<and> length acc < 16384 \<and>
     take (length acc) (rioSendBuffer item) = acc"

lemma holds_append:
  assumes "holds item acc" and "length acc + length bs < 16384"
  obtains mem where "mem_put (int (length acc)) bs (rioSendBuffer item) = Inr mem"
    and "holds (item\<lparr>rioSendBuffer := mem\<rparr>) (acc @ bs)"
proof -
  have "nat (int (length acc)) + length bs \<le> length (rioSendBuffer item)"
    using assms by (simp add: holds_def)
  then obtain mem where mem: "mem_put (int (length acc)) bs (rioSendBuffer item) = Inr mem"
    by (auto simp: mem_put_def)
  show thesis
    using assms mem mem_put_prefix [OF mem] mem_put_length [OF mem]
    by (intro that [OF mem]) (simp add: holds_def)
qed

lemma loop_copy:
  assumes "net_size_laws no" and "holds item acc" and "length acc + n < 16384"
    and n: "n = length (packet_bytes no p)"
  shows "memcpy_s (int (length acc + n) - int n) (MAX_SEND_BUFFER_SIZE - int (length acc + n) - int n)
      (nb_GetBufferPtr no p) (int n) (rioSendBuffer item) =
    (if room_ok (length acc + n) n
     then mem_put (int (length acc)) (packet_bytes no p) (rioSendBuffer item)
     else Inl InvalidParameter)"
proof -
  have src: "n \<le> length (nb_GetBufferPtr no p)" "take n (nb_GetBufferPtr no p) = packet_bytes no p"
    using packet_bytes_source [OF assms(1), of p] by (simp_all add: n)
  have "length acc \<le> length (rioSendBuffer item)"
    using assms(2) by (simp add: holds_def)
  then show ?thesis
    using src assms(3) n
    by (subst memcpy_s_room) (auto simp: mem_put_Nil room_ok_def)
qed

lemma stream_loop_round:
  assumes q: "queue_laws qo items" and size: "net_size_laws no"
    and item: "items (sendQueue item) = p # ps" "holds item acc"
  defines "n \<equiv> length (packet_bytes no p)"
  obtains q' mem where "items q' = ps"
    and "length acc + n < 16384 \<Longrightarrow> holds (item\<lparr>sendQueue := q', rioSendBuffer := mem\<rparr>) (acc @ packet_bytes no p)"
    and "stream_loop no qo (Suc i) (int (length acc)) item =
      (if 16384 \<le> n then Inl Crash
       else if 16384 \<le> length acc + n
       then Inr (int (length acc + n), item\<lparr>sendQueue := q', reservedBuffer := Some p\<rparr>)
       else if \<not> room_ok (length acc + n) n then Inl InvalidParameter
       else stream_loop no qo i (int (length (acc @ packet_bytes no p)))
              (item\<lparr>sendQueue := q', rioSendBuffer := mem\<rparr>))"
proof -
  obtain q' where deq: "q_Dequeue qo (sendQueue item) = (Some p, q')" and q': "items q' = ps"
    using queue_laws_Dequeue [OF q item(1)] by blast
  let ?e = "length acc + n"
  have use: "nb_GetAllUseSize no p = int n"
    using size_packet_bytes [OF size, of p] by (simp add: n_def)
  have sum: "int (length acc) + int n = int ?e" "16384 \<le> int ?e \<longleftrightarrow> 16384 \<le> ?e" by auto
  show thesis
  proof (cases "?e < 16384")
    case True
    obtain mem where mem: "mem_put (int (length acc)) (packet_bytes no p) (rioSendBuffer item) = Inr mem"
      and h: "holds (item\<lparr>rioSendBuffer := mem\<rparr>) (acc @ packet_bytes no p)"
      using holds_append [OF item(2), of "packet_bytes no p"] True unfolding n_def by blast
    have copy: "memcpy_s (int ?e - int n) (MAX_SEND_BUFFER_SIZE - int ?e - int n)
        (nb_GetBufferPtr no p) (int n) (rioSendBuffer item) =
        (if room_ok ?e n then Inr mem else Inl InvalidParameter)"
      using loop_copy [OF size item(2), of n p] True by (simp only: mem n_def)
    show ?thesis
    proof (intro that [of q' mem])
      show "items q' = ps" by (rule q')
      show "holds (item\<lparr>sendQueue := q', rioSendBuffer := mem\<rparr>) (acc @ packet_bytes no p)"
        using h by (simp add: holds_def)
      have conds: "(MAX_SEND_BUFFER_SIZE \<le> int ?e) = False" "(int n < MAX_SEND_BUFFER_SIZE) = True"
        "(16384 \<le> n) = False" "(16384 \<le> ?e) = False"
        using True by (simp_all add: MAX_SEND_BUFFER_SIZE_def)
      have len: "int (length (acc @ packet_bytes no p)) = int ?e"
        by (simp add: n_def)
      show "stream_loop no qo (Suc i) (int (length acc)) item =
        (if 16384 \<le> n then Inl Crash
         else if 16384 \<le> ?e
         then Inr (int ?e, item\<lparr>sendQueue := q', reservedBuffer := Some p\<rparr>)
         else if \<not> room_ok ?e n then Inl InvalidParameter
         else stream_loop no qo i (int (length (acc @ packet_bytes no p)))
                (item\<lparr>sendQueue := q', rioSendBuffer := mem\<rparr>))"
        unfolding len conds
        by (subst stream_loop.simps)
          (simp add: deq use sum(1) conds IsValidPacketSize_def copy Let_def del: of_nat_add)
    qed
  next
    case False
    then show ?thesis
      by (intro that [of q' "[]"])
        (simp_all add: q' deq use IsValidPacketSize_def Let_def MAX_SEND_BUFFER_SIZE_def)
  qed
qed

section \<open>The whole loop\<close>

text \<open>
  What a call that returns has gathered, from the packets \<open>before\<close>: it sent a prefix of them,
  whose bytes now fill the front of the buffer behind \<open>acc\<close>. Either nothing is left and the
  length \<open>len\<close> is that of these bytes, or the next packet did not fit: it is reserved, and its
  size is part of \<open>len\<close> although its bytes were not copied.
\<close>

definition gathered ::
  "net_ops \<Rightarrow> ('q \<Rightarrow> NetBuffer list) \<Rightarrow> u8 list \<Rightarrow> NetBuffer list \<Rightarrow> nat \<Rightarrow> 'q SendItem \<Rightarrow> bool" where
  "gathered no items acc before len item \<longleftrightarrow>
     (\<exists>sent. before = sent @ unsent items item \<and> holds item (acc @ stream_of no sent) \<and>
        (reservedBuffer item = None \<and> items (sendQueue item) = [] \<and>
           len = length (acc @ stream_of no sent)
         \<or> (\<exists>p. reservedBuffer item = Some p \<and>
              len = length (acc @ stream_of no sent) + length (packet_bytes no p) \<and>
              16384 \<le> len \<and> len < 32768)))"

lemma gathered_Cons:
  "gathered no items (acc @ packet_bytes no p) ps len item \<Longrightarrow> gathered no items acc (p # ps) len item"
  unfolding gathered_def by (metis append.assoc append_Cons stream_of_simps(2))

lemma stream_loop_gathers:
  assumes q: "queue_laws qo items" and size: "net_size_laws no"
    and "items (sendQueue item) = ps" and "holds item acc" and "reservedBuffer item = None"
    and "stream_loop no qo (length ps) (int (length acc)) item = Inr (t, item')"
  shows "\<exists>len. t = int len \<and> gathered no items acc ps len item' \<and> ioMode item' = ioMode item"
  using assms(3-6)
proof (induction ps arbitrary: item acc)
  case Nil
  then show ?case by (auto simp: gathered_def unsent_def intro!: exI [of _ "[]"])
next
  case (Cons p ps)
  let ?pb = "packet_bytes no p"
  obtain q' mem where q': "items q' = ps"
    and h: "length acc + length ?pb < 16384 \<Longrightarrow>
      holds (item\<lparr>sendQueue := q', rioSendBuffer := mem\<rparr>) (acc @ ?pb)"
    and round: "stream_loop no qo (Suc (length ps)) (int (length acc)) item =
      (if 16384 \<le> length ?pb then Inl Crash
       else if 16384 \<le> length acc + length ?pb
       then Inr (int (length acc + length ?pb), item\<lparr>sendQueue := q', reservedBuffer := Some p\<rparr>)
       else if \<not> room_ok (length acc + length ?pb) (length ?pb) then Inl InvalidParameter
       else stream_loop no qo (length ps) (int (length (acc @ ?pb)))
              (item\<lparr>sendQueue := q', rioSendBuffer := mem\<rparr>))"
    using stream_loop_round [OF q size Cons.prems(1,2)] by metis
  show ?case
  proof (cases "16384 \<le> length acc + length ?pb")
    case True
    with Cons.prems round q' show ?thesis
      by (auto simp: gathered_def unsent_def holds_def split: if_splits
          intro!: exI [of _ "length acc + length ?pb"] exI [of _ "[]"])
  next
    case False
    with Cons.prems(4) round have
      "stream_loop no qo (length ps) (int (length (acc @ ?pb)))
        (item\<lparr>sendQueue := q', rioSendBuffer := mem\<rparr>) = Inr (t, item')"
      by (auto split: if_splits)
    from Cons.IH [OF _ _ _ this] q' h False Cons.prems(3) show ?thesis
      by (auto intro: gathered_Cons)
  qed
qed

lemma stream_loop_in_bounds:
  assumes q: "queue_laws qo items" and size: "net_size_laws no"
    and "items (sendQueue item) = ps" and "holds item acc"
  shows "stream_loop no qo (length ps) (int (length acc)) item \<noteq> Inl UndefinedBehaviour"
  using assms(3,4)
proof (induction ps arbitrary: item acc)
  case (Cons p ps)
  show ?case
  proof (rule stream_loop_round [OF q size Cons.prems, of "length ps"], goal_cases)
    case (1 q' mem)
    then show ?case
      using Cons.IH [of "item\<lparr>sendQueue := q', rioSendBuffer := mem\<rparr>" "acc @ packet_bytes no p"]
      by (auto simp del: stream_loop.simps)
  qed
qed simp

lemma stream_loop_sends_small:
  assumes q: "queue_laws qo items" and size: "net_size_laws no"
    and "items (sendQueue item) = ps" and "holds item acc"
    and "\<And>p. p \<in> set ps \<Longrightarrow> length (packet_bytes no p) \<le> m"
    and "length acc + length (stream_of no ps) + 2 * m \<le> 16384" and "0 < m"
  shows "\<exists>item'. stream_loop no qo (length ps) (int (length acc)) item =
    Inr (int (length (acc @ stream_of no ps)), item')"
  using assms(3-6)
proof (induction ps arbitrary: item acc)
  case (Cons p ps)
  let ?n = "length (packet_bytes no p)"
  have n: "?n \<le> m" using Cons.prems(3) by simp
  with Cons.prems(4) assms(7) have fits: "length acc + ?n < 16384" "room_ok (length acc + ?n) ?n"
    by (auto simp: room_ok_def)
  show ?case
  proof (rule stream_loop_round [OF q size Cons.prems(1,2), of "length ps"], goal_cases)
    case (1 q' mem)
    then show ?case
      using Cons.IH [of "item\<lparr>sendQueue := q', rioSendBuffer := mem\<rparr>" "acc @ packet_bytes no p"]
        Cons.prems(3,4) fits
      by (auto simp: add.assoc simp del: stream_loop.simps)
  qed
qed simp

lemma stream_loop_uniform:
  assumes q: "queue_laws qo items" and size: "net_size_laws no"
    and "items (sendQueue item) = ps" and "holds item acc"
    and "\<And>p. p \<in> set ps \<Longrightarrow> length (packet_bytes no p) = n"
    and "ps \<noteq> []" and "length acc + 2 * n \<le> 16384" and "16384 < length acc + (length ps + 2) * n"
  shows "stream_loop no qo (length ps) (int (length acc)) item = Inl InvalidParameter"
  using assms(3-8)
proof (induction ps arbitrary: item acc)
  case (Cons p ps)
  have n: "length (packet_bytes no p) = n" using Cons.prems(3) by simp
  have "0 < n"
    using Cons.prems(2,6) by (cases n) (auto simp: holds_def)
  have ps: "ps \<noteq> []" if "length acc + 3 * n \<le> 16384"
    using that Cons.prems(6) by (auto simp: algebra_simps)
  show ?case
  proof (rule stream_loop_round [OF q size Cons.prems(1,2), of "length ps"], goal_cases)
    case (1 q' mem)
    then show ?case
      using Cons.IH [of "item\<lparr>sendQueue := q', rioSendBuffer := mem\<rparr>" "acc @ packet_bytes no p"]
        Cons.prems(3,5,6) ps n \<open>0 < n\<close>
      by (auto simp: room_ok_def algebra_simps simp del: stream_loop.simps)
  qed
qed simp

section \<open>MakeSendStream\<close>

lemma take_reserved_None: "reservedBuffer item = None \<Longrightarrow> take_reserved no item = Inr (0, item)"
  by (simp add: take_reserved_def)

lemma take_reserved_Some:
  assumes size: "net_size_laws no" and item: "reservedBuffer item = Some b" "length (rioSendBuffer item) = 16384"
  obtains mem where "take_reserved no item =
      (if 16384 \<le> length (packet_bytes no b) then Inl Crash
       else Inr (int (length (packet_bytes no b)), item\<lparr>rioSendBuffer := mem, reservedBuffer := None\<rparr>))"
    and "length (packet_bytes no b) < 16384 \<Longrightarrow>
      holds (item\<lparr>rioSendBuffer := mem, reservedBuffer := None\<rparr>) (packet_bytes no b)"
proof (cases "length (packet_bytes no b) < 16384")
  case True
  let ?n = "length (packet_bytes no b)"
  from item(2) have "holds item []" by (simp add: holds_def)
  from holds_append [OF this, of "packet_bytes no b"] True obtain mem
    where mem: "mem_put 0 (packet_bytes no b) (rioSendBuffer item) = Inr mem"
      and h: "holds (item\<lparr>rioSendBuffer := mem\<rparr>) (packet_bytes no b)" by auto
  have "uint (word_of_int (int ?n) :: u64) = int ?n" "uint (word_of_int 16384 :: u64) = 16384"
    using True by (subst uint_size_t; simp)+
  then have "\<not> (word_of_int 16384 :: u64) < word_of_int (int ?n)"
    unfolding word_less_def using True by simp
  moreover have "unat (word_of_int (int ?n) :: u64) = ?n"
    using True by (simp add: unat_of_nat)
  ultimately have "memcpy_s 0 MAX_SEND_BUFFER_SIZE (nb_GetBufferPtr no b) (int ?n) (rioSendBuffer item) = Inr mem"
    using packet_bytes_source [OF size, of b] mem
    by (auto simp: memcpy_s_def MAX_SEND_BUFFER_SIZE_def mem_put_def unat_eq_0 Let_def split: if_splits)
  with True h item(1) show ?thesis
    by (intro that [of mem])
      (simp_all add: take_reserved_def size_packet_bytes [OF size] IsValidPacketSize_def
        MAX_SEND_BUFFER_SIZE_def holds_def)
next
  case False
  with item(1) show ?thesis
    by (intro that [of "[]"])
      (simp_all add: take_reserved_def size_packet_bytes [OF size] IsValidPacketSize_def
        MAX_SEND_BUFFER_SIZE_def)
qed

text \<open>
  The two phases together: what is reserved is copied first, and the loop starts behind it.
\<close>

lemma MakeSendStream_phases:
  assumes q: "queue_laws qo items" and size: "net_size_laws no" and buf: "length (rioSendBuffer item) = 16384"
  obtains (crash) b where "reservedBuffer item = Some b" and "16384 \<le> length (packet_bytes no b)"
      and "MakeSendStream no qo item = Inl Crash"
  | (loop) acc item1 first where "items (sendQueue item1) = items (sendQueue item)"
      and "holds item1 acc" and "reservedBuffer item1 = None" and "ioMode item1 = ioMode item"
      and "acc = stream_of no first" and "unsent items item = first @ items (sendQueue item)"
      and "reservedBuffer item = None \<Longrightarrow> first = []"
      and "MakeSendStream no qo item =
        obind (stream_loop no qo (length (items (sendQueue item))) (int (length acc)) item1)
          (\<lambda>(totalSendSize, item). Inr (word_of_int totalSendSize, item))"
proof (cases "reservedBuffer item")
  case None
  show ?thesis
    by (rule loop [of item "[]" "[]"])
      (use None buf in \<open>simp_all add: holds_def unsent_def MakeSendStream_def take_reserved_None
        queue_laws_GetRestSize [OF q]\<close>)
next
  case (Some b)
  let ?n = "length (packet_bytes no b)"
  show ?thesis
  proof (rule take_reserved_Some [OF size Some buf], goal_cases)
    case (1 mem)
    show ?thesis
    proof (cases "16384 \<le> ?n")
      case True
      with 1 Some show ?thesis by (intro crash) (simp_all add: MakeSendStream_def)
    next
      case False
      with 1 Some show ?thesis
        by (intro loop [of "item\<lparr>rioSendBuffer := mem, reservedBuffer := None\<rparr>" "packet_bytes no b" "[b]"])
          (simp_all add: unsent_def MakeSendStream_def queue_laws_GetRestSize [OF q])
    qed
  qed
qed

lemma gathered_append:
  "gathered no items (stream_of no first) ps len item \<Longrightarrow> gathered no items [] (first @ ps) len item"
  unfolding gathered_def by (metis append.assoc append_Nil stream_of_simps(3))

lemma MakeSendStream_gathered:
  assumes q: "queue_laws qo items" and size: "net_size_laws no" and buf: "length (rioSendBuffer item) = 16384"
    and ret: "MakeSendStream no qo item = Inr (len, item')"
  shows "gathered no items [] (unsent items item) (unat len) item' \<and> ioMode item' = ioMode item"
proof (rule MakeSendStream_phases [OF q size buf], goal_cases)
  case 1
  with ret show ?thesis by simp
next
  case (2 acc item1 first)
  with ret obtain t where loop: "stream_loop no qo (length (items (sendQueue item1))) (int (length acc)) item1 =
      Inr (t, item')" and len: "len = word_of_int t"
    by (auto simp: obind_eq_Inr_iff)
  from stream_loop_gathers [OF q size refl 2(2,3) loop] obtain k where k: "t = int k"
    "gathered no items acc (items (sendQueue item1)) k item'" "ioMode item' = ioMode item1" by blast
  from k(2) have "k < 32768" by (auto simp: gathered_def holds_def)
  with k(1) have "unat len = k" by (simp add: len unat_of_nat)
  with k 2 gathered_append [of no items first] show ?thesis by simp
qed

text \<open>Packets that leave room for twice the largest of them go out in one call.\<close>

lemma MakeSendStream_small:
  assumes q: "queue_laws qo items" and size: "net_size_laws no" and buf: "length (rioSendBuffer item) = 16384"
    and "\<And>p. p \<in> set (unsent items item) \<Longrightarrow> length (packet_bytes no p) \<le> m" and "0 < m"
    and "length (stream_of no (unsent items item)) + 2 * m \<le> 16384"
  shows "\<exists>item'. MakeSendStream no qo item =
      Inr (of_nat (length (stream_of no (unsent items item))), item') \<and> unsent items item' = []"
proof (rule MakeSendStream_phases [OF q size buf], goal_cases)
  case (1 b)
  then show ?case using assms(4) [of b] assms(5,6) by (simp add: unsent_def)
next
  case (2 acc item1 first)
  let ?all = "stream_of no (unsent items item)"
  have "length acc + length (stream_of no (items (sendQueue item))) + 2 * m \<le> 16384"
    using assms(6) 2 by simp
  then obtain item' where "stream_loop no qo (length (items (sendQueue item1))) (int (length acc)) item1 =
      Inr (int (length (acc @ stream_of no (items (sendQueue item1)))), item')"
    using stream_loop_sends_small [OF q size refl 2(2), of m] assms(4,5) 2(1,6) by auto
  with 2 have ret: "MakeSendStream no qo item = Inr (of_nat (length ?all), item')"
    by simp
  have "unat (of_nat (length ?all) :: u32) = length ?all"
    using assms(6) by (simp add: unat_of_nat)
  with MakeSendStream_gathered [OF q size buf ret] assms(5,6) have "unsent items item' = []"
    by (auto simp: gathered_def unsent_def)
  with ret show ?case by blast
qed



lemma one_packet_stream:
  assumes q: "queue_laws qo items" and size: "net_size_laws no" and buf: "length (rioSendBuffer item) = 16384"
    and one: "reservedBuffer item = None" "items (sendQueue item) = [p]"
    and small: "length (packet_bytes no p) \<le> 5461"
  shows "\<exists>item'. MakeSendStream no qo item = Inr (of_nat (length (packet_bytes no p)), item') \<and>
    take (length (packet_bytes no p)) (rioSendBuffer item') = packet_bytes no p \<and> ioMode item' = ioMode item"
proof -
  have un: "unsent items item = [p]" using one by (simp add: unsent_def)
  obtain item' where run: "MakeSendStream no qo item = Inr (of_nat (length (packet_bytes no p)), item')"
    and none: "unsent items item' = []"
    using MakeSendStream_small [OF q size buf, of 5461] small by (auto simp: un)
  have len: "unat (of_nat (length (packet_bytes no p)) :: u32) = length (packet_bytes no p)"
    using small by (simp add: unat_of_nat)
  from MakeSendStream_gathered [OF q size buf run]
  have "gathered no items [] [p] (length (packet_bytes no p)) item'" "ioMode item' = ioMode item"
    by (simp_all add: un len)
  with none show ?thesis
    by (intro exI [of _ item']) (simp add: run gathered_def holds_def)
qed

section \<open>Properties\<close>

text \<open>
  C3: a call of MakeSendStream that returns loses no packet, duplicates none and keeps their
  order: the packets that were unsent (the reserved one, then the queue) are those it sent and
  then those that are unsent now, and the front of the send buffer is exactly the bytes of the
  packets sent. Either nothing is unsent and the returned length is that of these bytes, or the
  next packet is reserved and its size is added to the returned length.
\<close>

theorem MakeSendStream_keeps_packets:
  assumes "queue_laws qo items" and "net_size_laws no" and "length (rioSendBuffer item) = 16384"
    and "MakeSendStream no qo item = Inr (len, item')"
  shows "\<exists>sent. unsent items item = sent @ unsent items item' \<and>
    take (length (stream_of no sent)) (rioSendBuffer item') = stream_of no sent \<and>
    (unsent items item' = [] \<and> unat len = length (stream_of no sent) \<or>
     (\<exists>p. reservedBuffer item' = Some p \<and>
        unat len = length (stream_of no sent) + length (packet_bytes no p)))"
  using MakeSendStream_gathered [OF assms]
  by (auto simp: gathered_def holds_def unsent_def)

text \<open>
  C4: MakeSendStream never writes outside the registered buffer of 16384 bytes and never uses
  a packet it did not get from the queue, whatever the packets are.
\<close>

theorem MakeSendStream_in_bounds:
  assumes q: "queue_laws qo items" and size: "net_size_laws no" and buf: "length (rioSendBuffer item) = 16384"
  shows "MakeSendStream no qo item \<noteq> Inl UndefinedBehaviour"
proof (rule MakeSendStream_phases [OF q size buf], goal_cases)
  case (2 acc item1 first)
  with stream_loop_in_bounds [OF q size refl 2(2)] show ?case
    by (auto simp: obind_eq_Inl_iff)
qed simp

text \<open>
  C5: packets that leave room for twice the largest of them all go out in one call, and the
  returned length is exactly the number of their bytes.
\<close>

theorem MakeSendStream_small_all_sent:
  assumes q: "queue_laws qo items" and size: "net_size_laws no" and buf: "length (rioSendBuffer item) = 16384"
    and "\<And>p. p \<in> set (unsent items item) \<Longrightarrow> length (packet_bytes no p) \<le> m" and "0 < m"
    and "length (stream_of no (unsent items item)) + 2 * m \<le> 16384"
  shows "\<exists>item'. MakeSendStream no qo item =
      Inr (of_nat (length (stream_of no (unsent items item))), item') \<and> unsent items item' = []"
  using assms by (rule MakeSendStream_small)
text \<open>
  C6: a backlog of packets of one size n never fills the send buffer: as soon as it needs more
  than 16384 - 2 n bytes, the size that MakeSendStream passes to memcpy_s is too small by n and
  the invalid parameter handler ends the process. One packet of more than 5461 bytes (and at
  most 8192) is such a backlog.
\<close>

theorem MakeSendStream_backlog_aborts:
  assumes q: "queue_laws qo items" and size: "net_size_laws no" and buf: "length (rioSendBuffer item) = 16384"
    and none: "reservedBuffer item = None" and queue: "items (sendQueue item) \<noteq> []"
    and n: "\<And>p. p \<in> set (items (sendQueue item)) \<Longrightarrow> length (packet_bytes no p) = n"
    and "2 * n \<le> 16384" and "16384 < (length (items (sendQueue item)) + 2) * n"
  shows "MakeSendStream no qo item = Inl InvalidParameter"
proof (rule MakeSendStream_phases [OF q size buf], goal_cases)
  case (2 acc item1 first)
  with none have "acc = []" by simp
  with 2 stream_loop_uniform [OF q size refl 2(2), of n] assms(5-8) show ?case
    by simp
qed (simp add: none)

text \<open>
  When MakeSendStream reserves a packet, the length it returns, which SendPost hands to
  RIOSend, is at least the 16384 bytes of the whole registered buffer, while only the bytes of
  the packets sent, fewer than 16384, were copied to it.
\<close>

lemma MakeSendStream_reserve_overlong:
  assumes "queue_laws qo items" and "net_size_laws no" and "length (rioSendBuffer item) = 16384"
    and "MakeSendStream no qo item = Inr (len, item')" and "reservedBuffer item' = Some p"
  shows "16384 \<le> unat len \<and> unat len - length (packet_bytes no p) < 16384 \<and>
    (\<exists>sent. unsent items item = sent @ unsent items item' \<and>
       length (stream_of no sent) = unat len - length (packet_bytes no p))"
  using MakeSendStream_gathered [OF assms(1-4)] assms(5)
  by (auto simp: gathered_def holds_def)

section \<open>Witnesses\<close>

definition sized :: "nat \<Rightarrow> NetBuffer" where
  "sized n = \<lparr>m_pSerializeBuffer = replicate n 0, m_iRead = 0, m_iWrite = 0, m_iWriteLast = int n,
     m_bIsEncoded = True\<rparr>"

definition sending :: "NetBuffer list \<Rightarrow> NetBuffer list SendItem" where
  "sending ps = \<lparr>sendQueue = ps, rioSendBuffer = replicate 16384 0, reservedBuffer = None,
     ioMode = IO_SENDING\<rparr>"

lemma sized_bytes [simp]: "packet_bytes plain_net (sized n) = replicate n 0"
  by (simp add: packet_bytes_def plain_net_def sized_def)

lemma sending_simps [simp]:
  "sendQueue (sending ps) = ps" "length (rioSendBuffer (sending ps)) = 16384"
  "reservedBuffer (sending ps) = None" "unsent (\<lambda>q. q) (sending ps) = ps"
  by (simp_all add: sending_def unsent_def)

lemmas eval_stream = MakeSendStream_def take_reserved_def IsValidPacketSize_def memcpy_s_def
  mem_put_def plain_net_def list_queue_def sized_def sending_def MAX_SEND_BUFFER_SIZE_def Let_def

lemma stream_loop_two: "stream_loop no qo 2 t item = stream_loop no qo (Suc (Suc 0)) t item"
  by (simp only: numeral_2_eq_2)

lemma sending_two: "\<exists>item'. MakeSendStream plain_net list_queue (sending [sized 2, sized 3]) = Inr (5, item')"
  by (simp add: eval_stream stream_loop_two)

lemma sending_overfull:
  "\<exists>item'. MakeSendStream plain_net list_queue (sending [sized 100, sized 16300]) = Inr (16400, item') \<and>
    reservedBuffer item' = Some (sized 16300)"
  by (simp add: eval_stream stream_loop_two)

theorem MakeSendStream_keeps_packets_witness:
  "\<exists>item' sent. MakeSendStream plain_net list_queue (sending [sized 2, sized 3]) = Inr (5, item') \<and>
    [sized 2, sized 3] = sent @ unsent (\<lambda>q. q) item'"
proof -
  obtain item' where ret: "MakeSendStream plain_net list_queue (sending [sized 2, sized 3]) = Inr (5, item')"
    using sending_two by blast
  from MakeSendStream_keeps_packets [OF list_queue_laws plain_net_size_laws _ ret] ret
  show ?thesis by auto
qed

theorem MakeSendStream_in_bounds_witness:
  "MakeSendStream plain_net list_queue (sending [sized 9000, sized 9000]) \<noteq> Inl UndefinedBehaviour"
  by (rule MakeSendStream_in_bounds [OF list_queue_laws plain_net_size_laws]) simp

theorem MakeSendStream_small_all_sent_witness:
  "\<exists>item'. MakeSendStream plain_net list_queue (sending [sized 2, sized 3]) = Inr (5, item') \<and>
    unsent (\<lambda>q. q) item' = []"
proof -
  have "length (packet_bytes plain_net p) \<le> 3" if "p \<in> set (unsent (\<lambda>q. q) (sending [sized 2, sized 3]))" for p
    using that by auto
  from MakeSendStream_small_all_sent [OF list_queue_laws plain_net_size_laws,
      where item = "sending [sized 2, sized 3]" and m = 3, OF _ this] show ?thesis
    by simp
qed

theorem MakeSendStream_backlog_aborts_witness:
  "MakeSendStream plain_net list_queue (sending [sized 6000]) = Inl InvalidParameter"
  by (rule MakeSendStream_backlog_aborts [OF list_queue_laws plain_net_size_laws, where n = 6000]) simp_all

lemma MakeSendStream_reserve_overlong_witness:
  "\<exists>item'. MakeSendStream plain_net list_queue (sending [sized 100, sized 16300]) = Inr (16400, item') \<and>
    16384 \<le> unat (16400 :: u32)"
proof -
  obtain item' where "MakeSendStream plain_net list_queue (sending [sized 100, sized 16300]) = Inr (16400, item')"
    and "reservedBuffer item' = Some (sized 16300)"
    using sending_overfull by blast
  with MakeSendStream_reserve_overlong [OF list_queue_laws plain_net_size_laws _ this] show ?thesis
    by auto
qed

end
