(* ===== verification/SendGate.thy ===== *)
theory SendGate
  imports SendStream
begin

text \<open>
  The protocol by which several threads share the send side of one session: SendPost lets a
  thread pass only if it switches the session's \<open>ioMode\<close> from IO_NONE_SENDING to IO_SENDING with
  InterlockedCompareExchange, and looks at the queue again after it has switched it back. The
  threads are interleaved at each access to shared state. The locale \<open>send_gate\<close> is what the
  protocol needs of the structure the threads share; the send item of RIOTestServer provides it.
\<close>

section \<open>Threads in SendPost\<close>

text \<open>
  The operations of the structure that the threads share: the mode, \<open>Enqueue\<close>, the two tests
  for work (before sending, and again after the reset of the mode) and the gathering of what is
  sent. \<open>g_unsent\<close> is what the structure still holds.
\<close>

record ('i, 'm) gate_ops =
  g_sending :: "'i \<Rightarrow> bool"
  g_set_sending :: "bool \<Rightarrow> 'i \<Rightarrow> 'i"
  g_enqueue :: "'m \<Rightarrow> 'i \<Rightarrow> 'i"
  g_has_work :: "'i \<Rightarrow> bool"
  g_queue_nonempty :: "'i \<Rightarrow> bool"
  g_gather :: "'i \<Rightarrow> 'i outcome"
  g_unsent :: "'i \<Rightarrow> 'm list"

text \<open>Where a thread is: before which access of SendPost, or not in it.\<close>

datatype gate_pc = NotInside | AtExchange | AtCheck | AtSend | AtReset | AtRecheck

text \<open>
  \<open>in_flight\<close>: a send is outstanding in the kernel; \<open>refused\<close>: the kernel refused a send;
  \<open>dropped\<close>: a send has completed and GetIOCompletedContext has given up its context;
  \<open>closing\<close>: the session's \<open>sendDisconnect\<close>. \<open>posted\<close> and \<open>sent\<close> record what was enqueued and
  what was handed to the kernel.
\<close>

record ('i, 'm) gate =
  item :: 'i
  in_flight :: bool
  refused :: bool
  dropped :: bool
  closing :: bool
  pcs :: "nat \<Rightarrow> gate_pc"
  posted :: "'m list"
  sent :: "'m list"

definition gate_init :: "'i \<Rightarrow> ('i, 'm) gate" where
  "gate_init i = \<lparr>item = i, in_flight = False, refused = False, dropped = False, closing = False,
     pcs = (\<lambda>_. NotInside), posted = [], sent = []\<rparr>"

abbreviation goto :: "nat \<Rightarrow> gate_pc \<Rightarrow> ('i, 'm) gate \<Rightarrow> ('i, 'm) gate" where
  "goto t pc s \<equiv> s\<lparr>pcs := (pcs s)(t := pc)\<rparr>"

text \<open>
  One rule per access. A thread enters by enqueueing a packet (SendPacket) or by processing
  the completion of the outstanding send; a completion on a closing session disconnects
  instead. A completion with 0 bytes, for a session whose I/O is cancelled or for one that has
  left the session map ends in GetIOCompletedContext (\<open>complete_dropped\<close>): its context goes back
  to the pool and SendIOCompleted, which would reset \<open>ioMode\<close>, is not called. After a send that
  the kernel accepted the thread goes round the loop again.
\<close>

inductive gate_step :: "('i, 'm) gate_ops \<Rightarrow> ('i, 'm) gate \<Rightarrow> ('i, 'm) gate \<Rightarrow> bool" for ops where
  enqueue: "pcs s t = NotInside \<Longrightarrow>
    gate_step ops s (goto t AtExchange (s\<lparr>item := g_enqueue ops m (item s), posted := posted s @ [m]\<rparr>))"
| set_closing: "gate_step ops s (s\<lparr>closing := True\<rparr>)"
| complete: "pcs s t = NotInside \<Longrightarrow> in_flight s \<Longrightarrow> \<not> closing s \<Longrightarrow>
    gate_step ops s (goto t AtExchange (s\<lparr>item := g_set_sending ops False (item s), in_flight := False\<rparr>))"
| complete_closing: "in_flight s \<Longrightarrow> closing s \<Longrightarrow>
    gate_step ops s (s\<lparr>item := g_set_sending ops False (item s), in_flight := False\<rparr>)"
| complete_dropped: "in_flight s \<Longrightarrow> gate_step ops s (s\<lparr>in_flight := False, dropped := True\<rparr>)"
| exchange_fails: "pcs s t = AtExchange \<Longrightarrow> g_sending ops (item s) \<Longrightarrow>
    gate_step ops s (goto t NotInside s)"
| exchange_wins: "pcs s t = AtExchange \<Longrightarrow> \<not> g_sending ops (item s) \<Longrightarrow>
    gate_step ops s (goto t AtCheck (s\<lparr>item := g_set_sending ops True (item s)\<rparr>))"
| check_work: "pcs s t = AtCheck \<Longrightarrow> g_has_work ops (item s) \<Longrightarrow> gate_step ops s (goto t AtSend s)"
| check_none: "pcs s t = AtCheck \<Longrightarrow> \<not> g_has_work ops (item s) \<Longrightarrow> gate_step ops s (goto t AtReset s)"
| reset: "pcs s t = AtReset \<Longrightarrow>
    gate_step ops s (goto t AtRecheck (s\<lparr>item := g_set_sending ops False (item s)\<rparr>))"
| recheck_more: "pcs s t = AtRecheck \<Longrightarrow> g_queue_nonempty ops (item s) \<Longrightarrow>
    gate_step ops s (goto t AtExchange s)"
| recheck_none: "pcs s t = AtRecheck \<Longrightarrow> \<not> g_queue_nonempty ops (item s) \<Longrightarrow>
    gate_step ops s (goto t NotInside s)"
| send_accepted: "pcs s t = AtSend \<Longrightarrow> g_gather ops (item s) = Inr i' \<Longrightarrow>
    g_unsent ops (item s) = out @ g_unsent ops i' \<Longrightarrow>
    gate_step ops s (goto t AtExchange (s\<lparr>item := i', in_flight := True, sent := sent s @ out\<rparr>))"
| send_refused: "pcs s t = AtSend \<Longrightarrow> g_gather ops (item s) = Inr i' \<Longrightarrow>
    gate_step ops s (goto t NotInside (s\<lparr>item := i', refused := True\<rparr>))"

inductive gate_reach :: "('i, 'm) gate_ops \<Rightarrow> ('i, 'm) gate \<Rightarrow> ('i, 'm) gate \<Rightarrow> bool" for ops s where
  reach_refl: "gate_reach ops s s"
| reach_step: "gate_reach ops s s' \<Longrightarrow> gate_step ops s' s'' \<Longrightarrow> gate_reach ops s s''"

text \<open>The thread between winning the exchange and its send or reset owns the send side.\<close>

fun owning :: "gate_pc \<Rightarrow> bool" where
  "owning AtCheck = True"
| "owning AtSend = True"
| "owning AtReset = True"
| "owning _ = False"

definition some_at :: "gate_pc \<Rightarrow> (nat \<Rightarrow> gate_pc) \<Rightarrow> bool" where
  "some_at pc f \<longleftrightarrow> (\<exists>t. f t = pc)"

lemma some_atI: "f t = pc \<Longrightarrow> some_at pc f"
  by (auto simp: some_at_def)

lemma some_at_upd: "f t \<noteq> pc \<Longrightarrow> some_at pc (f(t := pc')) \<longleftrightarrow> pc' = pc \<or> some_at pc f"
  by (auto simp: some_at_def)

lemma some_at_upd_same: "some_at pc (f(t := pc))"
  by (auto simp: some_at_def)

definition owners :: "(nat \<Rightarrow> gate_pc) \<Rightarrow> nat set" where
  "owners f = {t. owning (f t)}"

lemma owners_upd [simp]:
  "owners (f(t := pc)) = (if owning pc then insert t (owners f) else owners f - {t})"
  by (auto simp: owners_def)

lemma in_owners: "owning (f t) \<Longrightarrow> t \<in> owners f"
  by (simp add: owners_def)

lemma not_in_owners: "\<not> owning (f t) \<Longrightarrow> t \<notin> owners f"
  by (simp add: owners_def)

section \<open>The contract\<close>

locale send_gate =
  fixes ops :: "('i, 'm) gate_ops" and ok :: "'i \<Rightarrow> bool"
  assumes sending_set: "g_sending ops (g_set_sending ops b i) = b"
    and sending_enqueue: "g_sending ops (g_enqueue ops m i) = g_sending ops i"
    and sending_gather: "ok i \<Longrightarrow> g_gather ops i = Inr i' \<Longrightarrow> g_sending ops i' = g_sending ops i"
    and ok_set: "ok i \<Longrightarrow> ok (g_set_sending ops b i)"
    and ok_enqueue: "ok i \<Longrightarrow> ok (g_enqueue ops m i)"
    and ok_gather: "ok i \<Longrightarrow> g_gather ops i = Inr i' \<Longrightarrow> ok i'"
    and unsent_set: "g_unsent ops (g_set_sending ops b i) = g_unsent ops i"
    and unsent_enqueue: "ok i \<Longrightarrow> g_unsent ops (g_enqueue ops m i) = g_unsent ops i @ [m]"
    and unsent_gather: "ok i \<Longrightarrow> g_gather ops i = Inr i' \<Longrightarrow> \<exists>out. g_unsent ops i = out @ g_unsent ops i'"
    and has_work_iff: "ok i \<Longrightarrow> g_has_work ops i \<longleftrightarrow> g_unsent ops i \<noteq> []"
    and nonempty_set: "g_queue_nonempty ops (g_set_sending ops b i) = g_queue_nonempty ops i"
    and nonempty_enqueue: "ok i \<Longrightarrow> g_queue_nonempty ops (g_enqueue ops m i)"
begin

text \<open>
  The mode says that there is an owner, an outstanding send, a refused one or one whose
  completion was dropped, and there is never more than one of these.
\<close>

definition exclusive :: "('i, 'm) gate \<Rightarrow> bool" where
  "exclusive s \<longleftrightarrow>
     (if g_sending ops (item s)
      then (\<exists>t. owners (pcs s) = {t}) \<and> \<not> in_flight s \<and> \<not> refused s \<and> \<not> dropped s \<or>
        owners (pcs s) = {} \<and> (in_flight s \<and> \<not> refused s \<and> \<not> dropped s \<or>
          \<not> in_flight s \<and> refused s \<noteq> dropped s)
      else owners (pcs s) = {} \<and> \<not> in_flight s \<and> \<not> refused s \<and> \<not> dropped s)"

text \<open>
  Whoever is about to reset the mode has seen that there was no work, so work that arrived
  since is in the queue; and if nobody is sending, some thread will look at the work.
\<close>

definition wakeful :: "('i, 'm) gate \<Rightarrow> bool" where
  "wakeful s \<longleftrightarrow>
     (some_at AtReset (pcs s) \<longrightarrow> g_unsent ops (item s) \<noteq> [] \<longrightarrow> g_queue_nonempty ops (item s)) \<and>
     (\<not> closing s \<longrightarrow> \<not> g_sending ops (item s) \<longrightarrow> g_unsent ops (item s) \<noteq> [] \<longrightarrow>
        some_at AtExchange (pcs s) \<or> some_at AtRecheck (pcs s) \<and> g_queue_nonempty ops (item s))"

definition conserving :: "('i, 'm) gate \<Rightarrow> bool" where
  "conserving s \<longleftrightarrow> (\<not> refused s \<longrightarrow> posted s = sent s @ g_unsent ops (item s))"

lemmas contract = sending_set sending_enqueue unsent_set nonempty_set ok_set ok_enqueue

lemma step_ok: "gate_step ops s s' \<Longrightarrow> ok (item s) \<Longrightarrow> ok (item s')"
  by (induction rule: gate_step.induct) (auto simp: contract intro: ok_gather)

lemma at_exclusive:
  assumes "exclusive s" and "owning (pcs s t)"
  shows "g_sending ops (item s)" and "\<not> in_flight s" and "\<not> refused s" and "\<not> dropped s" and "owners (pcs s) = {t}"
  using assms(1) in_owners [of "pcs s" t, OF assms(2)] unfolding exclusive_def by (auto split: if_splits)

lemma step_exclusive: "gate_step ops s s' \<Longrightarrow> ok (item s) \<Longrightarrow> exclusive s \<Longrightarrow> exclusive s'"
proof (induction rule: gate_step.induct)
  case (enqueue s t m)
  then have "t \<notin> owners (pcs s)" by (simp add: not_in_owners)
  with enqueue show ?case by (auto simp: exclusive_def sending_enqueue split: if_splits)
next
  case (complete s t)
  then have "t \<notin> owners (pcs s)" by (simp add: not_in_owners)
  with complete show ?case by (auto simp: exclusive_def sending_set split: if_splits)
next
  case (exchange_fails s t)
  then have "t \<notin> owners (pcs s)" by (simp add: not_in_owners)
  with exchange_fails show ?case by (auto simp: exclusive_def split: if_splits)
next
  case (recheck_more s t)
  then have "t \<notin> owners (pcs s)" by (simp add: not_in_owners)
  with recheck_more show ?case by (auto simp: exclusive_def split: if_splits)
next
  case (recheck_none s t)
  then have "t \<notin> owners (pcs s)" by (simp add: not_in_owners)
  with recheck_none show ?case by (auto simp: exclusive_def split: if_splits)
next
  case (check_work s t)
  then have "owning (pcs s t)" by simp
  note at = at_exclusive [OF \<open>exclusive s\<close> this]
  then show ?case by (simp add: exclusive_def)
next
  case (check_none s t)
  then have "owning (pcs s t)" by simp
  note at = at_exclusive [OF \<open>exclusive s\<close> this]
  then show ?case by (simp add: exclusive_def)
next
  case (reset s t)
  then have "owning (pcs s t)" by simp
  note at = at_exclusive [OF \<open>exclusive s\<close> this]
  then show ?case by (simp add: exclusive_def sending_set)
next
  case (send_accepted s t i' out)
  then have "owning (pcs s t)" by simp
  note at = at_exclusive [OF \<open>exclusive s\<close> this]
  then show ?case using sending_gather [OF send_accepted(4,2)] by (simp add: exclusive_def)
next
  case (send_refused s t i')
  then have "owning (pcs s t)" by simp
  note at = at_exclusive [OF \<open>exclusive s\<close> this]
  then show ?case using sending_gather [OF send_refused(3,2)] by (simp add: exclusive_def)
qed (auto simp: exclusive_def contract split: if_splits)

text \<open>In a thread that gathers, nobody else is about to reset the mode.\<close>

lemma gather_wakeful:
  assumes "wakeful s" and "ok (item s)" and "exclusive s" and "owning (pcs s t)" and "\<not> owning pc"
    and "g_gather ops (item s) = Inr i'" and "item s' = i'" and "pcs s' = (pcs s)(t := pc)"
  shows "wakeful s'"
proof -
  have "owners (pcs s) = {t}" and "g_sending ops (item s)"
    using at_exclusive [OF assms(3,4)] by blast+
  then have only: "\<not> owning (pcs s u)" if "u \<noteq> t" for u
    using that by (auto simp: owners_def)
  have "g_sending ops i'"
    using sending_gather [OF assms(2,6)] \<open>g_sending ops (item s)\<close> by simp
  moreover have "pcs s' u \<noteq> AtReset" for u
    using only [of u] assms(5,8) by (cases "u = t") auto
  ultimately show ?thesis
    using assms(7) by (simp add: wakeful_def some_at_def)
qed

lemma step_wakeful:
  "gate_step ops s s' \<Longrightarrow> ok (item s) \<Longrightarrow> exclusive s \<Longrightarrow> wakeful s \<Longrightarrow> wakeful s'"
proof (induction rule: gate_step.induct)
  case (enqueue s t m)
  then show ?case by (simp add: wakeful_def nonempty_enqueue some_at_upd_same)
next
  case (reset s t)
  then have "some_at AtReset (pcs s)" by (simp add: some_atI)
  with reset show ?case by (simp add: wakeful_def unsent_set nonempty_set some_at_upd_same)
next
  case (send_accepted s t i' out)
  show ?case by (rule gather_wakeful [of s t AtExchange i']) (use send_accepted in simp_all)
next
  case (send_refused s t i')
  show ?case by (rule gather_wakeful [of s t NotInside i']) (use send_refused in simp_all)
qed (simp_all add: wakeful_def contract has_work_iff some_at_upd some_at_upd_same)

lemma step_conserving:
  "gate_step ops s s' \<Longrightarrow> ok (item s) \<Longrightarrow> conserving s \<Longrightarrow> conserving s'"
  by (induction rule: gate_step.induct) (auto simp: conserving_def contract unsent_enqueue)

definition idle :: "'i \<Rightarrow> bool" where
  "idle i \<longleftrightarrow> ok i \<and> \<not> g_sending ops i \<and> g_unsent ops i = []"

lemma reach_invariants:
  "gate_reach ops (gate_init i) s \<Longrightarrow> idle i \<Longrightarrow> ok (item s) \<and> exclusive s \<and> wakeful s \<and> conserving s"
proof (induction rule: gate_reach.induct)
  case reach_refl
  then show ?case
    by (simp add: idle_def gate_init_def exclusive_def wakeful_def conserving_def owners_def some_at_def)
next
  case (reach_step s s')
  then show ?case using step_ok step_exclusive step_wakeful step_conserving by blast
qed

text \<open>At most one thread works on the send side at a time, and none while a send is outstanding.\<close>

lemma reach_mutual_exclusion:
  assumes "gate_reach ops (gate_init i) s" and "idle i" and "owning (pcs s t)"
  shows "\<not> in_flight s" and "owning (pcs s u) \<Longrightarrow> u = t"
  using at_exclusive [of s t] reach_invariants [OF assms(1,2)] assms(3)
  by (auto dest: in_owners)

text \<open>Once everything has come to rest, all that was posted has been sent, in order.\<close>

lemma reach_quiescent:
  assumes "gate_reach ops (gate_init i) s" and "idle i" and "\<And>t. pcs s t = NotInside"
    and "\<not> in_flight s" and "\<not> refused s" and "\<not> dropped s" and "\<not> closing s"
  shows "sent s = posted s" and "g_unsent ops (item s) = []"
proof -
  have inv: "exclusive s" "wakeful s" "conserving s"
    using reach_invariants [OF assms(1,2)] by blast+
  have "\<not> g_sending ops (item s)"
    using inv(1) assms(3-6) by (auto simp: exclusive_def owners_def split: if_splits)
  then show "g_unsent ops (item s) = []"
    using inv(2) assms(3,7) by (auto simp: wakeful_def some_at_def)
  then show "sent s = posted s"
    using inv(3) assms(5) by (simp add: conserving_def)
qed

text \<open>
  After a refused send or a dropped completion nobody sends any more: what is enqueued from then
  on is added to what the structure holds back.
\<close>

definition stuck :: "('i, 'm) gate \<Rightarrow> bool" where
  "stuck s \<longleftrightarrow> g_sending ops (item s) \<and> owners (pcs s) = {} \<and> \<not> in_flight s"

lemma stuck_pc:
  assumes "stuck s"
  shows "\<forall>t. pcs s t \<noteq> AtCheck \<and> pcs s t \<noteq> AtSend \<and> pcs s t \<noteq> AtReset"
proof
  fix t
  have "\<not> owning (pcs s t)" using assms in_owners [of "pcs s" t] by (auto simp: stuck_def)
  then show "pcs s t \<noteq> AtCheck \<and> pcs s t \<noteq> AtSend \<and> pcs s t \<noteq> AtReset" by auto
qed

lemma step_stuck:
  "gate_step ops s s' \<Longrightarrow> stuck s \<Longrightarrow> ok (item s) \<Longrightarrow> stuck s' \<and> sent s' = sent s \<and>
    (\<exists>new. posted s' = posted s @ new \<and> g_unsent ops (item s') = g_unsent ops (item s) @ new)"
  by (induction rule: gate_step.induct) (frule stuck_pc, simp add: stuck_def contract unsent_enqueue)+

lemma reach_stuck:
  "gate_reach ops s s' \<Longrightarrow> stuck s \<Longrightarrow> ok (item s) \<Longrightarrow> ok (item s') \<and> stuck s' \<and> sent s' = sent s \<and>
    (\<exists>new. posted s' = posted s @ new \<and> g_unsent ops (item s') = g_unsent ops (item s) @ new)"
proof (induction rule: gate_reach.induct)
  case (reach_step s1 s2)
  then obtain new where s1: "ok (item s1)" "stuck s1" "sent s1 = sent s" "posted s1 = posted s @ new"
    "g_unsent ops (item s1) = g_unsent ops (item s) @ new" by blast
  from step_stuck [OF reach_step.hyps(2) s1(2,1)] obtain new' where "stuck s2" "sent s2 = sent s1"
    "posted s2 = posted s1 @ new'" "g_unsent ops (item s2) = g_unsent ops (item s1) @ new'" by blast
  with s1 step_ok [OF reach_step.hyps(2) s1(1)] show ?case by simp
qed simp

lemma stopped_stuck:
  assumes "gate_reach ops (gate_init i) s" and "idle i" and "refused s \<or> dropped s"
  shows "stuck s"
proof -
  have "exclusive s" using reach_invariants [OF assms(1,2)] by blast
  with assms(3) show ?thesis by (auto simp: exclusive_def stuck_def split: if_splits)
qed

end

section \<open>The gate of RIOTestServer\<close>

definition rio_gate_ops ::
  "net_ops \<Rightarrow> (NetBuffer, 'q) queue_ops \<Rightarrow> ('q \<Rightarrow> NetBuffer list) \<Rightarrow> ('q SendItem, NetBuffer) gate_ops" where
  "rio_gate_ops no qo items = \<lparr>
     g_sending = (\<lambda>i. ioMode i = IO_SENDING),
     g_set_sending = (\<lambda>b i. i\<lparr>ioMode := if b then IO_SENDING else IO_NONE_SENDING\<rparr>),
     g_enqueue = (\<lambda>p i. i\<lparr>sendQueue := q_Enqueue qo p (sendQueue i)\<rparr>),
     g_has_work = (\<lambda>i. \<not> (q_GetRestSize qo (sendQueue i) = 0 \<and> reservedBuffer i = None)),
     g_queue_nonempty = (\<lambda>i. q_GetRestSize qo (sendQueue i) > 0),
     g_gather = (\<lambda>i. obind (MakeSendStream no qo i) (\<lambda>(len, i'). Inr i')),
     g_unsent = unsent items\<rparr>"

definition rio_item_ok ::
  "net_ops \<Rightarrow> (NetBuffer, 'q) queue_ops \<Rightarrow> ('q \<Rightarrow> NetBuffer list) \<Rightarrow> 'q SendItem \<Rightarrow> bool" where
  "rio_item_ok no qo items i \<longleftrightarrow> net_size_laws no \<and> queue_laws qo items \<and> length (rioSendBuffer i) = 16384"

lemma rio_gather:
  assumes "rio_item_ok no qo items i" and "g_gather (rio_gate_ops no qo items) i = Inr i'"
  shows "ioMode i' = ioMode i" and "rio_item_ok no qo items i'" and "\<exists>out. unsent items i = out @ unsent items i'"
proof -
  obtain len where "MakeSendStream no qo i = Inr (len, i')"
    using assms(2) by (auto simp: rio_gate_ops_def outcome_simps)
  from MakeSendStream_gathered [OF _ _ _ this] assms(1)
  show "ioMode i' = ioMode i" "rio_item_ok no qo items i'" "\<exists>out. unsent items i = out @ unsent items i'"
    by (auto simp: rio_item_ok_def gathered_def holds_def)
qed

interpretation rio_gate: send_gate "rio_gate_ops no qo items" "rio_item_ok no qo items"
  for no and qo :: "(NetBuffer, 'q) queue_ops" and items
proof unfold_locales
  fix i :: "'q SendItem"
  assume ok: "rio_item_ok no qo items i"
  then have len: "q_GetRestSize qo (sendQueue i) = int (length (items (sendQueue i)))"
    by (simp add: rio_item_ok_def queue_laws_GetRestSize)
  then show "g_has_work (rio_gate_ops no qo items) i \<longleftrightarrow> g_unsent (rio_gate_ops no qo items) i \<noteq> []"
    by (auto simp: rio_gate_ops_def unsent_def split: option.splits)
  fix m :: NetBuffer
  show "g_unsent (rio_gate_ops no qo items) (g_enqueue (rio_gate_ops no qo items) m i) =
      g_unsent (rio_gate_ops no qo items) i @ [m]"
    using ok by (simp add: rio_gate_ops_def rio_item_ok_def unsent_def queue_laws_Enqueue)
  show "g_queue_nonempty (rio_gate_ops no qo items) (g_enqueue (rio_gate_ops no qo items) m i)"
    using ok by (auto simp: rio_gate_ops_def rio_item_ok_def queue_laws_Enqueue queue_laws_GetRestSize)
  fix i' :: "'q SendItem"
  assume "g_gather (rio_gate_ops no qo items) i = Inr i'"
  note g = rio_gather [OF ok this]
  then show "g_sending (rio_gate_ops no qo items) i' = g_sending (rio_gate_ops no qo items) i"
    and "\<exists>out. g_unsent (rio_gate_ops no qo items) i = out @ g_unsent (rio_gate_ops no qo items) i'"
    and "rio_item_ok no qo items i'"
    by (simp_all add: rio_gate_ops_def)
qed (simp_all add: rio_gate_ops_def rio_item_ok_def unsent_def)


lemma rio_idle:
  assumes "queue_laws qo items" and "net_size_laws no" and "length (rioSendBuffer i) = 16384"
    and "ioMode i = IO_NONE_SENDING" and "unsent items i = []"
  shows "rio_gate.idle no qo items i"
  unfolding rio_gate.idle_def using assms by (simp add: rio_item_ok_def rio_gate_ops_def)

section \<open>Properties\<close>

text \<open>
  C13: However many threads call SendPacket on a session and process its completions, at most
  one of them is between the exchange that sets \<open>ioMode\<close> and its send or reset, and none is
  there while a send is outstanding in the kernel: the registered send buffer is never
  overwritten by a second thread or under a pending RIOSend.
\<close>

theorem send_side_exclusive:
  assumes "queue_laws qo items" and "net_size_laws no" and "length (rioSendBuffer i) = 16384"
    and "ioMode i = IO_NONE_SENDING" and "unsent items i = []"
    and "gate_reach (rio_gate_ops no qo items) (gate_init i) s" and "owning (pcs s t)"
  shows "\<not> in_flight s \<and> (\<forall>u. owning (pcs s u) \<longrightarrow> u = t)"
  using rio_gate.reach_mutual_exclusion [OF assms(6) rio_idle [OF assms(1-5)] assms(7)] by blast

text \<open>
  C14: No wakeup is lost. When every thread has left SendPost, no send is outstanding, none was
  refused, no completion of a send was dropped by GetIOCompletedContext (0 bytes, cancelled I/O, a
  session that has left the map) and the session is not closing, then every packet that was
  enqueued has been handed to the kernel, in the order in which the packets were enqueued, and the
  session holds none back: the second look at the queue after the reset of \<open>ioMode\<close> is enough.
\<close>

theorem send_side_quiescent:
  assumes "queue_laws qo items" and "net_size_laws no" and "length (rioSendBuffer i) = 16384"
    and "ioMode i = IO_NONE_SENDING" and "unsent items i = []"
    and "gate_reach (rio_gate_ops no qo items) (gate_init i) s"
    and "\<And>t. pcs s t = NotInside" and "\<not> in_flight s" and "\<not> refused s" and "\<not> dropped s"
    and "\<not> closing s"
  shows "sent s = posted s \<and> unsent items (item s) = []"
  using rio_gate.reach_quiescent [OF assms(6) rio_idle [OF assms(1-5)] assms(7-11)]
  by (simp add: rio_gate_ops_def)

text \<open>
  C15: A refused RIOSend stops the session's send side for good, and so does a completion of a
  send that GetIOCompletedContext drops (0 bytes, cancelled I/O, a session that has left the map):
  neither resets \<open>ioMode\<close>. From then on no thread passes the exchange, no send is outstanding and
  no packet is ever handed to the kernel; every packet that is posted stays in the queue, behind
  what the session held back before.
\<close>

theorem refused_send_is_final:
  assumes "queue_laws qo items" and "net_size_laws no" and "length (rioSendBuffer i) = 16384"
    and "ioMode i = IO_NONE_SENDING" and "unsent items i = []"
    and "gate_reach (rio_gate_ops no qo items) (gate_init i) s" and "refused s \<or> dropped s"
    and "gate_reach (rio_gate_ops no qo items) s s'"
  shows "sent s' = sent s \<and> ioMode (item s') = IO_SENDING \<and> \<not> in_flight s' \<and>
    (\<exists>new. posted s' = posted s @ new \<and> unsent items (item s') = unsent items (item s) @ new)"
  using rio_gate.reach_stuck [OF assms(8) rio_gate.stopped_stuck [OF assms(6) rio_idle [OF assms(1-5)] assms(7)]
      conjunct1 [OF rio_gate.reach_invariants [OF assms(6) rio_idle [OF assms(1-5)]]]]
  by (simp add: rio_gate.stuck_def) (simp add: rio_gate_ops_def)

text \<open>
  C16: SendPacketAndDisconnect can lose its packet. If it is called while an earlier send of the
  session is outstanding, then the completion of that send disconnects the session with the
  packet still in the queue, and nobody is left to send it.
\<close>

theorem SendPacketAndDisconnect_drops:
  assumes "queue_laws qo items" and "net_size_laws no" and "rio_item_ok no qo items (item s)"
    and "in_flight s" and "ioMode (item s) = IO_SENDING" and "\<And>t. pcs s t = NotInside"
  shows "\<exists>s'. gate_reach (rio_gate_ops no qo items) s s' \<and> closing s' \<and> \<not> in_flight s' \<and>
    (\<forall>t. pcs s' t = NotInside) \<and> sent s' = sent s \<and>
    unsent items (item s') = unsent items (item s) @ [m]"
proof -
  let ?ops = "rio_gate_ops no qo items"
  let ?i = "g_enqueue ?ops m (item s)"
  let ?s1 = "s\<lparr>closing := True\<rparr>"
  let ?s2 = "goto 0 AtExchange (?s1\<lparr>item := ?i, posted := posted s @ [m]\<rparr>)"
  let ?s3 = "goto 0 NotInside ?s2"
  let ?s4 = "?s3\<lparr>item := g_set_sending ?ops False ?i, in_flight := False\<rparr>"
  have "gate_step ?ops s ?s1" by (rule gate_step.set_closing)
  moreover have "gate_step ?ops ?s1 ?s2"
    using gate_step.enqueue [of ?s1 0 ?ops m] assms(6) by simp
  moreover have "gate_step ?ops ?s2 ?s3"
    using gate_step.exchange_fails [of ?s2 0 ?ops] assms(5) by (simp add: rio_gate_ops_def)
  moreover have "gate_step ?ops ?s3 ?s4"
    using gate_step.complete_closing [of ?s3 ?ops] assms(4) by simp
  ultimately have "gate_reach ?ops s ?s4"
    by (meson gate_reach.intros)
  moreover have "unsent items (item ?s4) = unsent items (item s) @ [m]"
    using assms(1) by (simp add: rio_gate_ops_def unsent_def queue_laws_Enqueue)
  ultimately show ?thesis
    using assms(6) by (intro exI [of _ ?s4]) simp
qed

section \<open>Witnesses\<close>

text \<open>Thread 0 sends one packet of two bytes on an idle session.\<close>

abbreviation one_ops :: "(NetBuffer list SendItem, NetBuffer) gate_ops" where
  "one_ops \<equiv> rio_gate_ops plain_net list_queue (\<lambda>q. q)"

definition resting :: "NetBuffer list SendItem" where
  "resting = (sending [])\<lparr>ioMode := IO_NONE_SENDING\<rparr>"

lemma resting_simps:
  "length (rioSendBuffer resting) = 16384" "ioMode resting = IO_NONE_SENDING" "unsent (\<lambda>q. q) resting = []"
  by (simp_all add: resting_def sending_def unsent_def)

definition sender :: "NetBuffer list SendItem \<Rightarrow> gate_pc \<Rightarrow> (NetBuffer list SendItem, NetBuffer) gate" where
  "sender i pc = goto 0 pc ((gate_init i)\<lparr>posted := [sized 2]\<rparr>)"

lemma sender_fresh: "gate_reach one_ops (gate_init resting) (sender (sending [sized 2]) AtSend)"
proof -
  let ?i = "resting\<lparr>sendQueue := [sized 2]\<rparr>"
  have "gate_step one_ops (gate_init resting) (sender ?i AtExchange)"
    using gate_step.enqueue [of "gate_init resting" 0 one_ops "sized 2"]
    by (simp add: gate_init_def sender_def rio_gate_ops_def list_queue_def resting_def sending_def)
  moreover have "gate_step one_ops (sender ?i AtExchange) (sender (sending [sized 2]) AtCheck)"
    using gate_step.exchange_wins [of "sender ?i AtExchange" 0 one_ops]
    by (simp add: gate_init_def sender_def rio_gate_ops_def resting_def sending_def)
  moreover have "gate_step one_ops (sender (sending [sized 2]) AtCheck) (sender (sending [sized 2]) AtSend)"
    using gate_step.check_work [of "sender (sending [sized 2]) AtCheck" 0 one_ops]
    by (simp add: gate_init_def sender_def rio_gate_ops_def list_queue_def sending_def)
  ultimately show ?thesis by (meson gate_reach.intros)
qed

lemma sender_gathers:
  obtains i' where "g_gather one_ops (sending [sized 2]) = Inr i'" and "unsent (\<lambda>q. q) i' = []"
    and "sendQueue i' = []" and "reservedBuffer i' = None"
    and "ioMode i' = IO_SENDING" and "rio_item_ok plain_net list_queue (\<lambda>q. q) i'"
proof -
  have "\<exists>i'. MakeSendStream plain_net list_queue (sending [sized 2]) = Inr (2, i') \<and> sendQueue i' = [] \<and>
      reservedBuffer i' = None \<and> ioMode i' = IO_SENDING"
    by (simp add: eval_stream)
  then obtain i' where i': "MakeSendStream plain_net list_queue (sending [sized 2]) = Inr (2, i')"
    "sendQueue i' = []" "reservedBuffer i' = None" "ioMode i' = IO_SENDING" by blast
  have g: "g_gather one_ops (sending [sized 2]) = Inr i'"
    by (simp add: rio_gate_ops_def i')
  have "rio_item_ok plain_net list_queue (\<lambda>q. q) (sending [sized 2])"
    by (simp add: rio_item_ok_def list_queue_laws plain_net_size_laws)
  then show ?thesis
    using that [OF g _ i'(2-4) rio_gather(2) [OF _ g]] i' by (simp add: unsent_def)
qed

lemma sender_in_flight:
  obtains i' where "gate_reach one_ops (gate_init resting) ((sender i' AtExchange)\<lparr>in_flight := True, sent := [sized 2]\<rparr>)"
    and "sendQueue i' = []" and "reservedBuffer i' = None"
    and "ioMode i' = IO_SENDING" and "rio_item_ok plain_net list_queue (\<lambda>q. q) i'"
proof -
  obtain i' where i': "g_gather one_ops (sending [sized 2]) = Inr i'" "unsent (\<lambda>q. q) i' = []"
    "sendQueue i' = []" "reservedBuffer i' = None"
    "ioMode i' = IO_SENDING" "rio_item_ok plain_net list_queue (\<lambda>q. q) i'"
    using sender_gathers by blast
  have "gate_step one_ops (sender (sending [sized 2]) AtSend)
      ((sender i' AtExchange)\<lparr>in_flight := True, sent := [sized 2]\<rparr>)"
    using gate_step.send_accepted [of "sender (sending [sized 2]) AtSend" 0 one_ops i' "[sized 2]"] i'
    by (simp add: gate_init_def sender_def rio_gate_ops_def)
  from that [OF gate_reach.reach_step [OF sender_fresh this] i'(3-6)] show thesis .
qed

theorem send_side_exclusive_witness:
  "\<not> in_flight (sender (sending [sized 2]) AtSend) \<and>
    owners (pcs (sender (sending [sized 2]) AtSend)) = {0}"
proof -
  have at: "owning (pcs (sender (sending [sized 2]) AtSend) 0)" by (simp add: sender_def)
  from send_side_exclusive [OF list_queue_laws plain_net_size_laws resting_simps sender_fresh at] at
  show ?thesis by (auto simp: owners_def)
qed

lemma sender_leaves:
  assumes "sendQueue i = []" and "reservedBuffer i = None" and "ioMode i = IO_SENDING"
  shows "gate_reach one_ops ((sender i AtExchange)\<lparr>in_flight := True, sent := ps\<rparr>)
    ((sender i NotInside)\<lparr>in_flight := True, sent := ps\<rparr>)"
  using gate_step.exchange_fails [of "(sender i AtExchange)\<lparr>in_flight := True, sent := ps\<rparr>" 0 one_ops] assms
  by (intro gate_reach.reach_step [OF gate_reach.reach_refl]) (simp add: sender_def gate_init_def rio_gate_ops_def)

lemma gate_reach_trans: "gate_reach ops s' s'' \<Longrightarrow> gate_reach ops s s' \<Longrightarrow> gate_reach ops s s''"
  by (induction rule: gate_reach.induct) (auto intro: gate_reach.intros)

lemma sender_completes:
  assumes "sendQueue i = []" and "reservedBuffer i = None" and "ioMode i = IO_SENDING"
  shows "gate_reach one_ops ((sender i NotInside)\<lparr>in_flight := True, sent := ps\<rparr>)
    ((sender (i\<lparr>ioMode := IO_NONE_SENDING\<rparr>) NotInside)\<lparr>sent := ps\<rparr>)"
proof -
  let ?n = "i\<lparr>ioMode := IO_NONE_SENDING\<rparr>"
  have "i\<lparr>ioMode := IO_SENDING\<rparr> = i" using assms(3) by simp
  note upd = this
  have "gate_step one_ops ((sender i NotInside)\<lparr>in_flight := True, sent := ps\<rparr>) ((sender ?n AtExchange)\<lparr>sent := ps\<rparr>)"
    using gate_step.complete [of "(sender i NotInside)\<lparr>in_flight := True, sent := ps\<rparr>" 0 one_ops]
    by (simp add: sender_def gate_init_def rio_gate_ops_def)
  moreover have "gate_step one_ops ((sender ?n AtExchange)\<lparr>sent := ps\<rparr>) ((sender i AtCheck)\<lparr>sent := ps\<rparr>)"
    using gate_step.exchange_wins [of "(sender ?n AtExchange)\<lparr>sent := ps\<rparr>" 0 one_ops] upd
    by (simp add: sender_def gate_init_def rio_gate_ops_def)
  moreover have "gate_step one_ops ((sender i AtCheck)\<lparr>sent := ps\<rparr>) ((sender i AtReset)\<lparr>sent := ps\<rparr>)"
    using gate_step.check_none [of "(sender i AtCheck)\<lparr>sent := ps\<rparr>" 0 one_ops] assms
    by (simp add: sender_def gate_init_def rio_gate_ops_def list_queue_def)
  moreover have "gate_step one_ops ((sender i AtReset)\<lparr>sent := ps\<rparr>) ((sender ?n AtRecheck)\<lparr>sent := ps\<rparr>)"
    using gate_step.reset [of "(sender i AtReset)\<lparr>sent := ps\<rparr>" 0 one_ops]
    by (simp add: sender_def gate_init_def rio_gate_ops_def)
  moreover have "gate_step one_ops ((sender ?n AtRecheck)\<lparr>sent := ps\<rparr>) ((sender ?n NotInside)\<lparr>sent := ps\<rparr>)"
    using gate_step.recheck_none [of "(sender ?n AtRecheck)\<lparr>sent := ps\<rparr>" 0 one_ops] assms
    by (simp add: sender_def gate_init_def rio_gate_ops_def list_queue_def)
  ultimately show ?thesis by (meson gate_reach.intros)
qed

theorem send_side_quiescent_witness:
  "\<exists>s. gate_reach one_ops (gate_init resting) s \<and> posted s = [sized 2] \<and> sent s = posted s \<and>
    unsent (\<lambda>q. q) (item s) = []"
proof -
  obtain i' where i': "gate_reach one_ops (gate_init resting) ((sender i' AtExchange)\<lparr>in_flight := True, sent := [sized 2]\<rparr>)"
    "sendQueue i' = []" "reservedBuffer i' = None" "ioMode i' = IO_SENDING"
    using sender_in_flight by blast
  let ?s = "(sender (i'\<lparr>ioMode := IO_NONE_SENDING\<rparr>) NotInside)\<lparr>sent := [sized 2]\<rparr>"
  have run: "gate_reach one_ops (gate_init resting) ?s"
    using gate_reach_trans [OF sender_completes [OF i'(2-4)] gate_reach_trans [OF sender_leaves [OF i'(2-4)] i'(1)]] .
  have "sent ?s = posted ?s \<and> unsent (\<lambda>q. q) (item ?s) = []"
    by (rule send_side_quiescent [OF list_queue_laws plain_net_size_laws resting_simps run])
      (simp_all add: sender_def gate_init_def)
  then show ?thesis
    using run by (intro exI [of _ ?s]) (simp add: sender_def)
qed

text \<open>The send of the first packet is refused; the second packet is enqueued and stays.\<close>

theorem refused_send_is_final_witness:
  "\<exists>s s'. gate_reach one_ops (gate_init resting) s \<and> refused s \<and> gate_reach one_ops s s' \<and>
    posted s' = posted s @ [sized 3] \<and> sent s' = [] \<and> ioMode (item s') = IO_SENDING \<and> \<not> in_flight s' \<and>
    unsent (\<lambda>q. q) (item s') = unsent (\<lambda>q. q) (item s) @ [sized 3]"
proof -
  obtain i' where i': "g_gather one_ops (sending [sized 2]) = Inr i'" using sender_gathers by blast
  let ?s = "(sender i' NotInside)\<lparr>refused := True\<rparr>"
  let ?s' = "goto 0 AtExchange (?s\<lparr>item := g_enqueue one_ops (sized 3) i', posted := posted ?s @ [sized 3]\<rparr>)"
  have "gate_step one_ops (sender (sending [sized 2]) AtSend) ?s"
    using gate_step.send_refused [of "sender (sending [sized 2]) AtSend" 0 one_ops i'] i'
    by (simp add: gate_init_def sender_def)
  note run = gate_reach.reach_step [OF sender_fresh this]
  have "gate_step one_ops ?s ?s'"
    using gate_step.enqueue [of ?s 0 one_ops "sized 3"] by (simp add: gate_init_def sender_def)
  note more = gate_reach.reach_step [OF gate_reach.reach_refl this]
  have "refused ?s \<or> dropped ?s" by simp
  from refused_send_is_final [OF list_queue_laws plain_net_size_laws resting_simps run this more]
  show ?thesis
    using run more by (intro exI [of _ ?s] exI [of _ ?s']) (auto simp: sender_def gate_init_def)
qed

theorem SendPacketAndDisconnect_drops_witness:
  "\<exists>s s'. gate_reach one_ops (gate_init resting) s \<and> gate_reach one_ops s s' \<and>
    closing s' \<and> \<not> in_flight s' \<and> unsent (\<lambda>q. q) (item s') = [sized 3]"
proof -
  obtain i' where i': "gate_reach one_ops (gate_init resting) ((sender i' AtExchange)\<lparr>in_flight := True, sent := [sized 2]\<rparr>)"
    "sendQueue i' = []" "reservedBuffer i' = None" "ioMode i' = IO_SENDING" "rio_item_ok plain_net list_queue (\<lambda>q. q) i'"
    using sender_in_flight by blast
  let ?s = "(sender i' NotInside)\<lparr>in_flight := True, sent := [sized 2]\<rparr>"
  have run: "gate_reach one_ops (gate_init resting) ?s"
    using gate_reach_trans [OF sender_leaves [OF i'(2-4)] i'(1)] .
  have "unsent (\<lambda>q. q) i' = []" using i'(2,3) by (simp add: unsent_def)
  then show ?thesis
    using SendPacketAndDisconnect_drops [OF list_queue_laws plain_net_size_laws, of ?s "sized 3"] i' run
    by (fastforce simp: sender_def gate_init_def)
qed

end
