(* ===== verification/Framing.thy ===== *)
theory Framing
  imports External
begin

text \<open>
  The receive path of RIOTestServer::RecvCompleted: how the bytes that a completed receive left
  in a session's ring buffer are cut into packets. \<open>GetPayloadLength\<close> and \<open>recv_loop\<close> are the
  code, over the operations of the ring and of NetBuffer; \<open>parse_frames\<close> is what they compute,
  a function of the bytes alone. The refinement between the two also shows that the loop
  returns, and the algebra of \<open>parse_frames\<close> shows that the cut does not depend on how TCP
  chops the stream.
\<close>

section \<open>The code\<close>

text \<open>
  The header is a code byte and a 16-bit length. Zero is returned for a foreign code and for a
  payload that has not arrived yet. The buffer is returned with its read position behind the
  two fields.
\<close>

definition GetPayloadLength :: "net_ops \<Rightarrow> NetBuffer \<Rightarrow> int \<Rightarrow> u16 \<times> NetBuffer" where
  "GetPayloadLength no buffer restSize =
     (let (code, buffer) = nb_get_BYTE no buffer;
          (payloadLength, buffer) = nb_get_WORD no buffer
      in if code \<noteq> m_byHeaderCode no then (0, buffer)
         else if restSize < uint payloadLength + int (df_HEADER_SIZE no) then (0, buffer)
         else (payloadLength, buffer))"

text \<open>
  The lines of the loop body that fill a fresh buffer: the header is peeked to its start, the
  payload is dequeued behind its write position.
\<close>

definition alloc_with_header :: "net_ops \<Rightarrow> u8 list \<Rightarrow> NetBuffer outcome" where
  "alloc_with_header no header =
     (case nb_Alloc no of
        None \<Rightarrow> Inl UndefinedBehaviour
      | Some buffer \<Rightarrow>
          obind (mem_put 0 header (m_pSerializeBuffer buffer)) (\<lambda>mem.
            Inr (buffer\<lparr>m_pSerializeBuffer := mem, m_iRead := 0\<rparr>)))"

definition append_payload :: "NetBuffer \<Rightarrow> u8 list \<Rightarrow> NetBuffer outcome" where
  "append_payload buffer payload =
     obind (mem_put (m_iWrite buffer) payload (m_pSerializeBuffer buffer)) (\<lambda>mem.
       Inr (buffer\<lparr>m_pSerializeBuffer := mem, m_iWrite := m_iWrite buffer + int (length payload)\<rparr>))"

text \<open>
  The \<open>while\<close> loop. Its result is the ring, \<open>packetError\<close>, and the state \<open>w\<close> that
  \<open>session.OnRecvPacket\<close> (the argument \<open>onRecv\<close>) works on; \<open>None\<close> would be a loop that
  does not return.
\<close>

partial_function (option) recv_loop ::
  "net_ops \<Rightarrow> 'r ring_ops \<Rightarrow> (NetBuffer \<Rightarrow> 'w \<Rightarrow> 'w outcome) \<Rightarrow> 'r \<Rightarrow> int \<Rightarrow> 'w \<Rightarrow>
   (('r \<times> bool \<times> 'w) outcome) option" where
  "recv_loop no ro onRecv ring restSize w =
     (if restSize > int (df_HEADER_SIZE no) then
        (case alloc_with_header no (rb_Peek ro (int (df_HEADER_SIZE no)) ring) of
           Inl e \<Rightarrow> Some (Inl e)
         | Inr buffer \<Rightarrow>
             (let (payloadLength, buffer) = GetPayloadLength no buffer restSize
              in if payloadLength = 0 then Some (Inr (ring, False, w))
                 else if uint payloadLength > int (dfDEFAULTSIZE no) then Some (Inr (ring, True, w))
                 else
                   (let ring = rb_RemoveData ro (int (df_HEADER_SIZE no)) ring;
                        (payload, ring) = rb_Dequeue ro (uint payloadLength) ring
                    in case append_payload buffer payload of
                         Inl e \<Rightarrow> Some (Inl e)
                       | Inr buffer \<Rightarrow>
                           (let (decoded, buffer) = nb_Decode no buffer
                            in if \<not> decoded then Some (Inr (ring, True, w))
                               else case onRecv buffer w of
                                      Inl e \<Rightarrow> Some (Inl e)
                                    | Inr w \<Rightarrow> recv_loop no ro onRecv ring
                                        (restSize - (int (length payload) + int (df_HEADER_SIZE no))) w))))
      else Some (Inr (ring, False, w)))"

text \<open>What every call of \<open>OnRecvPacket\<close> keeps, the loop keeps.\<close>

lemma recv_loop_keeps:
  assumes run: "recv_loop no ro onRecv (ring :: 'b) restSize (w :: 'w) = Some (Inr (ring', err, w'))" and "P w"
    and keep: "\<And>b w w'. P w \<Longrightarrow> onRecv b w = Inr w' \<Longrightarrow> P w'"
  shows "P w'"
proof -
  let ?keeps = "\<lambda>f. \<forall>b w w'. P w \<longrightarrow> f b w = Inr w' \<longrightarrow> P w'"
  have "?keeps onRecv \<longrightarrow> P w \<longrightarrow>
      (case Inr (ring', err, w') :: ('b \<times> bool \<times> 'w) outcome of Inl e \<Rightarrow> True | Inr (_, _, w') \<Rightarrow> P w')"
  proof (rule recv_loop.raw_induct [where P = "\<lambda>no ro f ring restSize w res. ?keeps f \<longrightarrow> P w \<longrightarrow>
      (case res of Inl e \<Rightarrow> True | Inr (_, _, w') \<Rightarrow> P w')", OF _ run], goal_cases)
    case (1 loop no ro f ring restSize w res)
    show ?case
    proof (intro impI)
      assume k: "?keeps f" and "P w"
      have IH: "P w'" if "loop no ro f ring restSize w = Some (Inr (r, e, w'))" and "P w" for ring restSize w r e w'
        using 1(1) [OF that(1)] k that(2) by simp
      show "case res of Inl e \<Rightarrow> True | Inr (_, _, w') \<Rightarrow> P w'"
        using 1(2) \<open>P w\<close>
        by (clarsimp simp: Let_def split: if_splits sum.splits prod.splits) (erule IH, rule k [rule_format], assumption+)
    qed
  qed
  with assms(2) keep show ?thesis by fastforce
qed

section \<open>What it computes\<close>

text \<open>
  The first frame of a byte stream: nothing to do (yet), a stream to be given up, or a decoded
  packet and the bytes behind it.
\<close>

datatype frame = Wait | Bad "u8 list" | Packet NetBuffer "u8 list"

definition next_frame :: "net_ops \<Rightarrow> u8 list \<Rightarrow> frame" where
  "next_frame no bs =
     (if length bs \<le> df_HEADER_SIZE no then Wait
      else case alloc_with_header no (take (df_HEADER_SIZE no) bs) of
        Inl e \<Rightarrow> Wait
      | Inr buffer \<Rightarrow>
          (let (n, buffer) = GetPayloadLength no buffer (int (length bs));
               rest = drop (df_HEADER_SIZE no + unat n) bs
           in if n = 0 then Wait
              else if dfDEFAULTSIZE no < unat n then Bad bs
              else case append_payload buffer (take (unat n) (drop (df_HEADER_SIZE no) bs)) of
                Inl e \<Rightarrow> Wait
              | Inr buffer \<Rightarrow>
                  (let (decoded, buffer) = nb_Decode no buffer
                   in if decoded then Packet buffer rest else Bad rest)))"

lemma next_frame_Packet_drop:
  assumes "next_frame no bs = Packet b rest"
  shows "\<exists>n. n \<noteq> (0 :: u16) \<and> bs \<noteq> [] \<and> rest = drop (df_HEADER_SIZE no + unat n) bs"
proof -
  from assms have "bs \<noteq> []"
    by (auto simp: next_frame_def)
  with assms show ?thesis
    by (auto simp: next_frame_def Let_def split: if_splits sum.splits prod.splits)
qed

lemma next_frame_shrinks:
  assumes "next_frame no bs = Packet b rest"
  shows "length rest < length bs"
proof -
  obtain n where n: "n \<noteq> (0 :: u16)" and bs: "bs \<noteq> []"
    and rest: "rest = drop (df_HEADER_SIZE no + unat n) bs"
    using next_frame_Packet_drop [OF assms] by blast
  from n have "0 < unat n" by (simp add: unat_gt_0)
  with bs show ?thesis by (cases bs) (auto simp: rest)
qed

function parse_frames :: "net_ops \<Rightarrow> u8 list \<Rightarrow> NetBuffer list \<times> bool \<times> u8 list" where
  "parse_frames no bs =
     (case next_frame no bs of
        Wait \<Rightarrow> ([], False, bs)
      | Bad rest \<Rightarrow> ([], True, rest)
      | Packet b rest \<Rightarrow>
          (case parse_frames no rest of (ps, err, rest') \<Rightarrow> (b # ps, err, rest')))"
  by pat_completeness auto
termination
  by (relation "measure (\<lambda>(no, bs). length bs)") (auto dest: next_frame_shrinks)

declare parse_frames.simps [simp del]

lemma frames_induct [case_names step]:
  assumes "\<And>bs. (\<And>b rest. next_frame no bs = Packet b rest \<Longrightarrow> P rest) \<Longrightarrow> P bs"
  shows "P bs"
  by (induction bs rule: length_induct) (blast intro: assms dest: next_frame_shrinks)

text \<open>Handing the packets to \<open>OnRecvPacket\<close> one after the other.\<close>

fun deliver :: "(NetBuffer \<Rightarrow> 'w \<Rightarrow> 'w outcome) \<Rightarrow> NetBuffer list \<Rightarrow> 'w \<Rightarrow> 'w outcome" where
  "deliver onRecv [] w = Inr w"
| "deliver onRecv (p # ps) w = obind (onRecv p w) (deliver onRecv ps)"

section \<open>The operations under the laws of the libraries\<close>

lemma GetPayloadLength_bound:
  assumes "GetPayloadLength no b restSize = (n, b')" and "n \<noteq> 0"
  shows "uint n + int (df_HEADER_SIZE no) \<le> restSize"
  using assms by (auto simp: GetPayloadLength_def split: if_splits prod.splits)

lemma GetPayloadLength_fst_mono:
  assumes "GetPayloadLength no b restSize = (n, b')" and "n \<noteq> 0" and "restSize \<le> restSize'"
  shows "GetPayloadLength no b restSize' = (n, b')"
  using assms by (auto simp: GetPayloadLength_def split: if_splits prod.splits)

lemma GetPayloadLength_keeps:
  assumes laws: "net_frame_laws no" and eq: "GetPayloadLength no b restSize = (n, b')"
  shows "m_iWrite b' = m_iWrite b \<and> m_pSerializeBuffer b' = m_pSerializeBuffer b"
proof -
  obtain v1 n1 where 1: "nb_get_BYTE no b = (v1, b\<lparr>m_iRead := n1\<rparr>)"
    using laws unfolding net_frame_laws_def by blast
  obtain v2 n2 where 2: "nb_get_WORD no (b\<lparr>m_iRead := n1\<rparr>) = (v2, b\<lparr>m_iRead := n1\<rparr>\<lparr>m_iRead := n2\<rparr>)"
    using laws unfolding net_frame_laws_def by blast
  show ?thesis
    using eq by (auto simp: GetPayloadLength_def 1 2 split: if_splits)
qed

lemma alloc_with_header_ok:
  assumes "net_frame_laws no" and "length h = df_HEADER_SIZE no"
  shows "\<exists>b. alloc_with_header no h = Inr b \<and> 0 \<le> m_iWrite b \<and>
    nat (m_iWrite b) + dfDEFAULTSIZE no \<le> length (m_pSerializeBuffer b)"
  using assms unfolding net_frame_laws_def by (auto simp: alloc_with_header_def mem_put_def)

lemma append_payload_ok:
  assumes "0 \<le> m_iWrite b" and "nat (m_iWrite b) + length p \<le> length (m_pSerializeBuffer b)"
  shows "\<exists>b'. append_payload b p = Inr b'"
  using assms by (auto simp: append_payload_def mem_put_def)

text \<open>
  The cases of a frame, for a stream that holds more than a header: the buffer that got the
  header, the length read from it, and what follows from the length.
\<close>

lemma header_read_cases:
  assumes laws: "net_frame_laws no" and more: "df_HEADER_SIZE no < length bs"
  obtains b0 n b1 where
    "alloc_with_header no (take (df_HEADER_SIZE no) bs) = Inr b0"
    and "GetPayloadLength no b0 (int (length bs)) = (n, b1)"
    and "n \<noteq> 0 \<Longrightarrow> df_HEADER_SIZE no + unat n \<le> length bs"
    and "\<And>p. length p \<le> dfDEFAULTSIZE no \<Longrightarrow> \<exists>b2. append_payload b1 p = Inr b2"
proof -
  from more have "length (take (df_HEADER_SIZE no) bs) = df_HEADER_SIZE no" by simp
  from alloc_with_header_ok [OF laws this] obtain b0
    where b0: "alloc_with_header no (take (df_HEADER_SIZE no) bs) = Inr b0"
      "0 \<le> m_iWrite b0" "nat (m_iWrite b0) + dfDEFAULTSIZE no \<le> length (m_pSerializeBuffer b0)"
    by blast
  obtain n b1 where g: "GetPayloadLength no b0 (int (length bs)) = (n, b1)"
    by (cases "GetPayloadLength no b0 (int (length bs))")
  have "df_HEADER_SIZE no + unat n \<le> length bs" if "n \<noteq> 0"
    using GetPayloadLength_bound [OF g that] by (simp add: uint_add_le_int_iff)
  moreover have "\<exists>b2. append_payload b1 p = Inr b2" if "length p \<le> dfDEFAULTSIZE no" for p
    using GetPayloadLength_keeps [OF laws g] b0 that by (intro append_payload_ok) auto
  ultimately show thesis using b0(1) g that by blast
qed

section \<open>The loop refines the function\<close>

lemma ring_take_frame:
  assumes ring: "ring_laws ro bytes" and len: "h + k \<le> length (bytes r)"
  shows "\<exists>r'. rb_Dequeue ro (int k) (rb_RemoveData ro (int h) r) = (take k (drop h (bytes r)), r') \<and>
    bytes r' = drop (h + k) (bytes r)"
proof -
  let ?r1 = "rb_RemoveData ro (int h) r"
  have r1: "bytes ?r1 = drop h (bytes r)"
    using ring len by (simp add: ring_laws_def)
  with len have "k \<le> length (bytes ?r1)" by simp
  with ring r1 have "fst (rb_Dequeue ro (int k) ?r1) = take k (drop h (bytes r))"
    and "bytes (snd (rb_Dequeue ro (int k) ?r1)) = drop (h + k) (bytes r)"
    by (simp_all add: ring_laws_def add.commute)
  then show ?thesis by (metis prod.collapse)
qed

lemma recv_loop_step:
  assumes laws: "net_frame_laws no" and ring: "ring_laws ro bytes"
  shows "\<exists>ring'. recv_loop no ro onRecv ring (int (length (bytes ring))) w =
    (case next_frame no (bytes ring) of
       Wait \<Rightarrow> Some (Inr (ring, False, w))
     | Bad rest \<Rightarrow> Some (Inr (ring', True, w))
     | Packet b rest \<Rightarrow>
         (case onRecv b w of
            Inl e \<Rightarrow> Some (Inl e)
          | Inr w \<Rightarrow> recv_loop no ro onRecv ring' (int (length (bytes ring'))) w)) \<and>
    (case next_frame no (bytes ring) of Wait \<Rightarrow> ring' = ring | Bad rest \<Rightarrow> bytes ring' = rest
     | Packet b rest \<Rightarrow> bytes ring' = rest)"
    (is "\<exists>ring'. ?P ring'")
proof (cases "df_HEADER_SIZE no < length (bytes ring)")
  case False
  then show ?thesis
    by (intro exI [of _ ring]) (simp add: recv_loop.simps next_frame_def)
next
  case True
  let ?HS = "df_HEADER_SIZE no"
  obtain b0 n b1 where b0: "alloc_with_header no (take ?HS (bytes ring)) = Inr b0"
    and g: "GetPayloadLength no b0 (int (length (bytes ring))) = (n, b1)"
    and len: "n \<noteq> 0 \<Longrightarrow> ?HS + unat n \<le> length (bytes ring)"
    and app: "\<And>p. length p \<le> dfDEFAULTSIZE no \<Longrightarrow> \<exists>b2. append_payload b1 p = Inr b2"
    using header_read_cases [OF laws True] by metis
  have peek: "rb_Peek ro (int ?HS) ring = take ?HS (bytes ring)"
    using ring True by (simp add: ring_laws_def)
  consider (zero) "n = 0" | (big) "n \<noteq> 0" "dfDEFAULTSIZE no < unat n"
    | (full) "n \<noteq> 0" "unat n \<le> dfDEFAULTSIZE no" by linarith
  then show ?thesis
  proof cases
    case zero
    then show ?thesis using True
      by (intro exI [of _ ring])
        (simp add: recv_loop.simps [of _ _ _ ring] next_frame_def peek b0 g)
  next
    case big
    then show ?thesis using True
      by (intro exI [of _ ring])
        (simp add: recv_loop.simps [of _ _ _ ring] next_frame_def peek b0 g int_less_uint_iff)
  next
    case full
    let ?ring1 = "rb_RemoveData ro (int ?HS) ring"
    let ?p = "take (unat n) (drop ?HS (bytes ring))"
    obtain ring2 where deq: "rb_Dequeue ro (uint n) ?ring1 = (?p, ring2)"
      and r2: "bytes ring2 = drop (?HS + unat n) (bytes ring)"
      using ring_take_frame [OF ring len [OF full(1)]] unfolding uint_nat by blast
    have plen: "length ?p = unat n"
      using len full(1) by simp
    obtain b2 where b2: "append_payload b1 ?p = Inr b2"
      using app full(2) plen by metis
    obtain d b3 where d: "nb_Decode no b2 = (d, b3)" by (cases "nb_Decode no b2")
    have "int (length (bytes ring)) - (int (unat n) + int ?HS) = int (length (bytes ring2))"
      using len full(1) by (simp add: r2)
    then have rest: "int (length (bytes ring)) - (int (length ?p) + int ?HS) = int (length (bytes ring2))"
      by (simp only: plen)
    have frame: "next_frame no (bytes ring) =
        (if d then Packet b3 (bytes ring2) else Bad (bytes ring2))"
      using True full by (simp add: next_frame_def b0 g b2 d r2)
    have loop: "recv_loop no ro onRecv ring (int (length (bytes ring))) w =
        (if \<not> d then Some (Inr (ring2, True, w))
         else case onRecv b3 w of Inl e \<Rightarrow> Some (Inl e)
              | Inr w \<Rightarrow> recv_loop no ro onRecv ring2 (int (length (bytes ring2))) w)"
    proof -
      have conds: "(int ?HS < int (length (bytes ring))) = True"
        "(int (dfDEFAULTSIZE no) < uint n) = False" "(n = 0) = False"
        using True full by (simp_all add: int_less_uint_iff)
      show ?thesis
        by (subst recv_loop.simps)
          (simp only: conds peek b0 g deq b2 d rest Let_def prod.case sum.case if_True if_False)
    qed
    show ?thesis
      by (intro exI [of _ ring2]) (simp add: frame loop)
  qed
qed

lemma recv_loop_refines:
  assumes laws: "net_frame_laws no" and ring: "ring_laws ro bytes"
    and "parse_frames no (bytes r) = (ps, err, rest)"
  shows "\<exists>r'. bytes r' = rest \<and>
    recv_loop no ro onRecv r (int (length (bytes r))) w =
      Some (obind (deliver onRecv ps w) (\<lambda>w'. Inr (r', err, w')))"
  using assms(3)
proof (induction "bytes r" arbitrary: r ps w rule: frames_induct [where no = no])
  case (step r ps w)
  obtain r1 where loop: "recv_loop no ro onRecv r (int (length (bytes r))) w =
      (case next_frame no (bytes r) of
         Wait \<Rightarrow> Some (Inr (r, False, w))
       | Bad rest \<Rightarrow> Some (Inr (r1, True, w))
       | Packet b rest \<Rightarrow>
           (case onRecv b w of
              Inl e \<Rightarrow> Some (Inl e)
            | Inr w \<Rightarrow> recv_loop no ro onRecv r1 (int (length (bytes r1))) w))"
    and r1: "case next_frame no (bytes r) of Wait \<Rightarrow> r1 = r | Bad rest \<Rightarrow> bytes r1 = rest
      | Packet b rest \<Rightarrow> bytes r1 = rest"
    using recv_loop_step [OF laws ring] by metis
  show ?case
  proof (cases "next_frame no (bytes r)")
    case (Packet b rest1)
    with step.prems obtain ps1 where ps1: "parse_frames no (bytes r1) = (ps1, err, rest)" "ps = b # ps1"
      using r1 by (auto simp: parse_frames.simps [of _ "bytes r"] split: prod.splits)
    from Packet r1 have frame: "next_frame no (bytes r) = Packet b (bytes r1)" by simp
    note IH = step.hyps [OF frame ps1(1)]
    show ?thesis
    proof (cases "onRecv b w")
      case (Inl e)
      with IH [of w] show ?thesis by (auto simp: loop frame ps1(2))
    next
      case (Inr w1)
      with IH [of w1] show ?thesis by (auto simp: loop frame ps1(2))
    qed
  qed (use step.prems r1 in \<open>auto simp: loop parse_frames.simps [of _ "bytes r"]\<close>)
qed

section \<open>The cut does not depend on how the stream is chopped\<close>

lemma next_frame_append:
  assumes laws: "net_frame_laws no" and "next_frame no xs \<noteq> Wait"
  shows "next_frame no (xs @ ys) =
    (case next_frame no xs of Wait \<Rightarrow> Wait | Bad rest \<Rightarrow> Bad (rest @ ys)
     | Packet b rest \<Rightarrow> Packet b (rest @ ys))"
proof -
  let ?HS = "df_HEADER_SIZE no"
  from assms(2) have more: "?HS < length xs"
    by (auto simp: next_frame_def split: if_splits)
  obtain b0 n b1 where b0: "alloc_with_header no (take ?HS xs) = Inr b0"
    and g: "GetPayloadLength no b0 (int (length xs)) = (n, b1)"
    and len: "n \<noteq> 0 \<Longrightarrow> ?HS + unat n \<le> length xs"
    using header_read_cases [OF laws more] by metis
  from assms(2) more b0 g have n: "n \<noteq> 0"
    by (auto simp: next_frame_def)
  have g': "GetPayloadLength no b0 (int (length xs) + int (length ys)) = (n, b1)"
    by (rule GetPayloadLength_fst_mono [OF g n]) simp
  show ?thesis
    using more len [OF n] n by (simp add: next_frame_def b0 g g' Let_def split: sum.split prod.split)
qed

lemma parse_frames_append:
  assumes laws: "net_frame_laws no"
  shows "parse_frames no (xs @ ys) =
    (case parse_frames no xs of
       (ps, True, rest) \<Rightarrow> (ps, True, rest @ ys)
     | (ps, False, rest) \<Rightarrow>
         (case parse_frames no (rest @ ys) of (qs, err, rest') \<Rightarrow> (ps @ qs, err, rest')))"
proof (induction xs rule: frames_induct [where no = no])
  case (step xs)
  show ?case
  proof (cases "next_frame no xs")
    case Wait
    then show ?thesis by (simp add: parse_frames.simps [of _ xs] split: prod.split)
  next
    case (Bad rest)
    with next_frame_append [OF laws, of xs ys] show ?thesis
      by (simp add: parse_frames.simps [of _ xs] parse_frames.simps [of _ "xs @ ys"])
  next
    case (Packet b rest)
    with next_frame_append [OF laws, of xs ys] step.IH [OF Packet] show ?thesis
      by (simp add: parse_frames.simps [of _ xs] parse_frames.simps [of _ "xs @ ys"]
          split: prod.splits bool.splits)
  qed
qed

lemma parse_frames_rest_waits:
  "parse_frames no bs = (ps, False, rest) \<Longrightarrow> next_frame no rest = Wait"
proof (induction bs arbitrary: ps rule: frames_induct [where no = no])
  case (step bs)
  then show ?case
    by (auto simp: parse_frames.simps [of _ bs] split: frame.splits prod.splits)
qed

definition is_frame :: "net_ops \<Rightarrow> u8 list \<Rightarrow> NetBuffer \<Rightarrow> bool" where
  "is_frame no f b \<longleftrightarrow> next_frame no f = Packet b []"

lemma parse_frames_concat:
  assumes laws: "net_frame_laws no" and "list_all2 (is_frame no) fs bs" and "next_frame no t = Wait"
  shows "parse_frames no (concat fs @ t) = (bs, False, t)"
  using assms(2)
proof (induction rule: list_all2_induct)
  case Nil
  from assms(3) show ?case by (simp add: parse_frames.simps)
next
  case (Cons f fs b bs)
  then have "next_frame no (f @ concat fs @ t) = Packet b (concat fs @ t)"
    using next_frame_append [OF laws, of f "concat fs @ t"] by (simp add: is_frame_def)
  with Cons.IH show ?case by (simp add: parse_frames.simps)
qed

lemma recv_loop_stalls:
  assumes ring: "ring_laws ro bytes" and r: "bytes r = header @ behind"
    and "length header = df_HEADER_SIZE no" and b: "alloc_with_header no header = Inr b"
    and n: "fst (GetPayloadLength no b (int (length (bytes r)))) = 0"
  shows "recv_loop no ro onRecv r (rb_GetUseSize ro r) w = Some (Inr (r, False, w))"
proof -
  from ring r assms(3) have "rb_Peek ro (int (df_HEADER_SIZE no)) r = header"
    and "rb_GetUseSize ro r = int (length (bytes r))"
    by (simp_all add: ring_laws_def)
  then show ?thesis
    using n by (subst recv_loop.simps) (auto simp: b split: prod.split)
qed

section \<open>Receiving the stream in pieces\<close>

text \<open>
  The receive completions of a session, one after the other. A completion brings the bytes \<open>c\<close>:
  the kernel has written them behind those in the ring, and MoveWritePos has made them part of
  it (\<open>r1\<close>). A packet error or a loop that ends the process ends the run. The last argument is the
  result of the run, as of \<open>recv_loop\<close>; \<open>None\<close> would be a loop that does not return.
\<close>

inductive recv_run ::
  "net_ops \<Rightarrow> 'r ring_ops \<Rightarrow> ('r \<Rightarrow> u8 list) \<Rightarrow> (NetBuffer \<Rightarrow> 'w \<Rightarrow> 'w outcome) \<Rightarrow> u8 list list \<Rightarrow> 'r \<Rightarrow> 'w \<Rightarrow>
   (('r \<times> bool \<times> 'w) outcome) option \<Rightarrow> bool" for no ro bytes onRecv where
  finished: "recv_run no ro bytes onRecv [] r w (Some (Inr (r, False, w)))"
| received: "bytes r1 = bytes r @ c \<Longrightarrow>
    recv_loop no ro onRecv r1 (rb_GetUseSize ro r1) w = Some (Inr (r2, False, w2)) \<Longrightarrow>
    recv_run no ro bytes onRecv cs r2 w2 res \<Longrightarrow> recv_run no ro bytes onRecv (c # cs) r w res"
| ended: "bytes r1 = bytes r @ c \<Longrightarrow>
    recv_loop no ro onRecv r1 (rb_GetUseSize ro r1) w = res \<Longrightarrow>
    \<nexists>r2 w2. res = Some (Inr (r2, False, w2)) \<Longrightarrow> recv_run no ro bytes onRecv (c # cs) r w res"

text \<open>What of a result does not depend on the ring: the stop, or the packet error, the state, and the bytes left over.\<close>

fun recv_view :: "('r \<Rightarrow> u8 list) \<Rightarrow> (('r \<times> bool \<times> 'w) outcome) option \<Rightarrow> ((bool \<times> 'w \<times> u8 list) outcome) option" where
  "recv_view bytes None = None"
| "recv_view bytes (Some (Inl e)) = Some (Inl e)"
| "recv_view bytes (Some (Inr (r, err, w))) = Some (Inr (err, w, if err then [] else bytes r))"

lemma deliver_append: "deliver onRecv (ps @ qs) w = obind (deliver onRecv ps w) (deliver onRecv qs)"
proof (induction ps arbitrary: w)
  case (Cons p ps)
  then show ?case by (cases "onRecv p w") simp_all
qed simp

lemma recv_run_parse:
  assumes laws: "net_frame_laws no" and ring: "ring_laws ro bytes"
  shows "recv_run no ro bytes onRecv cs r w res \<Longrightarrow> next_frame no (bytes r) = Wait \<Longrightarrow>
    parse_frames no (bytes r @ concat cs) = (ps, err, rest) \<Longrightarrow>
    recv_view bytes res = Some (obind (deliver onRecv ps w) (\<lambda>w. Inr (err, w, if err then [] else rest)))"
proof (induction arbitrary: ps rule: recv_run.induct)
  case (finished r w)
  then show ?case by (simp add: parse_frames.simps)
next
  case (received r1 r c w r2 w2 cs res)
  obtain ps1 err1 rest1 where p: "parse_frames no (bytes r1) = (ps1, err1, rest1)"
    by (cases "parse_frames no (bytes r1)")
  from recv_loop_refines [OF laws ring p, of onRecv w] received.hyps(2) ring
  obtain r' where "bytes r' = rest1" "Inr (r2, False, w2) = obind (deliver onRecv ps1 w) (\<lambda>w'. Inr (r', err1, w'))"
    by (auto simp: ring_laws_use)
  then have d: "deliver onRecv ps1 w = Inr w2" "err1 = False" "bytes r2 = rest1"
    by (cases "deliver onRecv ps1 w"; simp)+
  have wait: "next_frame no (bytes r2) = Wait"
    using parse_frames_rest_waits [of no "bytes r1" ps1 rest1] p d by simp
  have "parse_frames no (bytes r1 @ concat cs) = (ps, err, rest)"
    using received.prems(2) received.hyps(1) by simp
  then obtain qs where "parse_frames no (bytes r2 @ concat cs) = (qs, err, rest)" "ps = ps1 @ qs"
    using p d by (subst (asm) parse_frames_append [OF laws]) (auto split: prod.splits)
  with received.IH [OF wait] d(1) show ?case by (simp add: deliver_append)
next
  case (ended r1 r c w res cs)
  obtain ps1 err1 rest1 where p: "parse_frames no (bytes r1) = (ps1, err1, rest1)"
    by (cases "parse_frames no (bytes r1)")
  from recv_loop_refines [OF laws ring p, of onRecv w] ended.hyps(2) ring obtain r' where
    r': "bytes r' = rest1" and res: "res = Some (obind (deliver onRecv ps1 w) (\<lambda>w'. Inr (r', err1, w')))"
    by (auto simp: ring_laws_use)
  have all: "parse_frames no (bytes r1 @ concat cs) = (ps, err, rest)"
    using ended.prems(2) ended.hyps(1) by simp
  show ?case
  proof (cases "deliver onRecv ps1 w")
    case (Inl e)
    have "\<exists>qs. ps = ps1 @ qs"
      using all p by (subst (asm) parse_frames_append [OF laws]) (auto split: prod.splits bool.splits)
    then show ?thesis using Inl res by (auto simp: deliver_append)
  next
    case (Inr w1)
    with ended.hyps(3) res have "err1" by auto
    with all p have "ps = ps1 \<and> err"
      by (subst (asm) parse_frames_append [OF laws]) (auto split: prod.splits bool.splits)
    with Inr res \<open>err1\<close> show ?thesis by simp
  qed
qed

lemma recv_run_exists:
  assumes laws: "net_frame_laws no" and ring: "ring_laws ro bytes"
  shows "recv_run no ro bytes onRecv cs r w res \<Longrightarrow> next_frame no (bytes r) = Wait \<Longrightarrow> res \<noteq> None"
proof
  assume run: "recv_run no ro bytes onRecv cs r w res" "next_frame no (bytes r) = Wait" and "res = None"
  obtain ps err rest where "parse_frames no (bytes r @ concat cs) = (ps, err, rest)"
    by (cases "parse_frames no (bytes r @ concat cs)")
  from recv_run_parse [OF laws ring run this] \<open>res = None\<close> show False by simp
qed

section \<open>Properties\<close>

text \<open>
  C1: on a ring that holds well-formed frames and behind them the beginning of another one, the
  receive loop returns, hands exactly the decoded packets of these frames to OnRecvPacket, in
  order, reports no packet error and leaves exactly the incomplete frame in the ring.
\<close>

theorem recv_loop_delivers_frames:
  assumes "net_frame_laws no" and "ring_laws ro bytes"
    and "list_all2 (is_frame no) fs bs" and "next_frame no t = Wait" and "bytes r = concat fs @ t"
  shows "\<exists>r'. bytes r' = t \<and>
    recv_loop no ro onRecv r (rb_GetUseSize ro r) w =
      Some (obind (deliver onRecv bs w) (\<lambda>w'. Inr (r', False, w')))"
proof -
  have "parse_frames no (bytes r) = (bs, False, t)"
    using parse_frames_concat [OF assms(1,3,4)] assms(5) by simp
  from recv_loop_refines [OF assms(1,2) this] assms(2) show ?thesis
    by (simp add: ring_laws_def)
qed

text \<open>
  C2: cutting the byte stream into packets does not depend on how the transport delivers it. When
  the same bytes arrive at an empty ring in any two sequences of pieces, with one run of the
  receive loop after each piece, then both return and have the same effect on what OnRecvPacket
  works on (the same packets in the same order), the same stop or packet error, and without an
  error the same bytes left in the ring. In particular pieces have the effect of the whole stream
  at once, where the ring has room for it.
\<close>

theorem framing_chunk_independent:
  assumes "net_frame_laws no" and "ring_laws ro bytes" and "bytes r = []" and "bytes r' = []"
    and "recv_run no ro bytes onRecv cs r w res" and "recv_run no ro bytes onRecv ds r' w res'"
    and "concat cs = concat ds"
  shows "res \<noteq> None \<and> recv_view bytes res = recv_view bytes res'"
proof -
  have "next_frame no [] = Wait" by (simp add: next_frame_def)
  with assms(3,4) have waits: "next_frame no (bytes r) = Wait" "next_frame no (bytes r') = Wait" by simp_all
  obtain ps err rest where "parse_frames no (concat cs) = (ps, err, rest)"
    by (cases "parse_frames no (concat cs)")
  then have p: "parse_frames no (bytes r @ concat cs) = (ps, err, rest)"
    "parse_frames no (bytes r' @ concat ds) = (ps, err, rest)"
    using assms(3,4,7) by simp_all
  show ?thesis
    using recv_run_parse [OF assms(1,2,5) waits(1) p(1)] recv_run_parse [OF assms(1,2,6) waits(2) p(2)]
      recv_run_exists [OF assms(1,2,5) waits(1)] by simp
qed

text \<open>
  Once a header with a foreign code is at the front of the ring, the loop hands over
  nothing, reports no error and removes nothing, whatever follows the header: the session stays
  connected and never receives another packet.
\<close>

lemma foreign_code_stalls:
  assumes "ring_laws ro bytes" and "bytes r = header @ behind"
    and "length header = df_HEADER_SIZE no" and "alloc_with_header no header = Inr b"
    and "fst (nb_get_BYTE no b) \<noteq> m_byHeaderCode no"
  shows "recv_loop no ro onRecv r (rb_GetUseSize ro r) w = Some (Inr (r, False, w))"
  using assms(5) by (intro recv_loop_stalls [OF assms(1-4)])
    (auto simp: GetPayloadLength_def split: prod.split)

section \<open>Witnesses\<close>

text \<open>Frames of the concrete buffer of the External theory: code 119, length, payload.\<close>

definition sample_packet :: "u8 \<Rightarrow> NetBuffer" where
  "sample_packet x = \<lparr>m_pSerializeBuffer = [119, 1, 0, x] @ replicate 12 0,
     m_iRead = 3, m_iWrite = 4, m_iWriteLast = 0, m_bIsEncoded = False\<rparr>"

lemma sample_frame: "next_frame plain_net [119, 1, 0, x] = Packet (sample_packet x) []"
  by (simp add: next_frame_def alloc_with_header_def GetPayloadLength_def append_payload_def
      mem_put_def plain_net_def byte_at_def sample_packet_def)

lemma sample_tail: "next_frame plain_net [119, 2] = Wait"
  by (simp add: next_frame_def plain_net_def)

theorem recv_loop_delivers_frames_witness:
  "\<exists>r'. r' = [119, 2] \<and>
    recv_loop plain_net list_ring (\<lambda>b w. Inr (b # w)) [119, 1, 0, 65, 119, 1, 0, 66, 119, 2] 10 [] =
      Some (Inr (r', False, [sample_packet 66, sample_packet 65]))"
  using recv_loop_delivers_frames [OF plain_net_frame_laws list_ring_laws,
      where fs = "[[119, 1, 0, 65], [119, 1, 0, 66]]" and bs = "[sample_packet 65, sample_packet 66]"
        and t = "[119, 2]" and onRecv = "\<lambda>b w. Inr (b # w)" and w = "[]"
        and r = "[119, 1, 0, 65, 119, 1, 0, 66, 119, 2]"]
  by (simp add: is_frame_def sample_frame sample_tail list_ring_def)

lemma list_ring_run:
  "\<exists>res. recv_run no list_ring (\<lambda>r. r) onRecv cs r w res"
proof (induction cs arbitrary: r w)
  case Nil
  then show ?case by (blast intro: recv_run.finished)
next
  case (Cons c cs)
  let ?res = "recv_loop no list_ring onRecv (r @ c) (rb_GetUseSize list_ring (r @ c)) w"
  show ?case
  proof (cases "\<exists>r2 w2. ?res = Some (Inr (r2, False, w2))")
    case True
    then obtain r2 w2 where loop: "?res = Some (Inr (r2, False, w2))" by blast
    from Cons.IH obtain res where "recv_run no list_ring (\<lambda>r. r) onRecv cs r2 w2 res" by blast
    from recv_run.received [where bytes = "\<lambda>r. r", OF refl loop this] show ?thesis by blast
  next
    case False
    from recv_run.ended [where bytes = "\<lambda>r. r", OF refl refl False] show ?thesis by blast
  qed
qed

theorem framing_chunk_independent_witness:
  "\<exists>res res'. recv_run plain_net list_ring (\<lambda>r. r) (\<lambda>b w. Inr (b # w)) [[119, 1], [0, 65, 119], []] [] [] res \<and>
    recv_run plain_net list_ring (\<lambda>r. r) (\<lambda>b w. Inr (b # w)) [[119, 1, 0, 65, 119]] [] [] res' \<and>
    res \<noteq> None \<and> recv_view (\<lambda>r. r) res = Some (Inr (False, [sample_packet 65], [119])) \<and>
    recv_view (\<lambda>r. r) res' = recv_view (\<lambda>r. r) res"
proof -
  let ?run = "recv_run plain_net list_ring (\<lambda>r. r) (\<lambda>b w. Inr (b # w))"
  obtain res res' where runs: "?run [[119, 1], [0, 65, 119], []] [] [] res" "?run [[119, 1, 0, 65, 119]] [] [] res'"
    using list_ring_run [of plain_net "\<lambda>b w. Inr (b # w)"] by metis
  have "concat [[119, 1], [0, 65, 119], []] = concat [[119, 1, 0, 65, 119 :: u8]]" by simp
  note same = framing_chunk_independent [OF plain_net_frame_laws list_ring_laws refl refl runs this]
  have waits: "next_frame plain_net [] = Wait" "next_frame plain_net [119] = Wait"
    by (simp_all add: next_frame_def plain_net_def)
  have "parse_frames plain_net (concat [[119, 1, 0, 65]] @ [119]) = ([sample_packet 65], False, [119])"
    by (rule parse_frames_concat [OF plain_net_frame_laws _ waits(2)]) (simp add: is_frame_def sample_frame)
  then have p: "parse_frames plain_net ([] @ concat [[119, 1], [0, 65, 119], []]) = ([sample_packet 65], False, [119])"
    by simp
  from recv_run_parse [OF plain_net_frame_laws list_ring_laws runs(1) waits(1) p]
  have "recv_view (\<lambda>r. r) res = Some (Inr (False, [sample_packet 65], [119]))" by simp
  with runs same show ?thesis by (intro exI [of _ res] exI [of _ res']) simp
qed

lemma foreign_code_stalls_witness:
  "recv_loop plain_net list_ring (\<lambda>b w. Inr (b # w)) [120, 1, 0, 65] 4 [] =
     Some (Inr ([120, 1, 0, 65], False, []))"
proof -
  let ?b = "\<lparr>m_pSerializeBuffer = [120, 1, 0] @ replicate 13 0, m_iRead = 0, m_iWrite = 3,
    m_iWriteLast = 0, m_bIsEncoded = False\<rparr>"
  have "alloc_with_header plain_net [120, 1, 0] = Inr ?b"
    by (simp add: alloc_with_header_def mem_put_def plain_net_def)
  from foreign_code_stalls [OF list_ring_laws _ _ this, of "[120, 1, 0, 65]" "[65]"
      "\<lambda>b w. Inr (b # w)" "[]"]
  show ?thesis by (simp add: plain_net_def byte_at_def list_ring_def)
qed

end
