(* ===== verification/ScopeLock.thy ===== *)
theory ScopeLock
  imports Prelude
begin

text \<open>
  ScopeLock.h and ScopeLock.cpp: the guards that take a lock in their constructor and give it
  back in their destructor, over slim reader-writer locks and critical sections as one thread
  sees them. Neither SRW mode is recursive: a thread that asks for a lock it holds itself waits
  for ever. A critical section is recursive.
\<close>

section \<open>The locks of the system\<close>

datatype SRWLOCK = Unlocked | SharedBy nat | Exclusively

definition AcquireSRWLockExclusive :: "SRWLOCK \<Rightarrow> SRWLOCK outcome" where
  "AcquireSRWLockExclusive lock = (if lock = Unlocked then Inr Exclusively else Inl SelfDeadlock)"

fun AcquireSRWLockShared :: "SRWLOCK \<Rightarrow> SRWLOCK outcome" where
  "AcquireSRWLockShared Unlocked = Inr (SharedBy 1)"
| "AcquireSRWLockShared (SharedBy n) = Inr (SharedBy (Suc n))"
| "AcquireSRWLockShared Exclusively = Inl SelfDeadlock"

definition ReleaseSRWLockExclusive :: "SRWLOCK \<Rightarrow> SRWLOCK outcome" where
  "ReleaseSRWLockExclusive lock = (if lock = Exclusively then Inr Unlocked else Inl UndefinedBehaviour)"

fun ReleaseSRWLockShared :: "SRWLOCK \<Rightarrow> SRWLOCK outcome" where
  "ReleaseSRWLockShared (SharedBy n) =
     (if n = 0 then Inl UndefinedBehaviour else Inr (if n = 1 then Unlocked else SharedBy (n - 1)))"
| "ReleaseSRWLockShared _ = Inl UndefinedBehaviour"

text \<open>A critical section, by the number of times its thread has entered it.\<close>

type_synonym CRITICAL_SECTION = nat

section \<open>The guards\<close>

definition ScopeSRWLock :: "bool \<Rightarrow> SRWLOCK \<Rightarrow> SRWLOCK outcome" where
  "ScopeSRWLock exclusive lock =
     (if exclusive then AcquireSRWLockExclusive lock else AcquireSRWLockShared lock)"

definition ScopeSRWLock_dtor :: "bool \<Rightarrow> SRWLOCK \<Rightarrow> SRWLOCK outcome" where
  "ScopeSRWLock_dtor exclusive lock =
     (if exclusive then ReleaseSRWLockExclusive lock else ReleaseSRWLockShared lock)"

definition ScopeCriticalSection :: "CRITICAL_SECTION \<Rightarrow> CRITICAL_SECTION" where
  "ScopeCriticalSection lock = lock + 1"

definition ScopeCriticalSection_dtor :: "CRITICAL_SECTION \<Rightarrow> CRITICAL_SECTION outcome" where
  "ScopeCriticalSection_dtor lock = (if lock = 0 then Inl UndefinedBehaviour else Inr (lock - 1))"

text \<open>
  A block with a guard at its start, on a state that holds the lock: \<open>get\<close> and \<open>put\<close> reach it.
\<close>

definition scoped ::
  "bool \<Rightarrow> ('s \<Rightarrow> SRWLOCK) \<Rightarrow> (SRWLOCK \<Rightarrow> 's \<Rightarrow> 's) \<Rightarrow> ('s \<Rightarrow> ('a \<times> 's) outcome) \<Rightarrow> 's \<Rightarrow> ('a \<times> 's) outcome"
where
  "scoped exclusive get put body s =
     obind (ScopeSRWLock exclusive (get s)) (\<lambda>lock.
       obind (body (put lock s)) (\<lambda>(r, s).
         obind (ScopeSRWLock_dtor exclusive (get s)) (\<lambda>lock. Inr (r, put lock s))))"

lemma scope_balanced:
  "ScopeSRWLock exclusive lock = Inr lock' \<Longrightarrow> lock \<noteq> SharedBy 0 \<Longrightarrow> ScopeSRWLock_dtor exclusive lock' = Inr lock"
  by (cases lock)
    (auto simp: ScopeSRWLock_def ScopeSRWLock_dtor_def AcquireSRWLockExclusive_def
      ReleaseSRWLockExclusive_def split: if_splits)

lemma scoped_held: "get s = Exclusively \<Longrightarrow> scoped exclusive get put body s = Inl SelfDeadlock"
  by (simp add: scoped_def ScopeSRWLock_def AcquireSRWLockExclusive_def)

text \<open>A body that returns and leaves the lock alone leaves the block with the lock as it was.\<close>

lemma scoped_free:
  assumes "get s = Unlocked" and "\<And>l t. get (put l t) = l"
    and "\<And>l. body (put l s) = Inr (r, put l t)" and "\<And>l l' t. put l (put l' t) = put l t"
  shows "scoped exclusive get put body s = Inr (r, put Unlocked t)"
  using assms
  by (simp add: scoped_def ScopeSRWLock_def ScopeSRWLock_dtor_def AcquireSRWLockExclusive_def
      ReleaseSRWLockExclusive_def)

end
