(* ===== verification/Server.thy ===== *)
theory Server
  imports SendStream Framing ScopeLock
begin

text \<open>
  RIOTestServer and RIOTestSession: the sessions, the map that finds them, the contexts handed
  to the kernel and the counters, with every operation from the accept of a client to the
  release of its session. The operations are those of RIOTestServer.cpp, in its order, on an
  explicit state; the theory Lifecycle proves what they keep.

  The Windows calls answer through an oracle: \<open>rio_ok n\<close> is whether the \<open>n\<close>-th call of the
  registered I/O interface is accepted.
\<close>

section \<open>RIOTestSession.h\<close>

record IOContext =
  ownerSessionId :: SessionId
  ioType :: RIO_OPERATION_TYPE
  BufferId :: "nat option"
  Length :: u32
  Offset :: u32

text \<open>
  A session. Buffer and queue handles of the kernel are \<open>None\<close> when they are invalid. The
  handle of the send buffer, a member of SendItem, stands beside it here.
\<close>

record ('r, 'q) RIOTestSession =
  socket :: u64
  sessionId :: SessionId
  sendDisconnect :: bool
  ioCancle :: bool
  isReleasedSession :: bool
  threadId :: u8
  ioCount :: u32
  recvRingBuffer :: 'r
  recvBufferId :: "nat option"
  sendItem :: "'q SendItem"
  sendBufferId :: "nat option"
  rioRQ :: "nat option"
  rioRecvOffset :: u32

definition INVALID_SOCKET :: u64 where "INVALID_SOCKET = - 1"

section \<open>The state of the server\<close>

text \<open>
  Sessions are shared objects: \<open>heap\<close> holds them by address and never loses one, \<open>sessionMap\<close>
  is the table. \<open>sessionIdSet\<close> is the member of Broadcaster. \<open>contextPool\<close> is the pool,
  \<open>contextAt\<close> the contents of its objects; \<open>pending\<close> are the contexts that were accepted by
  RIOReceive or RIOSend and whose completion no worker has looked at yet. The last fields record
  what the kernel was asked for.
\<close>

record ('r, 'q, 'p) server =
  heap :: "nat \<Rightarrow> ('r, 'q) RIOTestSession"
  nextAddr :: nat
  sessionMap :: "SessionId \<rightharpoonup> nat"
  sessionMapLock :: SRWLOCK
  nextSessionId :: SessionId
  sessionCount :: u32
  numOfSessionInWorkerThread :: "u32 list"
  maxClientCount :: u32
  sessionIdSet :: "SessionId set"
  contextPool :: 'p
  contextAt :: "nat \<Rightarrow> IOContext"
  pending :: "nat list"
  rioCalls :: nat
  registeredBuffers :: "nat set"
  closedSockets :: "u64 list"
  shutdowns :: "u64 list"

text \<open>What the server is linked with.\<close>

record ('r, 'q, 'p) server_ops =
  so_net :: net_ops
  so_ring :: "'r ring_ops"
  so_empty_ring :: 'r
  so_queue :: "(NetBuffer, 'q) queue_ops"
  so_empty_queue :: 'q
  so_pool :: "'p pool_ops"
  rio_ok :: "nat \<Rightarrow> bool"
  DEFAULT_RINGBUFFER_MAX :: u32

abbreviation upd_session ::
  "nat \<Rightarrow> (('r, 'q) RIOTestSession \<Rightarrow> ('r, 'q) RIOTestSession) \<Rightarrow> ('r, 'q, 'p) server \<Rightarrow> ('r, 'q, 'p) server" where
  "upd_session a f s \<equiv> s\<lparr>heap := (heap s)(a := f (heap s a))\<rparr>"

text \<open>SCOPE_READ_LOCK and SCOPE_WRITE_LOCK of \<open>sessionMapLock\<close>.\<close>

definition with_map_lock ::
  "bool \<Rightarrow> (('r, 'q, 'p) server \<Rightarrow> ('a \<times> ('r, 'q, 'p) server) outcome) \<Rightarrow>
   ('r, 'q, 'p) server \<Rightarrow> ('a \<times> ('r, 'q, 'p) server) outcome" where
  "with_map_lock exclusive body s =
     scoped exclusive sessionMapLock (\<lambda>l s. s\<lparr>sessionMapLock := l\<rparr>) body s"

section \<open>Sessions and threads\<close>

text \<open>The loop of GetMinimumSessionThreadId over the threads from \<open>tid\<close> on.\<close>

fun minimum_thread :: "u32 list \<Rightarrow> u8 \<Rightarrow> u32 \<Rightarrow> u8 \<Rightarrow> u8" where
  "minimum_thread [] tid minimumSessionCount targetThreadId = targetThreadId"
| "minimum_thread (c # cs) tid minimumSessionCount targetThreadId =
     (if c = 0 then tid
      else if c < minimumSessionCount then minimum_thread cs (tid + 1) c tid
      else minimum_thread cs (tid + 1) minimumSessionCount targetThreadId)"

definition GetMinimumSessionThreadId :: "('r, 'q, 'p) server \<Rightarrow> u8" where
  "GetMinimumSessionThreadId s = minimum_thread (numOfSessionInWorkerThread s) 0 (maxClientCount s) 0"

text \<open>The ratio before the conversion to float, which is exact where CheckRebalancingSession compares.\<close>

definition GetSessionRationInThisThread :: "u8 \<Rightarrow> ('r, 'q, 'p) server \<Rightarrow> u32 outcome" where
  "GetSessionRationInThisThread tid s =
     (if unat tid < length (numOfSessionInWorkerThread s) then
        let thisSessionCount = numOfSessionInWorkerThread s ! unat tid;
            count = fold (\<lambda>sessionCount count. count + sessionCount) (numOfSessionInWorkerThread s) 0
        in if thisSessionCount = 0 then Inl UndefinedBehaviour else Inr (count div thisSessionCount)
      else Inl UndefinedBehaviour)"

definition CheckRebalancingSession :: "u8 \<Rightarrow> ('r, 'q, 'p) server \<Rightarrow> bool outcome" where
  "CheckRebalancingSession tid s =
     obind (GetSessionRationInThisThread tid s) (\<lambda>ratio. Inr (ratio > 50))"

definition RebalanceSessionToThread :: "('r, 'q, 'p) server \<Rightarrow> ('r, 'q, 'p) server" where
  "RebalanceSessionToThread s = s"

definition GetSessionCount :: "('r, 'q, 'p) server \<Rightarrow> u32" where
  "GetSessionCount s = sessionCount s"

definition GetSession ::
  "SessionId \<Rightarrow> ('r, 'q, 'p) server \<Rightarrow> (nat option \<times> ('r, 'q, 'p) server) outcome" where
  "GetSession k s = with_map_lock False (\<lambda>s. Inr (sessionMap s k, s)) s"

definition Disconnect :: "SessionId \<Rightarrow> ('r, 'q, 'p) server \<Rightarrow> ('r, 'q, 'p) server outcome" where
  "Disconnect k s =
     obind (with_map_lock False (\<lambda>s. Inr ((), case sessionMap s k of
         None \<Rightarrow> s
       | Some a \<Rightarrow> s\<lparr>shutdowns := shutdowns s @ [socket (heap s a)]\<rparr>)) s) (\<lambda>(_, s). Inr s)"

text \<open>\<open>Disconnect\<close> of the session at \<open>a\<close>.\<close>

definition session_Disconnect :: "nat \<Rightarrow> ('r, 'q, 'p) server \<Rightarrow> ('r, 'q, 'p) server outcome" where
  "session_Disconnect a s = Disconnect (sessionId (heap s a)) s"

section \<open>Broadcaster and release\<close>

definition OnSessionEntered :: "SessionId \<Rightarrow> ('r, 'q, 'p) server \<Rightarrow> ('r, 'q, 'p) server" where
  "OnSessionEntered k s = s\<lparr>sessionIdSet := insert k (sessionIdSet s)\<rparr>"

definition OnSessionLeaved :: "SessionId \<Rightarrow> ('r, 'q, 'p) server \<Rightarrow> ('r, 'q, 'p) server" where
  "OnSessionLeaved k s = s\<lparr>sessionIdSet := sessionIdSet s - {k}\<rparr>"

text \<open>\<open>RIODeregisterBuffer\<close> of the two buffers.\<close>

definition OnSessionReleased :: "nat \<Rightarrow> ('r, 'q, 'p) server \<Rightarrow> ('r, 'q, 'p) server" where
  "OnSessionReleased a s = s\<lparr>registeredBuffers :=
     registeredBuffers s - set_option (recvBufferId (heap s a)) - set_option (sendBufferId (heap s a))\<rparr>"

definition ReleaseSession :: "nat \<Rightarrow> ('r, 'q, 'p) server \<Rightarrow> ('r, 'q, 'p) server outcome" where
  "ReleaseSession a s =
     (let s = s\<lparr>closedSockets := closedSockets s @ [socket (heap s a)]\<rparr>;
          t = unat (threadId (heap s a))
      in if \<not> t < length (numOfSessionInWorkerThread s) then Inl UndefinedBehaviour
         else
           (let s = s\<lparr>numOfSessionInWorkerThread :=
                  (numOfSessionInWorkerThread s)[t := numOfSessionInWorkerThread s ! t - 1]\<rparr>;
                s = s\<lparr>sessionCount := sessionCount s - 1\<rparr>
            in obind (with_map_lock True (\<lambda>s. Inr ((),
                   s\<lparr>sessionMap := (sessionMap s)(sessionId (heap s a) := None)\<rparr>)) s) (\<lambda>(_, s).
                 let s = OnSessionReleased a s
                 in Inr (upd_session a (\<lambda>x. x\<lparr>socket := INVALID_SOCKET\<rparr>) s))))"

definition IOCountDecrement :: "nat \<Rightarrow> ('r, 'q, 'p) server \<Rightarrow> ('r, 'q, 'p) server outcome" where
  "IOCountDecrement a s =
     (let s = upd_session a (\<lambda>x. x\<lparr>ioCount := ioCount x - 1\<rparr>) s
      in if ioCount (heap s a) = 0
         then ReleaseSession a (OnSessionLeaved (sessionId (heap s a)) s)
         else Inr s)"

section \<open>Contexts\<close>

text \<open>\<open>contextPool.Alloc()\<close> followed by the assignments of RecvPost and SendPost.\<close>

definition alloc_context ::
  "('r, 'q, 'p) server_ops \<Rightarrow> IOContext \<Rightarrow> ('r, 'q, 'p) server \<Rightarrow> nat \<times> ('r, 'q, 'p) server" where
  "alloc_context ops ctx s =
     (case pool_Alloc (so_pool ops) (contextPool s) of
        (c, pool) \<Rightarrow> (c, s\<lparr>contextPool := pool, contextAt := (contextAt s)(c := ctx)\<rparr>))"

definition free_context ::
  "('r, 'q, 'p) server_ops \<Rightarrow> nat \<Rightarrow> ('r, 'q, 'p) server \<Rightarrow> ('r, 'q, 'p) server" where
  "free_context ops c s = s\<lparr>contextPool := pool_Free (so_pool ops) c (contextPool s)\<rparr>"

text \<open>A call of RIOReceive or RIOSend: an accepted context becomes pending.\<close>

definition rio_post ::
  "('r, 'q, 'p) server_ops \<Rightarrow> nat \<Rightarrow> ('r, 'q, 'p) server \<Rightarrow> bool \<times> ('r, 'q, 'p) server" where
  "rio_post ops c s =
     (if rio_ok ops (rioCalls s)
      then (True, s\<lparr>rioCalls := rioCalls s + 1, pending := pending s @ [c]\<rparr>)
      else (False, s\<lparr>rioCalls := rioCalls s + 1\<rparr>))"

section \<open>Posting\<close>

text \<open>RecvPost up to and including the call of RIOReceive.\<close>

definition RecvPost_receive ::
  "('r, 'q, 'p) server_ops \<Rightarrow> nat \<Rightarrow> ('r, 'q, 'p) server \<Rightarrow> bool \<times> ('r, 'q, 'p) server" where
  "RecvPost_receive ops a s =
     (let ring = recvRingBuffer (heap s a);
          brokenSize = rb_GetNotBrokenGetSize (so_ring ops) ring;
          restSize = rb_GetNotBrokenPutSize (so_ring ops) ring - brokenSize;
          (c, s) = alloc_context ops \<lparr>ownerSessionId = sessionId (heap s a), ioType = OP_RECV,
             BufferId = recvBufferId (heap s a), Length = word_of_int restSize,
             Offset = rioRecvOffset (heap s a) mod DEFAULT_RINGBUFFER_MAX ops\<rparr> s
      in rio_post ops c s)"

definition RecvPost ::
  "('r, 'q, 'p) server_ops \<Rightarrow> nat \<Rightarrow> ('r, 'q, 'p) server \<Rightarrow> IO_POST_ERROR \<times> ('r, 'q, 'p) server" where
  "RecvPost ops a s =
     (case RecvPost_receive ops a s of
        (posted, s) \<Rightarrow>
          if \<not> posted then (FAILED_RECV_POST, s)
          else (SUCCESS, upd_session a (\<lambda>x. x\<lparr>ioCount := ioCount x + 1\<rparr>) s))"

text \<open>
  SendPost with its call of RIOSend and its loop. After an accepted send the exchange of the
  next round fails, so as one thread runs it there are at most two rounds.
\<close>

definition SendPost_send ::
  "('r, 'q, 'p) server_ops \<Rightarrow> nat \<Rightarrow> ('r, 'q, 'p) server \<Rightarrow> (bool \<times> ('r, 'q, 'p) server) outcome" where
  "SendPost_send ops a s =
     obind (MakeSendStream (so_net ops) (so_queue ops) (sendItem (heap s a))) (\<lambda>(len, item).
       let (c, s) = alloc_context ops \<lparr>ownerSessionId = sessionId (heap s a), ioType = OP_SEND,
             BufferId = sendBufferId (heap s a), Length = len, Offset = 0\<rparr> s;
           s = upd_session a (\<lambda>x. x\<lparr>sendItem := item\<rparr>) s;
           s = upd_session a (\<lambda>x. x\<lparr>ioCount := ioCount x + 1\<rparr>) s
       in Inr (rio_post ops c s))"

abbreviation set_ioMode :: "nat \<Rightarrow> IO_MODE \<Rightarrow> ('r, 'q, 'p) server \<Rightarrow> ('r, 'q, 'p) server" where
  "set_ioMode a m s \<equiv> upd_session a (\<lambda>x. x\<lparr>sendItem := (sendItem x)\<lparr>ioMode := m\<rparr>\<rparr>) s"

lemma stream_loop_ioMode:
  "stream_loop no qo n t item = Inr (t', item') \<Longrightarrow> ioMode item' = ioMode item"
proof (induction n arbitrary: t item)
  case (Suc n)
  then show ?case
    by (fastforce simp: Let_def outcome_simps split: prod.splits option.splits if_splits)
qed simp

lemma MakeSendStream_ioMode:
  "MakeSendStream no qo item = Inr (len, item') \<Longrightarrow> ioMode item' = ioMode item"
  by (auto simp: MakeSendStream_def take_reserved_def Let_def outcome_simps
      split: option.splits dest!: stream_loop_ioMode)

lemma SendPost_sendE:
  assumes "SendPost_send ops a s = Inr (posted, s')"
  obtains len item c pool where
    "MakeSendStream (so_net ops) (so_queue ops) (sendItem (heap s a)) = Inr (len, item)"
    and "pool_Alloc (so_pool ops) (contextPool s) = (c, pool)"
    and "posted = rio_ok ops (rioCalls s)"
    and "s' = s\<lparr>contextPool := pool,
        contextAt := (contextAt s)(c := \<lparr>ownerSessionId = sessionId (heap s a), ioType = OP_SEND,
             BufferId = sendBufferId (heap s a), Length = len, Offset = 0\<rparr>),
        heap := (heap s)(a := (heap s a)\<lparr>sendItem := item, ioCount := ioCount (heap s a) + 1\<rparr>),
        rioCalls := rioCalls s + 1,
        pending := (if posted then pending s @ [c] else pending s)\<rparr>"
proof -
  obtain c pool where p: "pool_Alloc (so_pool ops) (contextPool s) = (c, pool)" by fastforce
  obtain len item where m: "MakeSendStream (so_net ops) (so_queue ops) (sendItem (heap s a)) = Inr (len, item)"
    using assms by (auto simp: SendPost_send_def outcome_simps)
  show thesis
    using assms by (intro that [OF m p])
      (auto simp: SendPost_send_def p m alloc_context_def rio_post_def Let_def split: if_splits)
qed

lemma SendPost_send_ioMode:
  assumes "SendPost_send ops a s = Inr (posted, s')"
  shows "ioMode (sendItem (heap s' a)) = ioMode (sendItem (heap s a))"
  using assms by (elim SendPost_sendE) (auto dest: MakeSendStream_ioMode)

function SendPost ::
  "('r, 'q, 'p) server_ops \<Rightarrow> nat \<Rightarrow> ('r, 'q, 'p) server \<Rightarrow> (IO_POST_ERROR \<times> ('r, 'q, 'p) server) outcome" where
  "SendPost ops a s =
     (if ioMode (sendItem (heap s a)) \<noteq> IO_NONE_SENDING then Inr (SUCCESS, s)
      else
        (let s = set_ioMode a IO_SENDING s;
             restSize = q_GetRestSize (so_queue ops) (sendQueue (sendItem (heap s a)))
         in if restSize = 0 \<and> reservedBuffer (sendItem (heap s a)) = None then
              (let s = set_ioMode a IO_NONE_SENDING s
               in if q_GetRestSize (so_queue ops) (sendQueue (sendItem (heap s a))) > 0
                  then SendPost ops a s
                  else Inr (SUCCESS, s))
            else
              obind (SendPost_send ops a s) (\<lambda>(posted, s).
                if \<not> posted then
                  obind (IOCountDecrement a s) (\<lambda>s. Inr (FAILED_SEND_POST, s))
                else SendPost ops a s)))"
  by pat_completeness auto
termination
  by (relation "measure (\<lambda>(ops, a, s). if ioMode (sendItem (heap s a)) = IO_NONE_SENDING then 1 else 0)")
    (auto dest: SendPost_send_ioMode)

declare SendPost.simps [simp del]

text \<open>\<open>Encode\<close> on first use, then the queue.\<close>

definition encode_packet :: "net_ops \<Rightarrow> NetBuffer \<Rightarrow> NetBuffer" where
  "encode_packet no packet =
     (if m_bIsEncoded packet then packet
      else nb_Encode no (packet\<lparr>m_iWriteLast := m_iWrite packet, m_iWrite := 0, m_iRead := 0\<rparr>))"

definition SendPacket ::
  "('r, 'q, 'p) server_ops \<Rightarrow> nat \<Rightarrow> NetBuffer \<Rightarrow> ('r, 'q, 'p) server \<Rightarrow> ('r, 'q, 'p) server outcome" where
  "SendPacket ops a packet s =
     (let packet = encode_packet (so_net ops) packet;
          s = upd_session a (\<lambda>x. x\<lparr>sendItem := (sendItem x)\<lparr>sendQueue :=
                q_Enqueue (so_queue ops) packet (sendQueue (sendItem x))\<rparr>\<rparr>) s
      in obind (SendPost ops a s) (\<lambda>(_, s). Inr s))"

definition SendPacketAndDisconnect ::
  "('r, 'q, 'p) server_ops \<Rightarrow> nat \<Rightarrow> NetBuffer \<Rightarrow> ('r, 'q, 'p) server \<Rightarrow> ('r, 'q, 'p) server outcome" where
  "SendPacketAndDisconnect ops a packet s =
     SendPacket ops a packet (upd_session a (\<lambda>x. x\<lparr>sendDisconnect := True\<rparr>) s)"

section \<open>Accepting\<close>

definition GetNewSession ::
  "('r, 'q, 'p) server_ops \<Rightarrow> u64 \<Rightarrow> u8 \<Rightarrow> ('r, 'q, 'p) server \<Rightarrow> nat option \<times> ('r, 'q, 'p) server" where
  "GetNewSession ops enteredClientSocket t s =
     (let newSessionId = nextSessionId s + 1;
          s = s\<lparr>nextSessionId := newSessionId\<rparr>
      in if newSessionId = INVALID_SESSION_ID then (None, s)
         else
           (Some (nextAddr s),
            s\<lparr>heap := (heap s)(nextAddr s :=
                \<lparr>socket = enteredClientSocket, sessionId = newSessionId, sendDisconnect = False,
                 ioCancle = False, isReleasedSession = False, threadId = t, ioCount = 0,
                 recvRingBuffer = so_empty_ring ops, recvBufferId = None,
                 sendItem = \<lparr>sendQueue = so_empty_queue ops, rioSendBuffer = replicate 16384 0,
                   reservedBuffer = None, ioMode = IO_NONE_SENDING\<rparr>,
                 sendBufferId = None, rioRQ = None, rioRecvOffset = 0\<rparr>),
              nextAddr := nextAddr s + 1\<rparr>))"

text \<open>
  \<open>RIORegisterBuffer\<close> and \<open>RIOCreateRequestQueue\<close>, which give a fresh handle when they are
  accepted.
\<close>

definition RIORegisterBuffer ::
  "('r, 'q, 'p) server_ops \<Rightarrow> ('r, 'q, 'p) server \<Rightarrow> nat option \<times> ('r, 'q, 'p) server" where
  "RIORegisterBuffer ops s =
     (let n = rioCalls s; s = s\<lparr>rioCalls := rioCalls s + 1\<rparr>
      in if rio_ok ops n then (Some n, s\<lparr>registeredBuffers := insert n (registeredBuffers s)\<rparr>)
         else (None, s))"

definition RIOCreateRequestQueue ::
  "('r, 'q, 'p) server_ops \<Rightarrow> ('r, 'q, 'p) server \<Rightarrow> nat option \<times> ('r, 'q, 'p) server" where
  "RIOCreateRequestQueue ops s =
     (let n = rioCalls s; s = s\<lparr>rioCalls := rioCalls s + 1\<rparr>
      in if rio_ok ops n then (Some n, s) else (None, s))"

definition InitSession ::
  "('r, 'q, 'p) server_ops \<Rightarrow> nat \<Rightarrow> ('r, 'q, 'p) server \<Rightarrow> bool \<times> ('r, 'q, 'p) server" where
  "InitSession ops a s =
     (case RIORegisterBuffer ops s of (bufferId, s) \<Rightarrow>
        let s = upd_session a (\<lambda>x. x\<lparr>recvBufferId := bufferId\<rparr>) s
        in if bufferId = None then (False, s)
           else case RIORegisterBuffer ops s of (bufferId, s) \<Rightarrow>
             let s = upd_session a (\<lambda>x. x\<lparr>sendBufferId := bufferId\<rparr>) s
             in if bufferId = None then (False, s)
                else case RIOCreateRequestQueue ops s of (rq, s) \<Rightarrow>
                  let s = upd_session a (\<lambda>x. x\<lparr>rioRQ := rq\<rparr>) s
                  in if rq = None then (False, s) else (True, s))"

text \<open>
  The end of MakeNewSession, from the first RecvPost on. \<open>OnClientEntered\<close> is the empty virtual
  function of RIOTestSession.
\<close>

definition start_session ::
  "('r, 'q, 'p) server_ops \<Rightarrow> nat \<Rightarrow> ('r, 'q, 'p) server \<Rightarrow> (bool \<times> ('r, 'q, 'p) server) outcome" where
  "start_session ops a s =
     (case RecvPost ops a s of (_, s) \<Rightarrow>
        obind (IOCountDecrement a s) (\<lambda>s.
          let s = OnSessionEntered (sessionId (heap s a)) s
          in Inr (True, s)))"

definition emplace_session ::
  "nat \<Rightarrow> ('r, 'q, 'p) server \<Rightarrow> (bool \<times> ('r, 'q, 'p) server) outcome" where
  "emplace_session a s =
     with_map_lock True (\<lambda>s.
       let k = sessionId (heap s a)
       in case sessionMap s k of
            None \<Rightarrow> Inr (True, s\<lparr>sessionMap := (sessionMap s)(k \<mapsto> a)\<rparr>)
          | Some _ \<Rightarrow> obind (IOCountDecrement a s) (\<lambda>s. Inr (False, s))) s"

text \<open>
  \<open>rioCQList[threadId]\<close> and \<open>numOfSessionInWorkerThread[threadId]\<close> exist for the worker threads
  only; StartServer fills the two vectors together.
\<close>

definition MakeNewSession ::
  "('r, 'q, 'p) server_ops \<Rightarrow> u64 \<Rightarrow> ('r, 'q, 'p) server \<Rightarrow> (bool \<times> ('r, 'q, 'p) server) outcome" where
  "MakeNewSession ops enteredClientSocket s =
     (let t = GetMinimumSessionThreadId s
      in case GetNewSession ops enteredClientSocket t s of
           (None, s) \<Rightarrow> Inr (False, s)
         | (Some a, s) \<Rightarrow>
             if \<not> unat t < length (numOfSessionInWorkerThread s) then Inl UndefinedBehaviour
             else
               (let s = upd_session a (\<lambda>x. x\<lparr>ioCount := ioCount x + 1\<rparr>) s
                in case InitSession ops a s of
                     (False, s) \<Rightarrow> Inr (False, s)
                   | (True, s) \<Rightarrow>
                       (let s = s\<lparr>numOfSessionInWorkerThread := (numOfSessionInWorkerThread s)
                              [unat t := numOfSessionInWorkerThread s ! unat t + 1]\<rparr>
                        in obind (emplace_session a s) (\<lambda>(emplaced, s).
                             if emplaced then start_session ops a s
                             else obind (ReleaseSession a s) (\<lambda>s. Inr (False, s))))))"

text \<open>One round of Accepter's loop with a socket that \<open>accept\<close> returned.\<close>

definition Accepter ::
  "('r, 'q, 'p) server_ops \<Rightarrow> u64 \<Rightarrow> ('r, 'q, 'p) server \<Rightarrow> ('r, 'q, 'p) server outcome" where
  "Accepter ops enteredClientSocket s =
     obind (MakeNewSession ops enteredClientSocket s) (\<lambda>(made, s).
       if \<not> made then Inr (s\<lparr>closedSockets := closedSockets s @ [enteredClientSocket]\<rparr>)
       else Inr (s\<lparr>sessionCount := sessionCount s + 1\<rparr>))"

section \<open>Completions\<close>

text \<open>
  RecvCompleted. \<open>onRecv a\<close> is \<open>session.OnRecvPacket\<close> of the session at \<open>a\<close>; the ring, which
  only the server reaches, is threaded beside the state.
\<close>

definition RecvCompleted ::
  "('r, 'q, 'p) server_ops \<Rightarrow> (nat \<Rightarrow> NetBuffer \<Rightarrow> ('r, 'q, 'p) server \<Rightarrow> ('r, 'q, 'p) server outcome) \<Rightarrow>
   nat \<Rightarrow> u32 \<Rightarrow> ('r, 'q, 'p) server \<Rightarrow> (IO_POST_ERROR \<times> ('r, 'q, 'p) server) outcome option" where
  "RecvCompleted ops onRecv a transferred s =
     (let ring = rb_MoveWritePos (so_ring ops) (uint transferred) (recvRingBuffer (heap s a));
          restSize = rb_GetUseSize (so_ring ops) ring
      in rbind (recv_loop (so_net ops) (so_ring ops) (onRecv a) ring restSize s) (\<lambda>(ring, packetError, s).
           let s = upd_session a (\<lambda>x. x\<lparr>recvRingBuffer := ring\<rparr>) s;
               s = upd_session a (\<lambda>x. x\<lparr>rioRecvOffset := rioRecvOffset x + transferred\<rparr>) s
           in case RecvPost ops a s of (result, s) \<Rightarrow>
                if packetError then Some (obind (ReleaseSession a s) (\<lambda>s. Inr (result, s)))
                else Some (Inr (result, s))))"

definition SendCompleted ::
  "('r, 'q, 'p) server_ops \<Rightarrow> nat \<Rightarrow> ('r, 'q, 'p) server \<Rightarrow> (IO_POST_ERROR \<times> ('r, 'q, 'p) server) outcome" where
  "SendCompleted ops a s =
     (if sendDisconnect (heap s a)
      then obind (Disconnect (sessionId (heap s a)) s) (\<lambda>s. Inr (SUCCESS, s))
      else SendPost ops a s)"

definition InvalidIOCompleted ::
  "('r, 'q, 'p) server_ops \<Rightarrow> nat \<Rightarrow> ('r, 'q, 'p) server \<Rightarrow> ('r, 'q, 'p) server outcome" where
  "InvalidIOCompleted ops c s =
     obind (GetSession (ownerSessionId (contextAt s c)) s) (\<lambda>(session, s).
       obind (case session of None \<Rightarrow> Inr s | Some a \<Rightarrow> IOCountDecrement a s) (\<lambda>s.
         Inr (free_context ops c s)))"

definition RecvIOCompleted ::
  "('r, 'q, 'p) server_ops \<Rightarrow> (nat \<Rightarrow> NetBuffer \<Rightarrow> ('r, 'q, 'p) server \<Rightarrow> ('r, 'q, 'p) server outcome) \<Rightarrow>
   u32 \<Rightarrow> nat \<Rightarrow> ('r, 'q, 'p) server \<Rightarrow> (IO_POST_ERROR \<times> ('r, 'q, 'p) server) outcome option" where
  "RecvIOCompleted ops onRecv transferred a s = RecvCompleted ops onRecv a transferred s"

definition SendIOCompleted ::
  "('r, 'q, 'p) server_ops \<Rightarrow> nat \<Rightarrow> ('r, 'q, 'p) server \<Rightarrow> (IO_POST_ERROR \<times> ('r, 'q, 'p) server) outcome" where
  "SendIOCompleted ops a s = SendCompleted ops a (set_ioMode a IO_NONE_SENDING s)"

definition IOCompleted ::
  "('r, 'q, 'p) server_ops \<Rightarrow> (nat \<Rightarrow> NetBuffer \<Rightarrow> ('r, 'q, 'p) server \<Rightarrow> ('r, 'q, 'p) server outcome) \<Rightarrow>
   nat \<Rightarrow> u32 \<Rightarrow> nat \<Rightarrow> ('r, 'q, 'p) server \<Rightarrow> (IO_POST_ERROR \<times> ('r, 'q, 'p) server) outcome option" where
  "IOCompleted ops onRecv c transferred a s =
     (if ioType (contextAt s c) = OP_RECV then RecvIOCompleted ops onRecv transferred a s
      else if ioType (contextAt s c) = OP_SEND then Some (SendIOCompleted ops a s)
      else Some (obind (InvalidIOCompleted ops c s) (\<lambda>s. Inr (INVALID_OPERATION_TYPE, s))))"

text \<open>The context and the session of a completion, or \<open>None\<close> for one that needs no more work.\<close>

definition GetIOCompletedContext ::
  "('r, 'q, 'p) server_ops \<Rightarrow> nat option \<Rightarrow> u32 \<Rightarrow> ('r, 'q, 'p) server \<Rightarrow>
   ((nat \<times> nat) option \<times> ('r, 'q, 'p) server) outcome" where
  "GetIOCompletedContext ops requestContext bytesTransferred s =
     (case requestContext of
        None \<Rightarrow> Inr (None, s)
      | Some c \<Rightarrow>
          obind (GetSession (ownerSessionId (contextAt s c)) s) (\<lambda>(session, s).
            case session of
              None \<Rightarrow> Inr (None, free_context ops c s)
            | Some a \<Rightarrow>
                if bytesTransferred = 0 \<or> ioCancle (heap s a) then
                  obind (IOCountDecrement a (free_context ops c s)) (\<lambda>s. Inr (None, s))
                else Inr (Some (c, a), s)))"

section \<open>Worker\<close>

text \<open>A RIORESULT: the request context and the bytes transferred; all zero it is \<open>(None, 0)\<close>.\<close>

type_synonym RIORESULT = "nat option \<times> u32"

text \<open>The body of the loop over the results.\<close>

definition process_result ::
  "('r, 'q, 'p) server_ops \<Rightarrow> (nat \<Rightarrow> NetBuffer \<Rightarrow> ('r, 'q, 'p) server \<Rightarrow> ('r, 'q, 'p) server outcome) \<Rightarrow>
   RIORESULT \<Rightarrow> ('r, 'q, 'p) server \<Rightarrow> ('r, 'q, 'p) server outcome option" where
  "process_result ops onRecv rioResult s =
     (let s = s\<lparr>pending := (case fst rioResult of None \<Rightarrow> pending s | Some c \<Rightarrow> remove1 c (pending s))\<rparr>
      in rbind (Some (GetIOCompletedContext ops (fst rioResult) (snd rioResult) s)) (\<lambda>(contextResult, s).
           case contextResult of
             None \<Rightarrow> Some (Inr s)
           | Some (c, a) \<Rightarrow>
               rbind (IOCompleted ops onRecv c (snd rioResult) a s) (\<lambda>(result, s).
                 if result = INVALID_OPERATION_TYPE then Some (Inr s)
                 else
                   (let s = free_context ops c s
                    in if result = IS_DELETED_SESSION then Some (Inr s)
                       else Some (IOCountDecrement a s)))))"

text \<open>
  The loop over \<open>rioResults[0 .. numOfResults - 1]\<close>; the array holds MAX_RIO_RESULT results.
\<close>

fun process_results ::
  "('r, 'q, 'p) server_ops \<Rightarrow> (nat \<Rightarrow> NetBuffer \<Rightarrow> ('r, 'q, 'p) server \<Rightarrow> ('r, 'q, 'p) server outcome) \<Rightarrow>
   nat \<Rightarrow> RIORESULT list \<Rightarrow> ('r, 'q, 'p) server \<Rightarrow> ('r, 'q, 'p) server outcome option" where
  "process_results ops onRecv 0 rioResults s = Some (Inr s)"
| "process_results ops onRecv (Suc n) [] s = Some (Inl UndefinedBehaviour)"
| "process_results ops onRecv (Suc n) (r # rs) s =
     rbind (process_result ops onRecv r s) (process_results ops onRecv n rs)"

record TickSet =
  nowTick :: u64
  beforeTick :: u64

text \<open>The time slept, and the ticks after the frame; \<open>now\<close> is what GetTickCount64 returns.\<close>

definition SleepRemainingFrameTime :: "u64 \<Rightarrow> TickSet \<Rightarrow> u32 \<times> TickSet" where
  "SleepRemainingFrameTime now tickSet =
     (let tickSet = tickSet\<lparr>nowTick := now\<rparr>;
          deltaTick = nowTick tickSet - beforeTick tickSet;
          slept = (if deltaTick < ONE_FRAME \<and> deltaTick > 0 then 33 - ucast deltaTick else 0)
      in (slept, tickSet\<lparr>beforeTick := nowTick tickSet\<rparr>))"

text \<open>
  A frame of Worker as its environment answers: the flag \<open>serverStop\<close>, what RIODequeueCompletion
  returns and writes at the start of the zeroed array, and the tick.
\<close>

record worker_frame =
  wf_serverStop :: bool
  wf_numOfResults :: u32
  wf_rioResults :: "RIORESULT list"
  wf_tick :: u64

definition rio_results :: "worker_frame \<Rightarrow> RIORESULT list" where
  "rio_results f = take MAX_RIO_RESULT (wf_rioResults f @ replicate MAX_RIO_RESULT (None, 0))"

fun Worker ::
  "('r, 'q, 'p) server_ops \<Rightarrow> (nat \<Rightarrow> NetBuffer \<Rightarrow> ('r, 'q, 'p) server \<Rightarrow> ('r, 'q, 'p) server outcome) \<Rightarrow>
   worker_frame list \<Rightarrow> TickSet \<Rightarrow> ('r, 'q, 'p) server \<Rightarrow> ('r, 'q, 'p) server outcome option" where
  "Worker ops onRecv [] tickSet s = Some (Inr s)"
| "Worker ops onRecv (f # fs) tickSet s =
     (if wf_serverStop f then Some (Inr s)
      else rbind (process_results ops onRecv (unat (wf_numOfResults f)) (rio_results f) s) (\<lambda>s.
             Worker ops onRecv fs (snd (SleepRemainingFrameTime (wf_tick f) tickSet)) s))"

text \<open>RIOTestServer::RIODequeueCompletion, the checked call that Worker does not use.\<close>

definition RIODequeueCompletion :: "u32 \<Rightarrow> u32 outcome" where
  "RIODequeueCompletion numOfResults =
     (if numOfResults = 0 then Inr 0
      else if numOfResults = 0xFFFFFFFF then Inl Crash
      else Inr numOfResults)"

end
