(* ===== verification/Lifecycle.thy ===== *)
theory Lifecycle
  imports Server
begin

text \<open>
  What the operations of RIOTestServer keep. The invariant ties the I/O count of every session
  in the map to its pending contexts, bounds these to one receive and one send, and ties the
  counters of the server to the map, up to the sessions that were released twice. The locale
  \<open>session_handler\<close> is the contract of the code that OnRecvPacket runs; the code's own dispatch is
  its interpretation.
\<close>

section \<open>The invariant\<close>

text \<open>Pending contexts of a session, and those of one kind.\<close>

definition pend :: "('r, 'q, 'p) server \<Rightarrow> SessionId \<Rightarrow> nat" where
  "pend s k = length (filter (\<lambda>c. ownerSessionId (contextAt s c) = k) (pending s))"

definition pend_op :: "('r, 'q, 'p) server \<Rightarrow> RIO_OPERATION_TYPE \<Rightarrow> SessionId \<Rightarrow> nat" where
  "pend_op s op k =
     length (filter (\<lambda>c. ownerSessionId (contextAt s c) = k \<and> ioType (contextAt s c) = op) (pending s))"

text \<open>
  \<open>hold\<close> is the session, if any, that the running operation has counted once beside the
  pending contexts: the one whose completion is being processed.
\<close>

definition held :: "SessionId option \<Rightarrow> SessionId \<Rightarrow> nat" where
  "held hold k = (if hold = Some k then 1 else 0)"

definition live_ok :: "SessionId option \<Rightarrow> ('r, 'q, 'p) server \<Rightarrow> SessionId \<Rightarrow> nat \<Rightarrow> bool" where
  "live_ok hold s k a \<longleftrightarrow>
     a < nextAddr s \<and> sessionId (heap s a) = k \<and> k \<le> nextSessionId s \<and>
     unat (threadId (heap s a)) < length (numOfSessionInWorkerThread s) \<and>
     ioCount (heap s a) = of_nat (pend s k + held hold k) \<and> 0 < pend s k + held hold k \<and>
     pend_op s OP_RECV k \<le> 1 \<and> pend_op s OP_SEND k \<le> 1 \<and>
     (ioMode (sendItem (heap s a)) = IO_NONE_SENDING \<longrightarrow> pend_op s OP_SEND k = 0)"

text \<open>
  The counters of the server. \<open>lost\<close> are the worker threads of the sessions that were released
  twice so far: each such release has taken the counters down once too often.
\<close>

definition counts_lost :: "nat list \<Rightarrow> ('r, 'q, 'p) server \<Rightarrow> bool" where
  "counts_lost lost s \<longleftrightarrow>
     finite (dom (sessionMap s)) \<and>
     sessionCount s = of_nat (card (dom (sessionMap s))) - of_nat (length lost) \<and>
     (\<forall>t < length (numOfSessionInWorkerThread s). numOfSessionInWorkerThread s ! t =
        of_nat (card {k. \<exists>a. sessionMap s k = Some a \<and> unat (threadId (heap s a)) = t}) -
        of_nat (count_list lost t))"

definition posts_ok :: "('p \<Rightarrow> nat set) \<Rightarrow> ('r, 'q, 'p) server \<Rightarrow> bool" where
  "posts_ok used s \<longleftrightarrow>
     distinct (pending s) \<and>
     (\<forall>c \<in> set (pending s). c \<in> used (contextPool s) \<and> ownerSessionId (contextAt s c) \<le> nextSessionId s \<and>
        ioType (contextAt s c) \<in> {OP_RECV, OP_SEND})"

definition inv_lost :: "('p \<Rightarrow> nat set) \<Rightarrow> nat list \<Rightarrow> SessionId option \<Rightarrow> ('r, 'q, 'p) server \<Rightarrow> bool" where
  "inv_lost used lost hold s \<longleftrightarrow>
     sessionMapLock s = Unlocked \<and> (\<forall>k a. sessionMap s k = Some a \<longrightarrow> live_ok hold s k a) \<and>
     counts_lost lost s \<and> posts_ok used s"

text \<open>The invariant of a server in which no session was released twice.\<close>

abbreviation server_inv :: "('p \<Rightarrow> nat set) \<Rightarrow> SessionId option \<Rightarrow> ('r, 'q, 'p) server \<Rightarrow> bool" where
  "server_inv used \<equiv> inv_lost used []"

lemma server_inv_live: "inv_lost used lost hold s \<Longrightarrow> sessionMap s k = Some a \<Longrightarrow> live_ok hold s k a"
  by (simp add: inv_lost_def)

lemma live_ok_held: "held hold k = held hold' k \<Longrightarrow> live_ok hold s k a \<longleftrightarrow> live_ok hold' s k a"
  by (simp add: live_ok_def)

lemma drop_hold:
  assumes "inv_lost used lost (Some k) s" and "sessionMap s k = None"
  shows "inv_lost used lost None s"
proof -
  have "live_ok None s k' a" if "sessionMap s k' = Some a" for k' a
  proof -
    have "k' \<noteq> k" using that assms(2) by auto
    then have "held (Some k) k' = held None k'" by (simp add: held_def)
    from live_ok_held [OF this] show ?thesis using server_inv_live [OF assms(1) that] by blast
  qed
  then show ?thesis using assms(1) by (simp add: inv_lost_def)
qed

lemma server_inv_same_addr:
  "inv_lost used lost hold s \<Longrightarrow> sessionMap s k = Some a \<Longrightarrow> sessionMap s k' = Some a \<Longrightarrow> k' = k"
  using server_inv_live [of used lost hold s k a] server_inv_live [of used lost hold s k' a]
  by (simp add: live_ok_def)

lemma pend_split:
  "posts_ok used s \<Longrightarrow> pend s k = pend_op s OP_RECV k + pend_op s OP_SEND k"
proof -
  assume "posts_ok used s"
  then have "\<forall>c \<in> set cs. ioType (contextAt s c) \<in> {OP_RECV, OP_SEND}" if "set cs \<subseteq> set (pending s)" for cs
    using that unfolding posts_ok_def by blast
  then have "\<forall>c \<in> set cs. ioType (contextAt s c) \<in> {OP_RECV, OP_SEND} \<Longrightarrow>
      length (filter (\<lambda>c. ownerSessionId (contextAt s c) = k) cs) =
      length (filter (\<lambda>c. ownerSessionId (contextAt s c) = k \<and> ioType (contextAt s c) = OP_RECV) cs) +
      length (filter (\<lambda>c. ownerSessionId (contextAt s c) = k \<and> ioType (contextAt s c) = OP_SEND) cs)" for cs
    by (induction cs) auto
  then show ?thesis
    using \<open>\<And>cs. set cs \<subseteq> set (pending s) \<Longrightarrow> _\<close> [of "pending s"] by (simp add: pend_def pend_op_def)
qed

text \<open>A live session has at most two pending contexts.\<close>

lemma live_pend_le:
  assumes "inv_lost used lost hold s" and "sessionMap s k = Some a"
  shows "pend s k \<le> 2"
  using server_inv_live [OF assms] pend_split [of used s k] assms(1)
  by (auto simp: live_ok_def inv_lost_def)

text \<open>A list of contexts is counted the same where the contents agree.\<close>

lemma filter_context_cong:
  "(\<And>c. c \<in> set cs \<Longrightarrow> f c = g c) \<Longrightarrow>
   length (filter (\<lambda>c. P (f c)) cs) = length (filter (\<lambda>c. P (g c)) cs)"
  by (rule arg_cong [of _ _ length], rule filter_cong) simp_all

section \<open>Changes to one session\<close>

text \<open>
  \<open>touches a k new s s'\<close>: the step changed nothing but the session \<open>k\<close> at \<open>a\<close>, the pool, and
  the list of pending contexts, to which it added the contexts \<open>new\<close> of this session.
\<close>

definition touches ::
  "('p \<Rightarrow> nat set) \<Rightarrow> nat \<Rightarrow> SessionId \<Rightarrow> nat list \<Rightarrow> ('r, 'q, 'p) server \<Rightarrow> ('r, 'q, 'p) server \<Rightarrow> bool" where
  "touches used a k new s s' \<longleftrightarrow>
     sessionMapLock s' = sessionMapLock s \<and> sessionMap s' = sessionMap s \<and>
     nextSessionId s' = nextSessionId s \<and> nextAddr s' = nextAddr s \<and> sessionCount s' = sessionCount s \<and>
     numOfSessionInWorkerThread s' = numOfSessionInWorkerThread s \<and> sessionIdSet s' = sessionIdSet s \<and>
     (\<forall>b. b \<noteq> a \<longrightarrow> heap s' b = heap s b) \<and>
     sessionId (heap s' a) = sessionId (heap s a) \<and> threadId (heap s' a) = threadId (heap s a) \<and>
     pending s' = pending s @ new \<and> distinct new \<and> set new \<inter> used (contextPool s) = {} \<and>
     used (contextPool s) \<subseteq> used (contextPool s') \<and>
     (\<forall>c \<in> set (pending s). contextAt s' c = contextAt s c) \<and>
     (\<forall>c \<in> set new. c \<in> used (contextPool s') \<and> ownerSessionId (contextAt s' c) = k \<and>
        ioType (contextAt s' c) \<in> {OP_RECV, OP_SEND})"

lemma touches_pend:
  assumes "touches used a k new s s'"
  shows "pend s' k' = pend s k' + (if k' = k then length new else 0)"
proof -
  have "length (filter (\<lambda>c. ownerSessionId (contextAt s' c) = k') (pending s)) = pend s k'"
    unfolding pend_def using assms by (intro filter_context_cong) (simp add: touches_def)
  moreover have "filter (\<lambda>c. ownerSessionId (contextAt s' c) = k') new = (if k' = k then new else [])"
    using assms by (auto simp: touches_def intro: filter_True filter_False)
  moreover have "pending s' = pending s @ new"
    using assms by (simp add: touches_def)
  ultimately show ?thesis by (simp add: pend_def)
qed

lemma touches_pend_op:
  assumes "touches used a k new s s'"
  shows "pend_op s' op k' = pend_op s op k' +
    (if k' = k then length (filter (\<lambda>c. ioType (contextAt s' c) = op) new) else 0)"
proof -
  have "length (filter (\<lambda>c. ownerSessionId (contextAt s' c) = k' \<and> ioType (contextAt s' c) = op) (pending s)) =
      pend_op s op k'"
    unfolding pend_op_def using assms by (intro arg_cong [of _ _ length] filter_cong) (simp_all add: touches_def)
  moreover have "filter (\<lambda>c. ownerSessionId (contextAt s' c) = k' \<and> ioType (contextAt s' c) = op) new =
      (if k' = k then filter (\<lambda>c. ioType (contextAt s' c) = op) new else [])"
    using assms by (auto simp: touches_def filter_empty_conv intro: filter_cong)
  moreover have "pending s' = pending s @ new"
    using assms by (simp add: touches_def)
  ultimately show ?thesis by (simp add: pend_op_def)
qed

text \<open>Such a step keeps the invariant if it keeps it for the one session.\<close>

lemma touches_inv:
  assumes inv: "inv_lost used lost hold s" and live: "sessionMap s k = Some a" and t: "touches used a k new s s'"
    and here: "live_ok hold' s' k a" and hold: "\<And>k'. k' \<noteq> k \<Longrightarrow> held hold' k' = held hold k'"
  shows "inv_lost used lost hold' s'"
proof -
  have same: "sessionMapLock s' = sessionMapLock s" "sessionMap s' = sessionMap s"
    "nextSessionId s' = nextSessionId s" "nextAddr s' = nextAddr s" "sessionCount s' = sessionCount s"
    "numOfSessionInWorkerThread s' = numOfSessionInWorkerThread s"
    and heap: "\<And>b. b \<noteq> a \<Longrightarrow> heap s' b = heap s b" "threadId (heap s' a) = threadId (heap s a)"
    using t by (simp_all add: touches_def)
  have "live_ok hold' s' k' a'" if m: "sessionMap s' k' = Some a'" for k' a'
  proof (cases "k' = k")
    case True
    with m live same here show ?thesis by simp
  next
    case False
    with m live same server_inv_same_addr [OF inv live, of k'] have "a' \<noteq> a" by auto
    moreover have "live_ok hold s k' a'"
      using m same server_inv_live [OF inv] by simp
    ultimately show ?thesis
      using False same heap by (simp add: live_ok_def touches_pend [OF t] touches_pend_op [OF t] hold)
  qed
  moreover have "threadId (heap s' b) = threadId (heap s b)" for b
    using heap by (cases "b = a") simp_all
  then have "counts_lost lost s'"
    using inv same by (simp add: inv_lost_def counts_lost_def)
  moreover have "posts_ok used s'"
  proof -
    have "k \<le> nextSessionId s" using server_inv_live [OF inv live] by (simp add: live_ok_def)
    with inv t show ?thesis
      unfolding inv_lost_def posts_ok_def touches_def by auto
  qed
  ultimately show ?thesis
    using inv same by (simp add: inv_lost_def)
qed

section \<open>Posting on a live session\<close>

lemma u32_of_nat_eq_0: "n < 2 ^ 32 \<Longrightarrow> (of_nat n :: u32) = 0 \<longleftrightarrow> n = 0"
  by (simp add: word_of_nat_eq_0_iff nat_dvd_not_less) (auto dest: dvd_imp_le)

lemma SendPost_cases [consumes 1, case_names closed idle sent refused]:
  assumes "SendPost ops a s = Inr (r, s')"
  obtains "ioMode (sendItem (heap s a)) = IO_SENDING" and "r = SUCCESS" and "s' = s"
  | "ioMode (sendItem (heap s a)) = IO_NONE_SENDING" and "r = SUCCESS"
    and "s' = set_ioMode a IO_NONE_SENDING (set_ioMode a IO_SENDING s)"
  | "ioMode (sendItem (heap s a)) = IO_NONE_SENDING" and "r = SUCCESS"
    and "SendPost_send ops a (set_ioMode a IO_SENDING s) = Inr (True, s')"
  | s1 where "ioMode (sendItem (heap s a)) = IO_NONE_SENDING" and "r = FAILED_SEND_POST"
    and "SendPost_send ops a (set_ioMode a IO_SENDING s) = Inr (False, s1)"
    and "IOCountDecrement a s1 = Inr s'"
proof (cases "ioMode (sendItem (heap s a)) = IO_NONE_SENDING")
  case False
  then have "ioMode (sendItem (heap s a)) = IO_SENDING" by (cases "ioMode (sendItem (heap s a))") simp_all
  moreover have "SendPost ops a s = Inr (SUCCESS, s)"
    using False by (subst SendPost.simps) simp
  ultimately show ?thesis using assms that(1) by simp
next
  case True
  let ?s = "set_ioMode a IO_SENDING s"
  let ?i = "sendItem (heap s a)"
  have eq: "SendPost ops a s =
     (if q_GetRestSize (so_queue ops) (sendQueue ?i) = 0 \<and> reservedBuffer ?i = None
      then Inr (SUCCESS, set_ioMode a IO_NONE_SENDING ?s)
      else obind (SendPost_send ops a ?s) (\<lambda>(posted, s).
        if \<not> posted then obind (IOCountDecrement a s) (\<lambda>s. Inr (FAILED_SEND_POST, s)) else SendPost ops a s))"
    using True by (subst SendPost.simps) (simp add: Let_def)
  show ?thesis
  proof (cases "q_GetRestSize (so_queue ops) (sendQueue ?i) = 0 \<and> reservedBuffer ?i = None")
    case idle: True
    with assms eq that(2) True show ?thesis by simp
  next
    case False
    with assms eq obtain posted s1 where send: "SendPost_send ops a ?s = Inr (posted, s1)"
      and rest: "(if \<not> posted then obind (IOCountDecrement a s1) (\<lambda>s. Inr (FAILED_SEND_POST, s)) else SendPost ops a s1) =
        Inr (r, s')"
      by (auto simp: outcome_simps)
    have "ioMode (sendItem (heap s1 a)) = IO_SENDING"
      using SendPost_send_ioMode [OF send] by simp
    then have "SendPost ops a s1 = Inr (SUCCESS, s1)"
      by (subst SendPost.simps) simp
    with send rest that(3,4) True show ?thesis
      by (cases posted) (auto simp: outcome_simps)
  qed
qed

lemma touches_refl: "touches used a k [] s s"
  by (simp add: touches_def)

lemma SendPost_touches:
  assumes pool: "pool_laws (so_pool ops) used" and inv: "inv_lost used lost hold s"
    and live: "sessionMap s k = Some a" and post: "SendPost ops a s = Inr (r, s')"
  shows "\<exists>new. touches used a k new s s' \<and> live_ok hold s' k a \<and> (\<forall>c \<in> set new. ioType (contextAt s' c) = OP_SEND)"
proof -
  have ok: "live_ok hold s k a" by (rule server_inv_live [OF inv live])
  have used: "set (pending s) \<subseteq> used (contextPool s)"
    using inv by (auto simp: inv_lost_def posts_ok_def)
  have few: "pend s k + held hold k < 2 ^ 32"
    using live_pend_le [OF inv live] by (simp add: held_def)
  show ?thesis
    using post
  proof (cases rule: SendPost_cases)
    case closed
    with ok touches_refl [of used a k s] show ?thesis by (intro exI [of _ "[]"]) simp
  next
    case idle
    have "touches used a k [] s s'"
      using used idle by (auto simp: touches_def)
    moreover have "live_ok hold s' k a"
      using ok idle touches_pend [OF calculation] touches_pend_op [OF calculation]
      by (simp add: live_ok_def)
    ultimately show ?thesis by (intro exI [of _ "[]"]) simp
  next
    case sent
    from sent(3) show ?thesis
    proof (cases rule: SendPost_sendE)
      case (1 len item c pool)
      have c: "c \<notin> used (contextPool s)" "used pool = insert c (used (contextPool s))"
        using pool_laws_Alloc [OF pool, of "contextPool s" c pool] 1(2) by simp_all
      with used have fresh: "c \<notin> set (pending s)" by auto
      have id: "sessionId (heap s a) = k" using ok by (simp add: live_ok_def)
      have t: "touches used a k [c] s s'"
        unfolding touches_def 1(4) using c fresh used id by auto
      have "ioType (contextAt s' c) = OP_SEND" "ioMode (sendItem (heap s' a)) = IO_SENDING"
        "ioCount (heap s' a) = ioCount (heap s a) + 1"
        using MakeSendStream_ioMode [OF 1(1)] by (simp_all add: 1(4))
      moreover have "pend_op s OP_SEND k = 0" using ok sent(1) by (simp add: live_ok_def)
      ultimately have "live_ok hold s' k a"
        using ok t touches_pend [OF t, of k] touches_pend_op [OF t, of _ k]
        by (simp add: live_ok_def touches_def)
      with t 1 show ?thesis by (intro exI [of _ "[c]"]) simp
    qed
  next
    case (refused s1)
    from refused(3) show ?thesis
    proof (cases rule: SendPost_sendE)
      case (1 len item c pool)
      have c: "c \<notin> used (contextPool s)" "used pool = insert c (used (contextPool s))"
        using pool_laws_Alloc [OF pool, of "contextPool s" c pool] 1(2) by simp_all
      with used have fresh: "c \<notin> set (pending s)" by auto
      have count: "ioCount (heap s1 a) - 1 = ioCount (heap s a)" by (simp add: 1(4))
      moreover have "ioCount (heap s a) \<noteq> 0"
        using ok few u32_of_nat_eq_0 [of "pend s k + held hold k"] by (simp add: live_ok_def)
      ultimately have "ioCount (heap s1 a) - 1 \<noteq> 0" by simp
      then have s': "s' = upd_session a (\<lambda>x. x\<lparr>ioCount := ioCount x - 1\<rparr>) s1"
        using refused(4) by (simp add: IOCountDecrement_def)
      have t: "touches used a k [] s s'"
        unfolding touches_def s' 1(4) using c fresh used by auto
      moreover have "ioMode (sendItem (heap s' a)) = IO_SENDING" "ioCount (heap s' a) = ioCount (heap s a)"
        using MakeSendStream_ioMode [OF 1(1)] by (simp_all add: 1(4) s')
      ultimately have "live_ok hold s' k a"
        using ok touches_pend [OF t, of k] touches_pend_op [OF t, of _ k]
        by (simp add: live_ok_def touches_def)
      with t show ?thesis by (intro exI [of _ "[]"]) simp
    qed
  qed
qed

text \<open>
  What a session's handler may do to the rest of the server: contexts that are in use and not
  pending stay so, no receive is posted or taken, and the map and the set of the Broadcaster
  keep their entries.
\<close>

definition keeps :: "('p \<Rightarrow> nat set) \<Rightarrow> ('r, 'q, 'p) server \<Rightarrow> ('r, 'q, 'p) server \<Rightarrow> bool" where
  "keeps used s s' \<longleftrightarrow>
     sessionMap s' = sessionMap s \<and> sessionIdSet s' = sessionIdSet s \<and> nextSessionId s' = nextSessionId s \<and>
     pend_op s' OP_RECV = pend_op s OP_RECV \<and>
     used (contextPool s) - set (pending s) \<subseteq> used (contextPool s') - set (pending s')"

lemma keeps_refl: "keeps used s s"
  by (simp add: keeps_def)

lemma keeps_trans: "keeps used s s' \<Longrightarrow> keeps used s' s'' \<Longrightarrow> keeps used s s''"
  by (auto simp: keeps_def)

lemma touches_keeps:
  assumes "touches used a k new s s'" and "\<forall>c \<in> set new. ioType (contextAt s' c) = OP_SEND"
  shows "keeps used s s'"
proof -
  have "pend_op s' OP_RECV k' = pend_op s OP_RECV k'" for k'
    using assms(2) by (auto simp: touches_pend_op [OF assms(1)] filter_empty_conv)
  then show ?thesis
    using assms(1) by (auto simp: keeps_def touches_def fun_eq_iff)
qed

lemma SendPost_keeps:
  assumes "pool_laws (so_pool ops) used" and "inv_lost used lost hold s"
    and "sessionMap s k = Some a" and "SendPost ops a s = Inr (r, s')"
  shows "inv_lost used lost hold s' \<and> keeps used s s'"
  using SendPost_touches [OF assms] touches_inv [OF assms(2,3)] touches_keeps by blast

lemma upd_session_keeps:
  assumes inv: "inv_lost used lost hold s" and live: "sessionMap s k = Some a"
    and "sessionId (f (heap s a)) = sessionId (heap s a)" "threadId (f (heap s a)) = threadId (heap s a)"
    and "ioCount (f (heap s a)) = ioCount (heap s a)"
    and "ioMode (sendItem (f (heap s a))) = ioMode (sendItem (heap s a))"
  shows "inv_lost used lost hold (upd_session a f s)" and "keeps used s (upd_session a f s)"
proof -
  have t: "touches used a k [] s (upd_session a f s)"
    using assms(3,4) by (simp add: touches_def)
  moreover have "live_ok hold (upd_session a f s) k a"
    using server_inv_live [OF inv live] assms(3-6) touches_pend [OF t] touches_pend_op [OF t]
    by (simp add: live_ok_def)
  ultimately show "inv_lost used lost hold (upd_session a f s)" "keeps used s (upd_session a f s)"
    using touches_inv [OF inv live t] touches_keeps [OF t] by auto
qed

lemma SendPacket_keeps:
  assumes pool: "pool_laws (so_pool ops) used" and inv: "inv_lost used lost hold s"
    and live: "sessionMap s k = Some a" and send: "SendPacket ops a p s = Inr s'"
  shows "inv_lost used lost hold s' \<and> keeps used s s'"
proof -
  let ?s = "upd_session a (\<lambda>x. x\<lparr>sendItem := (sendItem x)\<lparr>sendQueue :=
    q_Enqueue (so_queue ops) (encode_packet (so_net ops) p) (sendQueue (sendItem x))\<rparr>\<rparr>) s"
  obtain r where post: "SendPost ops a ?s = Inr (r, s')"
    using send by (auto simp: SendPacket_def Let_def outcome_simps)
  have s: "inv_lost used lost hold ?s" "keeps used s ?s"
    by (rule upd_session_keeps [OF inv live]; simp)+
  moreover have "sessionMap ?s k = Some a" using live by simp
  ultimately show ?thesis
    using SendPost_keeps [OF pool s(1) _ post] keeps_trans [OF s(2)] by blast
qed

text \<open>RecvPost on a session without a pending receive.\<close>

lemma RecvPostE:
  assumes "RecvPost ops a s = (r, s')"
  obtains c pool ctx where "pool_Alloc (so_pool ops) (contextPool s) = (c, pool)"
    and "ownerSessionId ctx = sessionId (heap s a)" and "ioType ctx = OP_RECV"
    and "r = (if rio_ok ops (rioCalls s) then SUCCESS else FAILED_RECV_POST)"
    and "s' = s\<lparr>contextPool := pool, contextAt := (contextAt s)(c := ctx), rioCalls := rioCalls s + 1,
        pending := (if r = SUCCESS then pending s @ [c] else pending s),
        heap := (if r = SUCCESS then (heap s)(a := (heap s a)\<lparr>ioCount := ioCount (heap s a) + 1\<rparr>) else heap s)\<rparr>"
proof -
  obtain c pool where p: "pool_Alloc (so_pool ops) (contextPool s) = (c, pool)" by fastforce
  show thesis
    using assms
    by (intro that [OF p, of "contextAt s' c"])
      (auto simp: RecvPost_def RecvPost_receive_def alloc_context_def rio_post_def p Let_def split: if_splits)
qed

lemma RecvPost_touches:
  assumes pool: "pool_laws (so_pool ops) used" and inv: "inv_lost used lost hold s"
    and live: "sessionMap s k = Some a" and post: "RecvPost ops a s = (r, s')"
    and none: "pend_op s OP_RECV k = 0"
  shows "\<exists>new. touches used a k new s s' \<and> live_ok hold s' k a \<and> length new = (if r = SUCCESS then 1 else 0)"
proof -
  have ok: "live_ok hold s k a" by (rule server_inv_live [OF inv live])
  have used: "set (pending s) \<subseteq> used (contextPool s)"
    using inv by (auto simp: inv_lost_def posts_ok_def)
  from post show ?thesis
  proof (cases rule: RecvPostE)
    case (1 c pool ctx)
    have c: "c \<notin> used (contextPool s)" "used pool = insert c (used (contextPool s))"
      using pool_laws_Alloc [OF pool, of "contextPool s" c pool] 1(1) by simp_all
    with used have fresh: "c \<notin> set (pending s)" by auto
    have id: "sessionId (heap s a) = k" using ok by (simp add: live_ok_def)
    let ?new = "if r = SUCCESS then [c] else []"
    have t: "touches used a k ?new s s'"
      unfolding touches_def 1(5) using c fresh used id 1(2,3) by auto
    have "ioType (contextAt s' c) = OP_RECV" "sendItem (heap s' a) = sendItem (heap s a)"
      "ioCount (heap s' a) = ioCount (heap s a) + of_nat (length ?new)"
      using 1(3) by (auto simp: 1(5))
    then have "live_ok hold s' k a"
      using ok t none touches_pend [OF t, of k] touches_pend_op [OF t, of _ k]
      by (auto simp: live_ok_def touches_def)
    with t show ?thesis by (intro exI [of _ ?new]) simp
  qed
qed

section \<open>Taking a completion and letting it go\<close>

lemma free_context_inv:
  assumes "pool_laws (so_pool ops) used" and "inv_lost used lost hold s" and "c \<notin> set (pending s)"
  shows "inv_lost used lost hold (free_context ops c s)"
  using assms pool_laws_Free [OF assms(1)]
  by (auto simp: inv_lost_def live_ok_def counts_lost_def posts_ok_def free_context_def pend_def pend_op_def)

lemma length_filter_remove1:
  "c \<in> set cs \<Longrightarrow> length (filter P cs) = length (filter P (remove1 c cs)) + (if P c then 1 else 0)"
proof (induction cs)
  case (Cons d cs)
  then show ?case by (cases "d = c") auto
qed simp

abbreviation take_completion :: "nat \<Rightarrow> ('r, 'q, 'p) server \<Rightarrow> ('r, 'q, 'p) server" where
  "take_completion c s \<equiv> s\<lparr>pending := remove1 c (pending s)\<rparr>"

lemma take_completion_pend:
  assumes "c \<in> set (pending s)"
  shows "pend s k = pend (take_completion c s) k + (if ownerSessionId (contextAt s c) = k then 1 else 0)"
    and "pend_op s op k = pend_op (take_completion c s) op k +
      (if ownerSessionId (contextAt s c) = k \<and> ioType (contextAt s c) = op then 1 else 0)"
  using length_filter_remove1 [OF assms, of "\<lambda>c. ownerSessionId (contextAt s c) = k"]
    length_filter_remove1 [OF assms, of "\<lambda>c. ownerSessionId (contextAt s c) = k \<and> ioType (contextAt s c) = op"]
  by (simp_all add: pend_def pend_op_def)

text \<open>From the moment a worker has the completion, the session is held by it.\<close>

lemma take_completion_inv:
  assumes inv: "inv_lost used lost None s" and c: "c \<in> set (pending s)"
  shows "inv_lost used lost (Some (ownerSessionId (contextAt s c))) (take_completion c s)"
proof -
  let ?o = "ownerSessionId (contextAt s c)"
  have "live_ok (Some ?o) (take_completion c s) k a" if "sessionMap s k = Some a" for k a
  proof -
    have l: "live_ok None s k a" by (rule server_inv_live [OF inv that])
    have eq: "pend s k + held None k = pend (take_completion c s) k + held (Some ?o) k"
      using take_completion_pend(1) [OF c, of k] by (simp add: held_def)
    have le: "pend_op (take_completion c s) op k \<le> pend_op s op k" for op
      using take_completion_pend(2) [OF c, of op k] by simp
    show ?thesis
      using l le [of OP_RECV] le [of OP_SEND] unfolding live_ok_def eq by auto
  qed
  moreover have "posts_ok used (take_completion c s)"
    using inv by (auto simp: inv_lost_def posts_ok_def dest: set_remove1_subset [THEN subsetD])
  ultimately show ?thesis
    using inv by (simp add: inv_lost_def counts_lost_def)
qed

text \<open>
  Releasing a live session: the other sessions and the counters are as the invariant wants
  them, whoever holds the released one.
\<close>

lemma ReleaseSession_Unlocked:
  assumes "sessionMapLock s = Unlocked" and "unat (threadId (heap s a)) < length (numOfSessionInWorkerThread s)"
  shows "ReleaseSession a s = Inr (s\<lparr>closedSockets := closedSockets s @ [socket (heap s a)],
     numOfSessionInWorkerThread := (numOfSessionInWorkerThread s)
       [unat (threadId (heap s a)) := numOfSessionInWorkerThread s ! unat (threadId (heap s a)) - 1],
     sessionCount := sessionCount s - 1,
     sessionMap := (sessionMap s)(sessionId (heap s a) := None),
     registeredBuffers := registeredBuffers s - set_option (recvBufferId (heap s a)) - set_option (sendBufferId (heap s a)),
     heap := (heap s)(a := (heap s a)\<lparr>socket := INVALID_SOCKET\<rparr>)\<rparr>)"
  using assms
  by (simp add: ReleaseSession_def with_map_lock_def scoped_def ScopeSRWLock_def ScopeSRWLock_dtor_def
      AcquireSRWLockExclusive_def ReleaseSRWLockExclusive_def OnSessionReleased_def Let_def)

definition inv_but ::
  "('p \<Rightarrow> nat set) \<Rightarrow> nat list \<Rightarrow> SessionId option \<Rightarrow> SessionId \<Rightarrow> nat \<Rightarrow> ('r, 'q, 'p) server \<Rightarrow> bool" where
  "inv_but used lost hold k a s \<longleftrightarrow>
     sessionMapLock s = Unlocked \<and> counts_lost lost s \<and> posts_ok used s \<and> sessionId (heap s a) = k \<and>
     unat (threadId (heap s a)) < length (numOfSessionInWorkerThread s) \<and>
     (\<forall>k' a'. k' \<noteq> k \<longrightarrow> sessionMap s k' = Some a' \<longrightarrow> a' \<noteq> a \<and> live_ok hold s k' a')"

lemma server_inv_but:
  assumes inv: "inv_lost used lost hold s" and live: "sessionMap s k = Some a"
  shows "inv_but used lost hold k a s"
proof -
  have "a' \<noteq> a \<and> live_ok hold s k' a'" if "k' \<noteq> k" "sessionMap s k' = Some a'" for k' a'
    using that server_inv_same_addr [OF inv live, of k'] server_inv_live [OF inv that(2)] by auto
  moreover have "live_ok hold s k a" by (rule server_inv_live [OF inv live])
  ultimately show ?thesis
    using inv unfolding inv_but_def by (simp add: inv_lost_def live_ok_def)
qed

lemma ReleaseSession_inv:
  assumes but: "inv_but used lost hold k a s" and live: "sessionMap s k = Some a"
    and release: "ReleaseSession a s = Inr s'"
    and hold: "\<And>k'. k' \<noteq> k \<Longrightarrow> held hold' k' = held hold k'"
  shows "inv_lost used lost hold' s'" and "sessionMap s' = (sessionMap s)(k := None)"
    and "sessionIdSet s' = sessionIdSet s" and "contextPool s' = contextPool s" and "pending s' = pending s"
    and "nextSessionId s' = nextSessionId s" and "heap s' a = (heap s a)\<lparr>socket := INVALID_SOCKET\<rparr>"
proof -
  let ?t = "unat (threadId (heap s a))"
  have t: "?t < length (numOfSessionInWorkerThread s)" using but by (simp add: inv_but_def)
  have id: "sessionId (heap s a) = k" using but by (simp add: inv_but_def)
  have s': "s' = s\<lparr>closedSockets := closedSockets s @ [socket (heap s a)],
     numOfSessionInWorkerThread := (numOfSessionInWorkerThread s)[?t := numOfSessionInWorkerThread s ! ?t - 1],
     sessionCount := sessionCount s - 1, sessionMap := (sessionMap s)(k := None),
     registeredBuffers := registeredBuffers s - set_option (recvBufferId (heap s a)) - set_option (sendBufferId (heap s a)),
     heap := (heap s)(a := (heap s a)\<lparr>socket := INVALID_SOCKET\<rparr>)\<rparr>"
    using release ReleaseSession_Unlocked [of s a] but t id by (simp add: inv_but_def)
  show "sessionMap s' = (sessionMap s)(k := None)" "sessionIdSet s' = sessionIdSet s"
    "contextPool s' = contextPool s" "pending s' = pending s" "nextSessionId s' = nextSessionId s"
    "heap s' a = (heap s a)\<lparr>socket := INVALID_SOCKET\<rparr>"
    by (simp_all add: s')
  have pend: "pend s' = pend s" "pend_op s' = pend_op s"
    by (simp_all add: s' pend_def [abs_def] pend_op_def [abs_def])
  have live': "live_ok hold' s' k' a'" if m: "sessionMap s' k' = Some a'" for k' a'
  proof -
    from m have "k' \<noteq> k" "sessionMap s k' = Some a'" by (simp_all add: s' split: if_splits)
    moreover from this have "a' \<noteq> a" "live_ok hold s k' a'" using but by (auto simp: inv_but_def)
    ultimately show ?thesis
      using hold [of k'] by (simp add: live_ok_def pend) (simp add: s')
  qed
  have fin: "finite (dom (sessionMap s))"
    and count: "sessionCount s = of_nat (card (dom (sessionMap s))) - of_nat (length lost)"
    and per: "\<And>i. i < length (numOfSessionInWorkerThread s) \<Longrightarrow> numOfSessionInWorkerThread s ! i =
        of_nat (card {k. \<exists>a. sessionMap s k = Some a \<and> unat (threadId (heap s a)) = i}) - of_nat (count_list lost i)"
    using but by (simp_all add: inv_but_def counts_lost_def)
  let ?on = "\<lambda>i. {k. \<exists>a. sessionMap s k = Some a \<and> unat (threadId (heap s a)) = i}"
  have on_fin: "finite (?on i)" for i
    by (rule finite_subset [OF _ fin]) auto
  have "sessionCount s' = of_nat (card (dom (sessionMap s'))) - of_nat (length lost)"
  proof -
    have "card (dom (sessionMap s)) = Suc (card (dom (sessionMap s) - {k}))"
      using live fin by (metis card_Suc_Diff1 domI)
    then show ?thesis by (simp add: s' count)
  qed
  moreover have "numOfSessionInWorkerThread s' ! i =
      of_nat (card {k. \<exists>a. sessionMap s' k = Some a \<and> unat (threadId (heap s' a)) = i}) - of_nat (count_list lost i)"
    if i: "i < length (numOfSessionInWorkerThread s')" for i
  proof -
    have "{k'. \<exists>a. sessionMap s' k' = Some a \<and> unat (threadId (heap s' a)) = i} = ?on i - {k}"
      by (auto simp: s' split: if_splits)
    moreover have "k \<in> ?on i \<longleftrightarrow> i = ?t" using live by auto
    moreover have "card (?on ?t) = Suc (card (?on ?t - {k}))"
      using live on_fin by (intro card_Suc_Diff1 [symmetric]) auto
    ultimately show ?thesis
      using per [of i] i t by (cases "i = ?t") (simp_all add: s')
  qed
  moreover have "finite (dom (sessionMap s'))" using fin by (simp add: s')
  ultimately have "counts_lost lost s'" by (simp add: counts_lost_def)
  moreover have "posts_ok used s'"
    using but by (simp add: inv_but_def posts_ok_def s')
  ultimately show "inv_lost used lost hold' s'"
    using live' but by (simp add: inv_lost_def inv_but_def) (simp add: s')
qed

text \<open>
  Letting go of a held session: it goes on living while it has a pending context, and is
  released, and forgotten by the Broadcaster, with the last one.
\<close>

lemma IOCountDecrement_inv:
  assumes inv: "inv_lost used lost (Some k) s" and live: "sessionMap s k = Some a"
    and dec: "IOCountDecrement a s = Inr s'"
  shows "inv_lost used lost None s'" and "contextPool s' = contextPool s" and "pending s' = pending s"
    and "nextSessionId s' = nextSessionId s" and "sessionMap s' = (if pend s k = 0 then (sessionMap s)(k := None) else sessionMap s)"
    and "sessionIdSet s' = (if pend s k = 0 then sessionIdSet s - {k} else sessionIdSet s)"
proof -
  have ok: "live_ok (Some k) s k a" by (rule server_inv_live [OF inv live])
  let ?s1 = "upd_session a (\<lambda>x. x\<lparr>ioCount := ioCount x - 1\<rparr>) s"
  have hold: "held None k' = held (Some k) k'" if "k' \<noteq> k" for k'
    using that by (simp add: held_def)
  have count: "ioCount (heap s a) - 1 = of_nat (pend s k)"
    using ok by (simp add: live_ok_def held_def)
  have "pend s k < 2 ^ 32" using live_pend_le [OF inv live] by simp
  from u32_of_nat_eq_0 [OF this] have zero: "ioCount (heap s a) - 1 = 0 \<longleftrightarrow> pend s k = 0"
    unfolding count .
  have id: "sessionId (heap s a) = k" using ok by (simp add: live_ok_def)
  have "inv_lost used lost None s' \<and> contextPool s' = contextPool s \<and> pending s' = pending s \<and>
    nextSessionId s' = nextSessionId s \<and> sessionMap s' = (if pend s k = 0 then (sessionMap s)(k := None) else sessionMap s) \<and>
    sessionIdSet s' = (if pend s k = 0 then sessionIdSet s - {k} else sessionIdSet s)"
  proof (cases "pend s k = 0")
    case True
    let ?s2 = "OnSessionLeaved k ?s1"
    have rel: "ReleaseSession a ?s2 = Inr s'"
      using dec zero True id by (simp add: IOCountDecrement_def)
    have "inv_but used lost (Some k) k a s" by (rule server_inv_but [OF inv live])
    moreover have th: "threadId (heap ?s2 b) = threadId (heap s b)" for b
      by (simp add: OnSessionLeaved_def)
    have "counts_lost lost s \<Longrightarrow> counts_lost lost ?s2"
      unfolding counts_lost_def th by (simp add: OnSessionLeaved_def)
    ultimately have "inv_but used lost (Some k) k a ?s2"
      by (auto simp: inv_but_def posts_ok_def live_ok_def pend_def pend_op_def OnSessionLeaved_def)
    moreover have "sessionMap ?s2 k = Some a" using live by (simp add: OnSessionLeaved_def)
    ultimately show ?thesis
      using ReleaseSession_inv [OF _ _ rel, of used lost "Some k" k None] hold True
      by (simp add: OnSessionLeaved_def)
  next
    case False
    then have s': "s' = ?s1" using dec zero by (simp add: IOCountDecrement_def)
    have t: "touches used a k [] s s'" by (simp add: touches_def s')
    have "live_ok None s' k a"
      using ok False count touches_pend [OF t] touches_pend_op [OF t] by (simp add: live_ok_def held_def) (simp add: s')
    then show ?thesis
      using touches_inv [OF inv live t _ hold] False by (simp add: s')
  qed
  then show "inv_lost used lost None s'" "contextPool s' = contextPool s" "pending s' = pending s"
    "nextSessionId s' = nextSessionId s" "sessionMap s' = (if pend s k = 0 then (sessionMap s)(k := None) else sessionMap s)"
    "sessionIdSet s' = (if pend s k = 0 then sessionIdSet s - {k} else sessionIdSet s)"
    by simp_all
qed

lemma dead_session_inv:
  assumes inv: "inv_lost used lost hold s" and dead: "\<And>k. sessionMap s k \<noteq> Some a"
  shows "inv_lost used lost hold (upd_session a f s)"
proof -
  let ?s = "upd_session a f s"
  have same: "heap ?s b = heap s b" if "sessionMap s k = Some b" for k b
    using that dead by auto
  have "{k. \<exists>b. sessionMap s k = Some b \<and> unat (threadId (heap ?s b)) = t} =
      {k. \<exists>b. sessionMap s k = Some b \<and> unat (threadId (heap s b)) = t}" for t
    using same by (auto simp del: fun_upd_apply)
  then have "counts_lost lost ?s"
    using inv by (simp add: inv_lost_def counts_lost_def)
  moreover have "posts_ok used ?s"
    using inv by (simp add: inv_lost_def posts_ok_def)
  moreover have "live_ok hold ?s k b" if "sessionMap s k = Some b" for k b
    using server_inv_live [OF inv that] same [OF that]
    by (simp add: live_ok_def pend_def pend_op_def del: fun_upd_apply)
  ultimately show ?thesis
    using inv by (simp add: inv_lost_def)
qed

lemma GetSession_Unlocked: "sessionMapLock s = Unlocked \<Longrightarrow> GetSession k s = Inr (sessionMap s k, s)"
  by (simp add: GetSession_def with_map_lock_def scoped_def ScopeSRWLock_def ScopeSRWLock_dtor_def)

lemma Disconnect_Unlocked:
  "sessionMapLock s = Unlocked \<Longrightarrow> Disconnect k s = Inr (case sessionMap s k of
     None \<Rightarrow> s | Some a \<Rightarrow> s\<lparr>shutdowns := shutdowns s @ [socket (heap s a)]\<rparr>)"
  by (auto simp: Disconnect_def with_map_lock_def scoped_def ScopeSRWLock_def ScopeSRWLock_dtor_def
      split: option.splits)

lemma shutdowns_inv: "inv_lost used lost hold (s\<lparr>shutdowns := x\<rparr>) = inv_lost used lost hold s"
  by (simp add: inv_lost_def counts_lost_def posts_ok_def live_ok_def pend_def pend_op_def)

lemma server_inv_lock: "inv_lost used lost hold s \<Longrightarrow> sessionMapLock s = Unlocked"
  by (simp add: inv_lost_def)

lemma Disconnect_keeps:
  assumes "inv_lost used lost hold s" and "Disconnect k s = Inr s'"
  shows "inv_lost used lost hold s' \<and> keeps used s s'"
  using assms Disconnect_Unlocked [OF server_inv_lock [OF assms(1)], of k]
  by (auto simp: shutdowns_inv keeps_def pend_op_def [abs_def] split: option.splits)

lemma SendIOCompleted_keeps:
  assumes pool: "pool_laws (so_pool ops) used" and inv: "inv_lost used lost hold s"
    and live: "sessionMap s k = Some a" and none: "pend_op s OP_SEND k = 0"
    and run: "SendIOCompleted ops a s = Inr (r, s')"
  shows "inv_lost used lost hold s' \<and> keeps used s s' \<and> r \<in> {SUCCESS, FAILED_SEND_POST}"
proof -
  let ?s = "set_ioMode a IO_NONE_SENDING s"
  have t: "touches used a k [] s ?s" by (simp add: touches_def)
  moreover have "live_ok hold ?s k a"
    using server_inv_live [OF inv live] none touches_pend [OF t] touches_pend_op [OF t] by (simp add: live_ok_def)
  ultimately have s: "inv_lost used lost hold ?s" "keeps used s ?s"
    using touches_inv [OF inv live t] touches_keeps [OF t] by auto
  show ?thesis
  proof (cases "sendDisconnect (heap s a)")
    case True
    with run obtain k' where "Disconnect k' ?s = Inr s'" and "r = SUCCESS"
      by (auto simp: SendIOCompleted_def SendCompleted_def outcome_simps)
    with Disconnect_keeps [OF s(1)] keeps_trans [OF s(2)] show ?thesis by blast
  next
    case False
    with run have post: "SendPost ops a ?s = Inr (r, s')"
      by (simp add: SendIOCompleted_def SendCompleted_def)
    have "sessionMap ?s k = Some a" using live by simp
    from SendPost_keeps [OF pool s(1) this post] keeps_trans [OF s(2)]
    have "inv_lost used lost hold s' \<and> keeps used s s'" by blast
    moreover have "r \<in> {SUCCESS, FAILED_SEND_POST}"
      using post by (cases rule: SendPost_cases) auto
    ultimately show ?thesis by blast
  qed
qed

text \<open>What ReleaseSession leaves in the object of the session \<open>k\<close>.\<close>

definition dead_session :: "SessionId \<Rightarrow> ('r, 'q) RIOTestSession \<Rightarrow> ('r, 'q, 'p) server \<Rightarrow> bool" where
  "dead_session k x s \<longleftrightarrow> sessionId x = k \<and> socket x = INVALID_SOCKET \<and>
     unat (threadId x) < length (numOfSessionInWorkerThread s)"

section \<open>The handler's contract\<close>

text \<open>
  \<open>onRecv a\<close> is what OnRecvPacket runs for the session at \<open>a\<close>. It may send on any session,
  disconnect, and keep state of its own; it must leave the server as \<open>keeps\<close> says.
\<close>

locale session_handler =
  fixes ops :: "('r, 'q, 'p) server_ops" and used :: "'p \<Rightarrow> nat set"
    and onRecv :: "nat \<Rightarrow> NetBuffer \<Rightarrow> ('r, 'q, 'p) server \<Rightarrow> ('r, 'q, 'p) server outcome"
  assumes handler: "pool_laws (so_pool ops) used \<Longrightarrow> inv_lost used lost hold s \<Longrightarrow> sessionMap s k = Some a \<Longrightarrow> onRecv a b s = Inr s' \<Longrightarrow>
      inv_lost used lost hold s' \<and> keeps used s s'"
begin

lemma loop_keeps:
  assumes pool: "pool_laws (so_pool ops) used"
    and run: "recv_loop no ro (onRecv a) ring restSize s = Some (Inr (ring', err, s'))"
    and inv: "inv_lost used lost hold s" and live: "sessionMap s k = Some a"
  shows "inv_lost used lost hold s' \<and> keeps used s s'"
proof (rule recv_loop_keeps [OF run, where P = "\<lambda>w. inv_lost used lost hold w \<and> keeps used s w"])
  show "inv_lost used lost hold s \<and> keeps used s s" using inv keeps_refl by blast
  fix b w w'
  assume w: "inv_lost used lost hold w \<and> keeps used s w" and "onRecv a b w = Inr w'"
  moreover have "sessionMap w k = Some a" using w live by (simp add: keeps_def)
  ultimately show "inv_lost used lost hold w' \<and> keeps used s w'"
    using handler [OF pool] keeps_trans by blast
qed

text \<open>
  A completed receive on a held session: it is held still, or it was released for a packet
  error; then its count is one more than its pending contexts.
\<close>

lemma RecvCompleted_inv:
  assumes pool: "pool_laws (so_pool ops) used"
    and inv: "inv_lost used lost (Some k) s" and live: "sessionMap s k = Some a" and none: "pend_op s OP_RECV k = 0"
    and run: "RecvCompleted ops onRecv a n s = Some (Inr (r, s'))"
  shows "used (contextPool s) - set (pending s) \<subseteq> used (contextPool s') - set (pending s')"
    and "r \<in> {SUCCESS, FAILED_RECV_POST}"
    and "sessionIdSet s' = sessionIdSet s" and "nextSessionId s' = nextSessionId s"
    and "sessionMap s' = sessionMap s \<and> inv_lost used lost (Some k) s' \<or>
      sessionMap s' = (sessionMap s)(k := None) \<and> inv_lost used lost None s' \<and>
      ioCount (heap s' a) = of_nat (pend s' k + 1) \<and> dead_session k (heap s' a) s' \<and> pend s' k \<le> 2 \<and> (r = SUCCESS \<longrightarrow> 0 < pend s' k)"
proof -
  let ?ring = "rb_MoveWritePos (so_ring ops) (uint n) (recvRingBuffer (heap s a))"
  obtain ring err s1 where loop: "recv_loop (so_net ops) (so_ring ops) (onRecv a) ?ring (rb_GetUseSize (so_ring ops) ?ring) s =
      Some (Inr (ring, err, s1))"
    and rest: "(let s = upd_session a (\<lambda>x. x\<lparr>recvRingBuffer := ring\<rparr>) s1;
          s = upd_session a (\<lambda>x. x\<lparr>rioRecvOffset := rioRecvOffset x + n\<rparr>) s
      in case RecvPost ops a s of (result, s) \<Rightarrow>
           if err then Some (obind (ReleaseSession a s) (\<lambda>s. Inr (result, s))) else Some (Inr (result, s))) =
      Some (Inr (r, s'))"
    using run by (auto simp: RecvCompleted_def Let_def outcome_simps)
  have 1: "inv_lost used lost (Some k) s1" "keeps used s s1"
    using loop_keeps [OF pool loop inv live] by blast+
  have live1: "sessionMap s1 k = Some a" using 1(2) live by (simp add: keeps_def)
  let ?s2 = "upd_session a (\<lambda>x. x\<lparr>recvRingBuffer := ring\<rparr>) s1"
  let ?s3 = "upd_session a (\<lambda>x. x\<lparr>rioRecvOffset := rioRecvOffset x + n\<rparr>) ?s2"
  have 2: "inv_lost used lost (Some k) ?s2" "keeps used s1 ?s2"
    by (rule upd_session_keeps [OF 1(1) live1]; simp)+
  have live2: "sessionMap ?s2 k = Some a" using live1 by simp
  have 3: "inv_lost used lost (Some k) ?s3" "keeps used ?s2 ?s3"
    by (rule upd_session_keeps [OF 2(1) live2]; simp)+
  have live3: "sessionMap ?s3 k = Some a" using live1 by simp
  have all: "keeps used s ?s3"
    using 1(2) 2(2) 3(2) keeps_trans by blast
  obtain s4 where post: "RecvPost ops a ?s3 = (r, s4)"
    and rest: "(if err then obind (ReleaseSession a s4) (\<lambda>s. Inr (r, s)) else Inr (r, s4)) = Inr (r, s')"
    using rest by (cases "RecvPost ops a ?s3") (auto simp: Let_def outcome_simps split: if_splits)
  have "pend_op ?s3 OP_RECV k = 0" using all none by (simp add: keeps_def)
  from RecvPost_touches [OF pool 3(1) live3 post this] obtain new
    where t: "touches used a k new ?s3 s4" and ok: "live_ok (Some k) s4 k a" and len: "length new = (if r = SUCCESS then 1 else 0)"
    by blast
  have inv4: "inv_lost used lost (Some k) s4"
    using touches_inv [OF 3(1) live3 t ok] by simp
  have live4: "sessionMap s4 k = Some a" using t live3 by (simp add: touches_def)
  have map4: "sessionMap s4 = sessionMap s" "sessionIdSet s4 = sessionIdSet s" "nextSessionId s4 = nextSessionId s" using t all by (simp_all add: touches_def keeps_def)
  have busy4: "used (contextPool s) - set (pending s) \<subseteq> used (contextPool s4) - set (pending s4)"
    using all t by (auto simp: keeps_def touches_def)
  show "r \<in> {SUCCESS, FAILED_RECV_POST}"
    by (rule RecvPostE [OF post]) auto
  have pend4: "r = SUCCESS \<longrightarrow> 0 < pend s4 k"
    using touches_pend [OF t, of k] len by simp
  have hold: "held None k' = held (Some k) k'" if "k' \<noteq> k" for k'
    using that by (simp add: held_def)
  have "used (contextPool s') - set (pending s') = used (contextPool s4) - set (pending s4) \<and>
    sessionIdSet s' = sessionIdSet s \<and> nextSessionId s' = nextSessionId s \<and>
    (sessionMap s' = sessionMap s \<and> inv_lost used lost (Some k) s' \<or>
     sessionMap s' = (sessionMap s)(k := None) \<and> inv_lost used lost None s' \<and>
     ioCount (heap s' a) = of_nat (pend s' k + 1) \<and> dead_session k (heap s' a) s' \<and> pend s' k \<le> 2 \<and> (r = SUCCESS \<longrightarrow> 0 < pend s' k))"
  proof (cases err)
    case False
    with rest inv4 map4 show ?thesis by simp
  next
    case True
    then have rel: "ReleaseSession a s4 = Inr s'" using rest by (auto simp: outcome_simps)
    note R = ReleaseSession_inv [OF server_inv_but [OF inv4 live4] live4 rel hold]
    have "contextAt s' = contextAt s4 \<and> length (numOfSessionInWorkerThread s') = length (numOfSessionInWorkerThread s4)"
      using rel ReleaseSession_Unlocked [of s4 a] inv4 ok by (auto simp: inv_lost_def live_ok_def)
    moreover from this have "dead_session k (heap s' a) s'"
      using R(7) ok by (simp add: dead_session_def live_ok_def)
    ultimately have "pend s' k = pend s4 k" "dead_session k (heap s' a) s'" using R(5) by (simp_all add: pend_def)
    moreover have "ioCount (heap s' a) = of_nat (pend s4 k + 1)"
      using R(7) ok by (simp add: live_ok_def held_def)
    ultimately show ?thesis
      using R map4 pend4 live_pend_le [OF inv4 live4] by simp
  qed
  then show "used (contextPool s) - set (pending s) \<subseteq> used (contextPool s') - set (pending s')"
    and "sessionIdSet s' = sessionIdSet s" and "nextSessionId s' = nextSessionId s"
    and "sessionMap s' = sessionMap s \<and> inv_lost used lost (Some k) s' \<or>
      sessionMap s' = (sessionMap s)(k := None) \<and> inv_lost used lost None s' \<and>
      ioCount (heap s' a) = of_nat (pend s' k + 1) \<and> dead_session k (heap s' a) s' \<and> pend s' k \<le> 2 \<and> (r = SUCCESS \<longrightarrow> 0 < pend s' k)"
    using busy4 by blast+
qed

lemma SendIOCompleted_handler:
  assumes "pool_laws (so_pool ops) used"
    and "inv_lost used lost (Some k) s" and "sessionMap s k = Some a" and "pend_op s OP_SEND k = 0"
    and "SendIOCompleted ops a s = Inr (r, s')"
  shows "used (contextPool s) - set (pending s) \<subseteq> used (contextPool s') - set (pending s')"
    and "r \<in> {SUCCESS, FAILED_SEND_POST}" and "sessionMap s' = sessionMap s \<and> inv_lost used lost (Some k) s'"
    and "sessionIdSet s' = sessionIdSet s" and "nextSessionId s' = nextSessionId s"
  using SendIOCompleted_keeps [OF assms] by (auto simp: keeps_def)

text \<open>What a worker does with a completion after IOCompleted has returned.\<close>

lemma finish_held:
  assumes "pool_laws (so_pool ops) used"
    and "inv_lost used lost (Some k) s" and "sessionMap s k = Some a" and "c \<notin> set (pending s)"
    and "IOCountDecrement a (free_context ops c s) = Inr s'"
  shows "inv_lost used lost None s' \<and> sessionMap s' \<subseteq>\<^sub>m sessionMap s \<and> sessionIdSet s - {k} \<subseteq> sessionIdSet s' \<and>
    nextSessionId s' = nextSessionId s"
proof -
  have "inv_lost used lost (Some k) (free_context ops c s)"
    by (rule free_context_inv [OF assms(1,2,4)])
  moreover have "sessionMap (free_context ops c s) = sessionMap s"
    "sessionIdSet (free_context ops c s) = sessionIdSet s" "nextSessionId (free_context ops c s) = nextSessionId s"
    by (simp_all add: free_context_def)
  ultimately show ?thesis
    using IOCountDecrement_inv(1,4-6) [of used lost k "free_context ops c s" a s'] assms(3,5)
    by (auto simp: map_le_def)
qed

lemma finish_released:
  assumes pool: "pool_laws (so_pool ops) used"
    and inv: "inv_lost used lost None s" and gone: "\<And>k. sessionMap s k \<noteq> Some a" and c: "c \<notin> set (pending s)"
    and count: "ioCount (heap s a) = of_nat (n + 1)" "0 < n" "n \<le> 2"
    and dec: "IOCountDecrement a (free_context ops c s) = Inr s'"
  shows "inv_lost used lost None s' \<and> sessionMap s' = sessionMap s \<and> sessionIdSet s' = sessionIdSet s \<and>
    nextSessionId s' = nextSessionId s"
proof -
  let ?s = "free_context ops c s"
  have eq: "heap ?s = heap s" "sessionMap ?s = sessionMap s" "sessionIdSet ?s = sessionIdSet s"
    "nextSessionId ?s = nextSessionId s" by (simp_all add: free_context_def)
  have "ioCount (heap ?s a) - 1 = of_nat n" by (simp add: eq count)
  moreover have "(of_nat n :: u32) \<noteq> 0" using count u32_of_nat_eq_0 [of n] by simp
  ultimately have s': "s' = upd_session a (\<lambda>x. x\<lparr>ioCount := ioCount x - 1\<rparr>) ?s"
    using dec by (simp add: IOCountDecrement_def)
  have "inv_lost used lost None ?s" by (rule free_context_inv [OF pool inv c])
  moreover have "sessionMap ?s k \<noteq> Some a" for k using gone by (simp add: eq)
  ultimately show ?thesis
    using dead_session_inv [of used lost None ?s a] by (simp add: s' eq)
qed

text \<open>The session was released and has no context pending: it is released once more.\<close>

lemma finish_released_twice:
  assumes pool: "pool_laws (so_pool ops) used"
    and inv: "inv_lost used lost None s" and gone: "\<And>k. sessionMap s k \<noteq> Some a" "sessionMap s k = None"
    and c: "c \<notin> set (pending s)" and dead: "dead_session k (heap s a) s" and count: "ioCount (heap s a) = 1"
    and dec: "IOCountDecrement a (free_context ops c s) = Inr s'"
  shows "inv_lost used (lost @ [unat (threadId (heap s a))]) None s' \<and> sessionMap s' = sessionMap s \<and>
    sessionIdSet s' = sessionIdSet s - {k} \<and> nextSessionId s' = nextSessionId s"
proof -
  let ?t = "unat (threadId (heap s a))"
  let ?f = "free_context ops c s"
  let ?l = "OnSessionLeaved k (upd_session a (\<lambda>x. x\<lparr>ioCount := ioCount x - 1\<rparr>) ?f)"
  have inv_f: "inv_lost used lost None ?f" by (rule free_context_inv [OF pool inv c])
  have f: "heap ?f = heap s" "sessionMap ?f = sessionMap s" "sessionIdSet ?f = sessionIdSet s" "sessionCount ?f = sessionCount s"
    "nextSessionId ?f = nextSessionId s" "numOfSessionInWorkerThread ?f = numOfSessionInWorkerThread s"
    "sessionMapLock ?f = sessionMapLock s"
    by (simp_all add: free_context_def)
  have lock: "sessionMapLock ?l = Unlocked" "unat (threadId (heap ?l a)) < length (numOfSessionInWorkerThread ?l)"
    using inv dead by (simp_all add: OnSessionLeaved_def f inv_lost_def dead_session_def)
  have "IOCountDecrement a ?f = ReleaseSession a ?l"
    using count dead by (simp add: IOCountDecrement_def f dead_session_def Let_def)
  then have s': "s' = ?l\<lparr>closedSockets := closedSockets ?l @ [socket (heap ?l a)],
     numOfSessionInWorkerThread := (numOfSessionInWorkerThread s)[?t := numOfSessionInWorkerThread s ! ?t - 1],
     sessionCount := sessionCount s - 1, sessionMap := (sessionMap s)(k := None),
     registeredBuffers := registeredBuffers ?l - set_option (recvBufferId (heap ?l a)) - set_option (sendBufferId (heap ?l a)),
     heap := (heap ?l)(a := (heap ?l a)\<lparr>socket := INVALID_SOCKET\<rparr>)\<rparr>"
    using dec dead ReleaseSession_Unlocked [OF lock] by (simp add: OnSessionLeaved_def f dead_session_def)
  have map': "sessionMap s' = sessionMap s" using gone(2) by (auto simp: s')
  have heap': "heap s' b = heap s b" if "b \<noteq> a" for b using that by (simp add: s' OnSessionLeaved_def f)
  have live: "live_ok None s' k' b" if "sessionMap s k' = Some b" for k' b
  proof -
    have "b \<noteq> a" using gone that by auto
    moreover have "live_ok None ?f k' b" using server_inv_live [OF inv_f] that by (simp add: f)
    ultimately show ?thesis
      by (simp add: live_ok_def heap' f s' OnSessionLeaved_def pend_def pend_op_def)
  qed
  have on: "{k. \<exists>b. sessionMap s k = Some b \<and> unat (threadId (heap s' b)) = i} =
      {k. \<exists>b. sessionMap s k = Some b \<and> unat (threadId (heap s b)) = i}" for i
    using gone(1) heap' by metis
  have "counts_lost lost s" using inv by (simp add: inv_lost_def)
  moreover have "?t < length (numOfSessionInWorkerThread s)" using dead by (simp add: dead_session_def)
  ultimately have "counts_lost (lost @ [?t]) s'"
    unfolding counts_lost_def map' on by (auto simp: s' nth_list_update)
  moreover have "posts_ok used s'" using inv_f by (simp add: inv_lost_def posts_ok_def s' OnSessionLeaved_def)
  moreover have "sessionMapLock s' = Unlocked" using lock by (simp add: s')
  ultimately have "inv_lost used (lost @ [?t]) None s'" using live by (simp add: inv_lost_def map')
  then show ?thesis using map' by (simp add: s' OnSessionLeaved_def f)
qed

end

text \<open>
  The one case in which a session is released twice: its packet loop gave up, so that
  RecvCompleted released it, after the kernel had refused the next receive, and no send was
  outstanding. The value is the list of the worker threads (one or none) whose counter goes
  down once too often.
\<close>

definition released_twice ::
  "('r, 'q, 'p) server_ops \<Rightarrow> (nat \<Rightarrow> NetBuffer \<Rightarrow> ('r, 'q, 'p) server \<Rightarrow> ('r, 'q, 'p) server outcome) \<Rightarrow>
   nat \<Rightarrow> u32 \<Rightarrow> ('r, 'q, 'p) server \<Rightarrow> nat list" where
  "released_twice ops onRecv c n s =
     (case sessionMap s (ownerSessionId (contextAt s c)) of
        None \<Rightarrow> []
      | Some a \<Rightarrow>
          if n = 0 \<or> ioCancle (heap s a) \<or> ioType (contextAt s c) \<noteq> OP_RECV then []
          else
            (case RecvCompleted ops onRecv a n (take_completion c s) of
               Some (Inr (r, s1)) \<Rightarrow>
                 if r = FAILED_RECV_POST \<and> sessionMap s1 (ownerSessionId (contextAt s c)) = None \<and> ioCount (heap s1 a) = 1
                 then [unat (threadId (heap s1 a))] else []
             | _ \<Rightarrow> []))"

text \<open>Ids of sessions that are not in the map stay in the Broadcaster's set.\<close>

definition remembers :: "('r, 'q, 'p) server \<Rightarrow> ('r, 'q, 'p) server \<Rightarrow> bool" where
  "remembers s s' \<longleftrightarrow> sessionIdSet s - dom (sessionMap s) \<subseteq> sessionIdSet s' \<and> nextSessionId s \<le> nextSessionId s'"

context session_handler
begin

lemma process_result_inv:
  assumes pool: "pool_laws (so_pool ops) used"
    and inv: "inv_lost used lost None s" and c: "c \<in> set (pending s)"
    and run: "process_result ops onRecv (Some c, n) s = Some (Inr s')"
  shows "inv_lost used (lost @ released_twice ops onRecv c n s) None s' \<and> sessionMap s' \<subseteq>\<^sub>m sessionMap s \<and> remembers s s' \<and>
    nextSessionId s' = nextSessionId s"
proof -
  let ?k = "ownerSessionId (contextAt s c)"
  let ?s = "take_completion c s"
  have posts: "posts_ok used s" using inv by (simp add: inv_lost_def)
  then have used: "c \<in> used (contextPool ?s)" and out: "c \<notin> set (pending ?s)"
    and op: "ioType (contextAt s c) \<in> {OP_RECV, OP_SEND}"
    using c by (auto simp: posts_ok_def)
  have held: "inv_lost used lost (Some ?k) ?s" by (rule take_completion_inv [OF inv c])
  then have get: "GetSession ?k ?s = Inr (sessionMap ?s ?k, ?s)"
    by (intro GetSession_Unlocked) (rule server_inv_lock)
  show ?thesis
  proof (cases "sessionMap s ?k")
    case None
    have s': "s' = free_context ops c ?s"
      using run get None by (simp add: process_result_def GetIOCompletedContext_def)
    have "inv_lost used lost None ?s"
      using drop_hold [OF held] None by simp
    then have "inv_lost used lost None s'"
      unfolding s' using free_context_inv [OF pool] out by blast
    then show ?thesis using None by (simp add: s' free_context_def remembers_def released_twice_def)
  next
    case (Some a)
    then have live: "sessionMap ?s ?k = Some a" by simp
    show ?thesis
    proof (cases "n = 0 \<or> ioCancle (heap s a)")
      case True
      then have "IOCountDecrement a (free_context ops c ?s) = Inr s'"
        using run get Some by (auto simp: process_result_def GetIOCompletedContext_def outcome_simps)
      moreover have "released_twice ops onRecv c n s = []" using True Some by (auto simp: released_twice_def)
      ultimately show ?thesis using finish_held [OF pool held live out] Some by (auto simp: remembers_def)
    next
      case False
      then have ctx: "GetIOCompletedContext ops (Some c) n ?s = Inr (Some (c, a), ?s)"
        using get Some by (simp add: GetIOCompletedContext_def)
      obtain r s1 where io: "IOCompleted ops onRecv c n a ?s = Some (Inr (r, s1))"
        and fin: "(if r = INVALID_OPERATION_TYPE then Some (Inr s1)
          else (let s = free_context ops c s1
                in if r = IS_DELETED_SESSION then Some (Inr s) else Some (IOCountDecrement a s))) = Some (Inr s')"
        using run by (auto simp: process_result_def ctx outcome_simps)
      have none: "pend_op ?s (ioType (contextAt s c)) ?k = 0"
        using take_completion_pend(2) [OF c, of "ioType (contextAt s c)" ?k] op
          server_inv_live [OF inv Some] by (auto simp: live_ok_def)
      show ?thesis
      proof (cases "ioType (contextAt s c) = OP_RECV")
        case True
        then have rc: "RecvCompleted ops onRecv a n ?s = Some (Inr (r, s1))"
          using io by (simp add: IOCompleted_def RecvIOCompleted_def)
        have "pend_op ?s OP_RECV ?k = 0" using none True by simp
        note R = RecvCompleted_inv [OF pool held live this rc]
        have c1: "c \<notin> set (pending s1)" using R(1) used out by auto
        have dec: "IOCountDecrement a (free_context ops c s1) = Inr s'"
          using fin R(2) by (auto split: if_splits)
        have twice: "released_twice ops onRecv c n s =
            (if r = FAILED_RECV_POST \<and> sessionMap s1 ?k = None \<and> ioCount (heap s1 a) = 1 then [unat (threadId (heap s1 a))] else [])"
          using Some True rc \<open>\<not> (n = 0 \<or> ioCancle (heap s a))\<close> by (simp add: released_twice_def)
        from R(5) show ?thesis
        proof
          assume same: "sessionMap s1 = sessionMap ?s \<and> inv_lost used lost (Some ?k) s1"
          then have "sessionMap s1 ?k \<noteq> None" using Some by simp
          then have "released_twice ops onRecv c n s = []" unfolding twice by simp
          with same finish_held [of lost ?k s1 a c s', OF pool _ _ c1 dec] live Some R(3,4) show ?thesis
            by (auto simp: remembers_def)
        next
          assume rel: "sessionMap s1 = (sessionMap ?s)(?k := None) \<and> inv_lost used lost None s1 \<and>
            ioCount (heap s1 a) = of_nat (pend s1 ?k + 1) \<and> dead_session ?k (heap s1 a) s1 \<and> pend s1 ?k \<le> 2 \<and> (r = SUCCESS \<longrightarrow> 0 < pend s1 ?k)"
          then have none: "sessionMap s1 ?k = None" by simp
          have gone: "sessionMap s1 k' \<noteq> Some a" for k'
            using rel server_inv_same_addr [OF held live, of k'] by auto
          show ?thesis
          proof (cases "pend s1 ?k = 0")
            case True
            then have one: "ioCount (heap s1 a) = 1" "r = FAILED_RECV_POST" using rel R(2) by auto
            from rel have "inv_lost used lost None s1" "dead_session ?k (heap s1 a) s1" by blast+
            from finish_released_twice [OF pool this(1) gone none c1 this(2) one(1) dec] rel one none R(3,4) Some
            show ?thesis unfolding twice by (auto simp: map_le_def remembers_def)
          next
            case False
            have "(of_nat (pend s1 ?k) :: u32) \<noteq> 0" using rel False u32_of_nat_eq_0 [of "pend s1 ?k"] by simp
            then have "ioCount (heap s1 a) \<noteq> 1" using rel by simp
            then have "released_twice ops onRecv c n s = []" unfolding twice by simp
            with finish_released [OF pool _ gone c1 _ _ _ dec, of lost "pend s1 ?k"] rel False
            show ?thesis using R(3,4) by (auto simp: map_le_def remembers_def)
          qed
        qed
      next
        case False
        with op have snd: "ioType (contextAt s c) = OP_SEND" by simp
        then have sc: "SendIOCompleted ops a ?s = Inr (r, s1)"
          using io by (simp add: IOCompleted_def)
        have "pend_op ?s OP_SEND ?k = 0" using none snd by simp
        note R = SendIOCompleted_handler [OF pool held live this sc]
        have c1: "c \<notin> set (pending s1)" using R(1) used out by auto
        have dec: "IOCountDecrement a (free_context ops c s1) = Inr s'"
          using fin R(2) by (auto split: if_splits)
        moreover have "released_twice ops onRecv c n s = []" using False Some by (simp add: released_twice_def)
        ultimately show ?thesis using finish_held [of lost ?k s1 a c s', OF pool _ _ c1] R(3-5) live Some
          by (auto simp: remembers_def)
      qed
    qed
  qed
qed

end

section \<open>Accepting a client\<close>

lemma emplaced_inv:
  assumes inv: "inv_lost used lost None s" and new: "nextSessionId s \<noteq> - 1"
    and t: "unat t < length (numOfSessionInWorkerThread s)"
    and s': "sessionMap s' = (sessionMap s)(nextSessionId s + 1 \<mapsto> nextAddr s)"
      "\<And>b. b \<noteq> nextAddr s \<Longrightarrow> heap s' b = heap s b"
      "sessionId (heap s' (nextAddr s)) = nextSessionId s + 1" "threadId (heap s' (nextAddr s)) = t"
      "ioCount (heap s' (nextAddr s)) = 1"
      "numOfSessionInWorkerThread s' = (numOfSessionInWorkerThread s)[unat t := numOfSessionInWorkerThread s ! unat t + 1]"
      "sessionCount s' = sessionCount s + 1" "nextAddr s' = nextAddr s + 1" "nextSessionId s' = nextSessionId s + 1"
      "contextAt s' = contextAt s" "pending s' = pending s" "contextPool s' = contextPool s"
      "sessionMapLock s' = sessionMapLock s"
  shows "inv_lost used lost (Some (nextSessionId s + 1)) s'" and "pend_op s' op (nextSessionId s + 1) = 0"
proof -
  let ?k = "nextSessionId s + 1"
  let ?a = "nextAddr s"
  have k: "nextSessionId s < ?k"
    using new by (rule less_plus_1)
  have posts: "posts_ok used s" and lives: "\<And>k a. sessionMap s k = Some a \<Longrightarrow> live_ok None s k a"
    and fin: "finite (dom (sessionMap s))"
    using inv by (simp_all add: inv_lost_def counts_lost_def)
  have pend: "pend s' = pend s" "pend_op s' = pend_op s"
    by (simp_all add: pend_def [abs_def] pend_op_def [abs_def] s')
  have owners: "ownerSessionId (contextAt s c) \<noteq> ?k" if "c \<in> set (pending s)" for c
    using posts that k by (auto simp: posts_ok_def)
  then have none: "pend s ?k = 0" "pend_op s op ?k = 0" for op
    by (auto simp: pend_def pend_op_def filter_empty_conv)
  then show "pend_op s' op ?k = 0" by (simp add: pend)
  have "live_ok (Some ?k) s' k' a'" if m: "sessionMap s' k' = Some a'" for k' a'
  proof (cases "k' = ?k")
    case True
    with m have a': "a' = ?a" by (simp add: s')
    show ?thesis unfolding a' True using t none by (simp add: live_ok_def s' pend held_def)
  next
    case False
    with m have "sessionMap s k' = Some a'" by (simp add: s')
    from lives [OF this] have ok: "live_ok None s k' a'" .
    then have "a' \<noteq> ?a" by (simp add: live_ok_def)
    moreover have "k' \<le> ?k" using ok k by (auto simp: live_ok_def)
    ultimately show ?thesis using ok False by (simp add: live_ok_def s' pend held_def)
  qed
  moreover have "counts_lost lost s'"
  proof -
    have "sessionMap s ?k \<noteq> Some b" for b
      using lives [of ?k b] k by (auto simp: live_ok_def)
    then have "sessionMap s ?k = None" by (cases "sessionMap s ?k") blast+
    then have new: "?k \<notin> dom (sessionMap s)" by auto
    have addr: "a' \<noteq> ?a" if "sessionMap s k' = Some a'" for k' a'
      using lives [OF that] by (simp add: live_ok_def)
    let ?on = "\<lambda>s i. {k. \<exists>a. sessionMap s k = Some a \<and> unat (threadId (heap s a)) = i}"
    have on: "?on s' i = (if i = unat t then insert ?k (?on s i) else ?on s i)" for i
      using new addr by (auto simp: s' split: if_splits)
    have "finite (?on s i)" "?k \<notin> ?on s i" for i
      using new by (auto intro: finite_subset [OF _ fin])
    then have card: "card (?on s' i) = card (?on s i) + (if i = unat t then 1 else 0)" for i
      unfolding on by simp
    have "numOfSessionInWorkerThread s' ! i = of_nat (card (?on s' i)) - of_nat (count_list lost i)"
      if "i < length (numOfSessionInWorkerThread s')" for i
      using that inv t unfolding card by (cases "i = unat t") (simp_all add: s' inv_lost_def counts_lost_def)
    moreover have "sessionCount s' = of_nat (card (dom (sessionMap s'))) - of_nat (length lost)"
      using inv new fin by (simp add: s' inv_lost_def counts_lost_def)
    ultimately show ?thesis using fin by (simp add: counts_lost_def s')
  qed
  moreover have "posts_ok used s'"
    using posts k by (auto simp: posts_ok_def s')
  ultimately show "inv_lost used lost (Some ?k) s'"
    using inv by (simp add: inv_lost_def s')
qed

text \<open>Accepter counts the session last; it makes no difference to count it first.\<close>

abbreviation bump :: "('r, 'q, 'p) server \<Rightarrow> ('r, 'q, 'p) server" where
  "bump s \<equiv> s\<lparr>sessionCount := sessionCount s + 1\<rparr>"

lemma RecvPost_bump: "RecvPost ops a (bump s) = (case RecvPost ops a s of (r, s) \<Rightarrow> (r, bump s))"
  by (cases "pool_Alloc (so_pool ops) (contextPool s)"; cases "rio_ok ops (rioCalls s)")
    (simp_all add: RecvPost_def RecvPost_receive_def alloc_context_def rio_post_def Let_def)

lemma ReleaseSession_bump:
  "ReleaseSession a (bump s) = obind (ReleaseSession a s) (\<lambda>s. Inr (bump s))"
  by (cases "sessionMapLock s")
    (simp_all add: ReleaseSession_def with_map_lock_def scoped_def ScopeSRWLock_def ScopeSRWLock_dtor_def
      AcquireSRWLockExclusive_def ReleaseSRWLockExclusive_def OnSessionReleased_def Let_def)

lemma IOCountDecrement_bump:
  "IOCountDecrement a (bump s) = obind (IOCountDecrement a s) (\<lambda>s. Inr (bump s))"
proof -
  let ?s1 = "upd_session a (\<lambda>x. x\<lparr>ioCount := ioCount x - 1\<rparr>) s"
  let ?s2 = "OnSessionLeaved (sessionId (heap ?s1 a)) ?s1"
  have 1: "upd_session a (\<lambda>x. x\<lparr>ioCount := ioCount x - 1\<rparr>) (bump s) = bump ?s1" by simp
  have 2: "OnSessionLeaved (sessionId (heap (bump ?s1) a)) (bump ?s1) = bump ?s2"
    by (simp add: OnSessionLeaved_def)
  have 3: "ioCount (heap (bump ?s1) a) = ioCount (heap ?s1 a)" by simp
  show ?thesis
    unfolding IOCountDecrement_def Let_def 1 2 3 ReleaseSession_bump
    by (cases "ioCount (heap ?s1 a) = 0") (simp_all only: if_True if_False obind.simps simp_thms)
qed

lemma start_session_bump:
  "start_session ops a (bump s) = obind (start_session ops a s) (\<lambda>(r, s). Inr (r, bump s))"
  by (cases "RecvPost ops a s"; cases "IOCountDecrement a (snd (RecvPost ops a s))")
    (simp_all add: start_session_def RecvPost_bump IOCountDecrement_bump OnSessionEntered_def)

lemma OnSessionEntered_inv:
  "inv_lost used lost hold s \<Longrightarrow> inv_lost used lost hold (OnSessionEntered k s)"
  by (simp add: inv_lost_def counts_lost_def posts_ok_def live_ok_def pend_def pend_op_def OnSessionEntered_def)

text \<open>The start of a session that was emplaced and counted: it lives, or it was released at once.\<close>

lemma start_session_inv:
  assumes pool: "pool_laws (so_pool ops) used" and inv: "inv_lost used lost (Some k) s"
    and live: "sessionMap s k = Some a" and none: "pend s k = 0" "pend_op s OP_RECV k = 0"
    and run: "start_session ops a s = Inr (r, s')"
  shows "inv_lost used lost None s'" and "r"
    and "sessionMap s' = (if rio_ok ops (rioCalls s) then sessionMap s else (sessionMap s)(k := None))"
    and "k \<in> sessionIdSet s'" and "sessionIdSet s \<subseteq> sessionIdSet s'" and "nextSessionId s' = nextSessionId s"
proof -
  have ok: "live_ok (Some k) s k a" by (rule server_inv_live [OF inv live])
  obtain x s1 where post: "RecvPost ops a s = (x, s1)" by fastforce
  from RecvPost_touches [OF pool inv live post none(2)] obtain new
    where t: "touches used a k new s s1" and ok1: "live_ok (Some k) s1 k a"
      and len: "length new = (if x = SUCCESS then 1 else 0)" by blast
  have inv1: "inv_lost used lost (Some k) s1" using touches_inv [OF inv live t ok1] by simp
  have live1: "sessionMap s1 k = Some a" and map1: "sessionMap s1 = sessionMap s"
    using t live by (simp_all add: touches_def)
  have x: "x = SUCCESS \<longleftrightarrow> rio_ok ops (rioCalls s)"
    by (rule RecvPostE [OF post]) auto
  have pend1: "pend s1 k = 0 \<longleftrightarrow> \<not> rio_ok ops (rioCalls s)"
    using touches_pend [OF t, of k] len none(1) x by auto
  obtain s2 where dec: "IOCountDecrement a s1 = Inr s2"
    and s': "r" "s' = OnSessionEntered (sessionId (heap s2 a)) s2"
    using run by (auto simp: start_session_def post outcome_simps Let_def)
  note D = IOCountDecrement_inv [OF inv1 live1 dec]
  show "inv_lost used lost None s'" using OnSessionEntered_inv [OF D(1)] by (simp add: s')
  show "r" by (rule s')
  show "sessionMap s' = (if rio_ok ops (rioCalls s) then sessionMap s else (sessionMap s)(k := None))"
    using D(5) pend1 map1 by (simp add: s' OnSessionEntered_def)
  have "sessionId (heap s2 a) = k"
  proof (cases "ioCount (heap s1 a) - 1 = 0")
    case True
    let ?s = "OnSessionLeaved (sessionId (heap s1 a)) (upd_session a (\<lambda>x. x\<lparr>ioCount := ioCount x - 1\<rparr>) s1)"
    have "ReleaseSession a ?s = Inr s2" using dec True by (simp add: IOCountDecrement_def)
    moreover have "sessionMapLock ?s = Unlocked" "unat (threadId (heap ?s a)) < length (numOfSessionInWorkerThread ?s)"
      using inv1 ok1 by (simp_all add: OnSessionLeaved_def inv_lost_def live_ok_def)
    ultimately show ?thesis
      using ok1 ReleaseSession_Unlocked [of ?s a] by (auto simp: OnSessionLeaved_def live_ok_def)
  next
    case False
    then show ?thesis using dec ok1 by (auto simp: IOCountDecrement_def live_ok_def)
  qed
  then have ids: "sessionIdSet s' = insert k (sessionIdSet s2)" "nextSessionId s' = nextSessionId s2"
    by (simp_all add: s' OnSessionEntered_def)
  then show "k \<in> sessionIdSet s'" by simp
  show "sessionIdSet s \<subseteq> sessionIdSet s'" "nextSessionId s' = nextSessionId s"
    using ids D(4,6) t by (auto simp: touches_def)
qed

text \<open>What InitSession does to the rest of the server: nothing.\<close>

lemma InitSession_frame:
  assumes "InitSession ops a s = (ok, s')"
  shows "sessionMap s' = sessionMap s \<and> sessionMapLock s' = sessionMapLock s \<and> nextSessionId s' = nextSessionId s \<and>
    nextAddr s' = nextAddr s \<and> sessionCount s' = sessionCount s \<and> contextPool s' = contextPool s \<and>
    numOfSessionInWorkerThread s' = numOfSessionInWorkerThread s \<and> sessionIdSet s' = sessionIdSet s \<and>
    contextAt s' = contextAt s \<and> pending s' = pending s \<and> (\<forall>b. b \<noteq> a \<longrightarrow> heap s' b = heap s b) \<and>
    sessionId (heap s' a) = sessionId (heap s a) \<and> threadId (heap s' a) = threadId (heap s a) \<and>
    ioCount (heap s' a) = ioCount (heap s a) \<and> closedSockets s' = closedSockets s"
  using assms
  by (auto simp: InitSession_def RIORegisterBuffer_def RIOCreateRequestQueue_def Let_def split: if_splits)

text \<open>A session that is not in the map may change as it likes.\<close>

lemma unmapped_inv:
  assumes inv: "inv_lost used lost None s"
    and s': "sessionMap s' = sessionMap s" "sessionMapLock s' = sessionMapLock s" "nextSessionId s \<le> nextSessionId s'"
      "nextAddr s \<le> nextAddr s'" "sessionCount s' = sessionCount s" "contextPool s' = contextPool s"
      "numOfSessionInWorkerThread s' = numOfSessionInWorkerThread s" "contextAt s' = contextAt s"
      "pending s' = pending s" "\<And>b. b < nextAddr s \<Longrightarrow> heap s' b = heap s b"
  shows "inv_lost used lost None s'"
proof -
  have lives: "live_ok None s k a" if "sessionMap s k = Some a" for k a
    using inv that by (simp add: inv_lost_def)
  have same: "heap s' a = heap s a" if "sessionMap s k = Some a" for k a
    using lives [OF that] s'(10) by (simp add: live_ok_def)
  have pend: "pend s' = pend s" "pend_op s' = pend_op s"
    by (simp_all add: pend_def [abs_def] pend_op_def [abs_def] s')
  have "live_ok None s' k a" if "sessionMap s k = Some a" for k a
    using lives [OF that] same [OF that] s'(3,4) by (auto simp: live_ok_def pend s'(7))
  moreover have "{k. \<exists>a. sessionMap s k = Some a \<and> unat (threadId (heap s' a)) = t} =
      {k. \<exists>a. sessionMap s k = Some a \<and> unat (threadId (heap s a)) = t}" for t
    using same by auto
  then have "counts_lost lost s'" using inv by (simp add: inv_lost_def counts_lost_def s')
  moreover have "posts_ok used s'"
    using inv s'(3) by (auto simp: inv_lost_def posts_ok_def s' intro: order_trans)
  ultimately show ?thesis using inv by (simp add: inv_lost_def s')
qed

lemma GetNewSession_eq:
  assumes "nextSessionId s \<noteq> - 1"
  obtains x where "GetNewSession ops sock t s = (Some (nextAddr s),
      s\<lparr>nextSessionId := nextSessionId s + 1, heap := (heap s)(nextAddr s := x), nextAddr := nextAddr s + 1\<rparr>)"
    and "sessionId x = nextSessionId s + 1" and "threadId x = t" and "ioCount x = 0"
proof -
  have "nextSessionId s + 1 \<noteq> INVALID_SESSION_ID"
    using less_plus_1 [OF assms] by (auto simp: INVALID_SESSION_ID_def)
  then show thesis
    by (intro that, simp add: GetNewSession_def Let_def) simp_all
qed

lemma emplace_new:
  assumes "sessionMapLock s = Unlocked" and "sessionMap s (sessionId (heap s a)) = None"
  shows "emplace_session a s = Inr (True, s\<lparr>sessionMap := (sessionMap s)(sessionId (heap s a) \<mapsto> a)\<rparr>)"
  using assms
  by (simp add: emplace_session_def with_map_lock_def scoped_def ScopeSRWLock_def ScopeSRWLock_dtor_def
      AcquireSRWLockExclusive_def ReleaseSRWLockExclusive_def Let_def)

lemma Accepter_cases:
  assumes pool: "pool_laws (so_pool ops) used" and inv: "inv_lost used lost None s"
    and wrap: "nextSessionId s \<noteq> - 1" and run: "Accepter ops sock s = Inr s'"
  shows "inv_lost used lost None s' \<and> remembers s s' \<and> nextSessionId s' = nextSessionId s + 1 \<and>
    (sessionMap s' = sessionMap s \<or> sessionMap s' = (sessionMap s)(nextSessionId s + 1 \<mapsto> nextAddr s) \<and> nextSessionId s + 1 \<in> sessionIdSet s')"
proof -
  let ?t = "GetMinimumSessionThreadId s"
  let ?k = "nextSessionId s + 1"
  let ?a = "nextAddr s"
  obtain x where new: "GetNewSession ops sock ?t s = (Some ?a,
      s\<lparr>nextSessionId := ?k, heap := (heap s)(?a := x), nextAddr := ?a + 1\<rparr>)"
    and x: "sessionId x = ?k" "threadId x = ?t" "ioCount x = 0"
    by (rule GetNewSession_eq [OF wrap])
  let ?s1 = "s\<lparr>nextSessionId := ?k, nextAddr := Suc ?a, heap := (heap s)(?a := x\<lparr>ioCount := 1\<rparr>)\<rparr>"
  obtain ok s2 where init: "InitSession ops ?a ?s1 = (ok, s2)" by fastforce
  note F = InitSession_frame [OF init]
  have le: "nextSessionId s \<le> ?k" using less_plus_1 [OF wrap] by simp
  have t: "unat ?t < length (numOfSessionInWorkerThread s)"
  proof (rule ccontr)
    assume "\<not> unat ?t < length (numOfSessionInWorkerThread s)"
    with run show False by (simp add: Accepter_def MakeNewSession_def new Let_def)
  qed
  show ?thesis
  proof (cases ok)
    case False
    then have s': "s' = s2\<lparr>closedSockets := closedSockets s2 @ [sock]\<rparr>"
      using run init x t by (simp add: Accepter_def MakeNewSession_def new Let_def)
    have "inv_lost used lost None s'"
      by (rule unmapped_inv [OF inv]) (use F le in \<open>simp_all add: s'\<close>)
    then show ?thesis using F le by (auto simp: s' remembers_def)
  next
    case True
    let ?s3 = "s2\<lparr>numOfSessionInWorkerThread := (numOfSessionInWorkerThread s2)
        [unat ?t := numOfSessionInWorkerThread s2 ! unat ?t + 1]\<rparr>"
    have "sessionMap s ?k \<noteq> Some b" for b
      using server_inv_live [OF inv, of ?k b] less_plus_1 [OF wrap] by (auto simp: live_ok_def)
    then have none: "sessionMap s ?k = None" by (cases "sessionMap s ?k") blast+
    let ?s4 = "?s3\<lparr>sessionMap := (sessionMap s)(?k \<mapsto> ?a)\<rparr>"
    have emp: "emplace_session ?a ?s3 = Inr (True, ?s4)"
      using emplace_new [of ?s3 ?a] F x none server_inv_lock [OF inv] by simp
    have "obind (start_session ops ?a ?s4) (\<lambda>(made, s). if \<not> made
        then Inr (s\<lparr>closedSockets := closedSockets s @ [sock]\<rparr>) else Inr (bump s)) = Inr s'"
      using run init x True t emp by (simp add: Accepter_def MakeNewSession_def new Let_def)
    then obtain made s5 where start: "start_session ops ?a ?s4 = Inr (made, s5)"
      and made: "made \<Longrightarrow> s' = bump s5" by (auto simp: outcome_simps split: if_splits)
    have "made" using start by (auto simp: start_session_def outcome_simps Let_def split: prod.splits)
    with made have s': "s' = bump s5" by blast
    have start': "start_session ops ?a (bump ?s4) = Inr (made, s')"
      by (simp only: start_session_bump start obind.simps s' prod.case)
    have inv4: "inv_lost used lost (Some ?k) (bump ?s4)" and pend4: "pend_op (bump ?s4) OP_RECV ?k = 0"
      using F x t by (intro emplaced_inv [OF inv wrap, of ?t]; simp)+
    have live4: "sessionMap (bump ?s4) ?k = Some ?a" by simp
    have pend0: "pend (bump ?s4) ?k = 0"
    proof -
      have "ownerSessionId (contextAt s c) \<noteq> ?k" if "c \<in> set (pending s)" for c
        using inv that less_plus_1 [OF wrap] by (auto simp: inv_lost_def posts_ok_def)
      then show ?thesis using F by (simp add: pend_def filter_empty_conv)
    qed
    note S = start_session_inv [OF pool inv4 live4 pend0 pend4 start']
    have rem: "remembers s s'" using S(5,6) F le by (auto simp: remembers_def)
    show ?thesis
    proof (cases "rio_ok ops (rioCalls (bump ?s4))")
      case True
      then show ?thesis using S(1,3,4,6) F rem by simp
    next
      case False
      have "(sessionMap s)(?k := None) = sessionMap s" using none by auto
      then show ?thesis using False S(1,3,6) F rem by simp
    qed
  qed
qed

section \<open>The running server\<close>

text \<open>
  The server after StartServer with \<open>n\<close> worker threads: InitializeRIO has put a zero per thread
  into \<open>numOfSessionInWorkerThread\<close>, everything else is as the constructors leave it. \<open>h\<close> and
  \<open>p\<close> are memory and pool that nothing has been taken from.
\<close>

definition initial_server ::
  "(nat \<Rightarrow> ('r, 'q) RIOTestSession) \<Rightarrow> 'p \<Rightarrow> (nat \<Rightarrow> IOContext) \<Rightarrow> nat \<Rightarrow> u32 \<Rightarrow> ('r, 'q, 'p) server" where
  "initial_server h p c n maxClients =
     \<lparr>heap = h, nextAddr = 0, sessionMap = Map.empty, sessionMapLock = Unlocked,
      nextSessionId = INVALID_SESSION_ID + 1, sessionCount = 0,
      numOfSessionInWorkerThread = replicate n 0, maxClientCount = maxClients, sessionIdSet = {},
      contextPool = p, contextAt = c, pending = [], rioCalls = 0, registeredBuffers = {},
      closedSockets = [], shutdowns = []\<rparr>"

text \<open>
  What happens to it: a client is accepted, the kernel writes into the registered buffer behind a
  session's ring, a worker processes a completion, or some thread that found the session in the
  map sends on it or disconnects it. The operations do not overlap. A step is labelled with the
  number of session ids it takes and with the worker threads of the sessions that it releases a
  second time.
\<close>

inductive server_step ::
  "('r, 'q, 'p) server_ops \<Rightarrow> (nat \<Rightarrow> NetBuffer \<Rightarrow> ('r, 'q, 'p) server \<Rightarrow> ('r, 'q, 'p) server outcome) \<Rightarrow>
   nat \<Rightarrow> nat list \<Rightarrow> ('r, 'q, 'p) server \<Rightarrow> ('r, 'q, 'p) server \<Rightarrow> bool" for ops onRecv where
  accept: "Accepter ops sock s = Inr s' \<Longrightarrow> server_step ops onRecv 1 [] s s'"
| arrive: "sessionMap s k = Some a \<Longrightarrow>
    server_step ops onRecv 0 [] s (upd_session a (\<lambda>x. x\<lparr>recvRingBuffer := ring\<rparr>) s)"
| complete: "c \<in> set (pending s) \<Longrightarrow> process_result ops onRecv (Some c, n) s = Some (Inr s') \<Longrightarrow>
    server_step ops onRecv 0 (released_twice ops onRecv c n s) s s'"
| send: "sessionMap s k = Some a \<Longrightarrow> SendPacket ops a p s = Inr s' \<Longrightarrow> server_step ops onRecv 0 [] s s'"
| send_last: "sessionMap s k = Some a \<Longrightarrow> SendPacketAndDisconnect ops a p s = Inr s' \<Longrightarrow>
    server_step ops onRecv 0 [] s s'"
| disconnect: "Disconnect k s = Inr s' \<Longrightarrow> server_step ops onRecv 0 [] s s'"

text \<open>
  Runs, with the number of accepted connections (each takes an id) and the double releases so
  far. The ids are 64 bits wide and start at 2; the lemmas are about runs in which they do not wrap.
\<close>

inductive server_run ::
  "('r, 'q, 'p) server_ops \<Rightarrow> (nat \<Rightarrow> NetBuffer \<Rightarrow> ('r, 'q, 'p) server \<Rightarrow> ('r, 'q, 'p) server outcome) \<Rightarrow>
   ('r, 'q, 'p) server \<Rightarrow> nat \<Rightarrow> nat list \<Rightarrow> ('r, 'q, 'p) server \<Rightarrow> bool" for ops onRecv s where
  start: "server_run ops onRecv s 0 [] s"
| step: "server_run ops onRecv s n lost s' \<Longrightarrow> server_step ops onRecv m twice s' s'' \<Longrightarrow>
    server_run ops onRecv s (n + m) (lost @ twice) s''"

lemma initial_server_inv: "server_inv used None (initial_server h p c n maxClients)"
  by (simp add: inv_lost_def initial_server_def counts_lost_def posts_ok_def)

text \<open>An id that was left behind in the Broadcaster's set stays there for ever.\<close>

definition left_behind :: "SessionId \<Rightarrow> ('r, 'q, 'p) server \<Rightarrow> bool" where
  "left_behind k s \<longleftrightarrow> sessionMap s k = None \<and> k \<in> sessionIdSet s \<and> k \<le> nextSessionId s"

text \<open>The ids of a run do not wrap.\<close>

lemma next_id:
  assumes "unat (k :: u64) + m < 2 ^ 64" and "m \<le> 1"
  shows "unat (k + of_nat m) = unat k + m" and "0 < m \<Longrightarrow> k \<noteq> - 1"
proof -
  from assms(2) consider "m = 0" | "m = 1" by linarith
  then show "unat (k + of_nat m) = unat k + m"
  proof cases
    case 2
    with assms(1) have "unat k + unat (1 :: u64) < 2 ^ LENGTH(64)" by simp
    from unat_add_lem [THEN iffD1, OF this] show ?thesis using 2 by simp
  qed simp
  show "k \<noteq> - 1" if "0 < m"
  proof
    assume "k = - 1"
    then have "unat k = 2 ^ 64 - 1" by (simp add: unsigned_minus_1_eq_mask mask_eq_exp_minus_1)
    with assms that show False by simp
  qed
qed

lemma step_label: "server_step ops onRecv m twice s s' \<Longrightarrow> m \<le> 1"
  by (induction rule: server_step.induct) simp_all

context session_handler
begin

text \<open>Only an accept takes an id, and it needs one that is not the last.\<close>

lemma step_inv:
  assumes pool: "pool_laws (so_pool ops) used"
  shows "server_step ops onRecv m twice s s' \<Longrightarrow> inv_lost used lost None s \<Longrightarrow> (0 < m \<Longrightarrow> nextSessionId s \<noteq> - 1) \<Longrightarrow>
    inv_lost used (lost @ twice) None s' \<and> nextSessionId s' = nextSessionId s + of_nat m \<and> m \<le> 1"
proof (induction rule: server_step.induct)
  case (accept sock s s')
  then show ?case using Accepter_cases [OF pool accept(2) _ accept(1)] by simp
next
  case (arrive s k a ring)
  then show ?case using upd_session_keeps(1) [OF arrive(2,1)] by simp
next
  case (complete c s n s')
  then show ?case using process_result_inv [OF pool complete(3,1,2)] by simp
next
  case (send s k a p s')
  then show ?case using SendPacket_keeps [OF pool send(3,1,2)] by (simp add: keeps_def)
next
  case (send_last s k a p s')
  let ?s = "upd_session a (\<lambda>x. x\<lparr>sendDisconnect := True\<rparr>) s"
  have "inv_lost used lost None ?s"
    by (rule upd_session_keeps(1) [OF send_last(3,1)]) simp_all
  moreover have "sessionMap ?s k = Some a" using send_last(1) by simp
  ultimately have "inv_lost used lost None s' \<and> keeps used ?s s'"
    using SendPacket_keeps [OF pool] send_last(2) unfolding SendPacketAndDisconnect_def by blast
  then show ?case by (simp add: keeps_def)
next
  case (disconnect k s s')
  then show ?case using Disconnect_keeps [OF disconnect(2,1)] by (simp add: keeps_def)
qed

lemma step_left_behind:
  assumes pool: "pool_laws (so_pool ops) used"
  shows "server_step ops onRecv m twice s s' \<Longrightarrow> inv_lost used lost None s \<Longrightarrow> (0 < m \<Longrightarrow> nextSessionId s \<noteq> - 1) \<Longrightarrow>
    left_behind k s \<Longrightarrow> left_behind k s'"
proof (induction rule: server_step.induct)
  case (accept sock s s')
  then have wrap: "nextSessionId s \<noteq> - 1" by simp
  have "k \<noteq> nextSessionId s + 1" using accept(4) less_plus_1 [OF wrap] by (auto simp: left_behind_def)
  with accept(4) Accepter_cases [OF pool accept(2) wrap accept(1)] show ?case
    by (auto simp: left_behind_def remembers_def)
next
  case (arrive s k a ring)
  then show ?case by (simp add: left_behind_def)
next
  case (complete c s n s')
  then have "sessionMap s' \<subseteq>\<^sub>m sessionMap s \<and> remembers s s'"
    using process_result_inv [OF pool complete(3,1,2)] by blast
  with complete(5) show ?case
    by (auto simp: left_behind_def remembers_def map_le_def dom_def)
next
  case (send s k a p s')
  then show ?case using SendPacket_keeps [OF pool send(3,1,2)] by (simp add: left_behind_def keeps_def)
next
  case (send_last s k' a p s')
  let ?s = "upd_session a (\<lambda>x. x\<lparr>sendDisconnect := True\<rparr>) s"
  have "inv_lost used lost None ?s"
    by (rule upd_session_keeps(1) [OF send_last(3,1)]) simp_all
  moreover have "sessionMap ?s k' = Some a" using send_last(1) by simp
  ultimately have "keeps used ?s s'"
    using SendPacket_keeps [OF pool] send_last(2) unfolding SendPacketAndDisconnect_def by blast
  with send_last(5) show ?case by (simp add: left_behind_def keeps_def)
next
  case (disconnect k' s s')
  then show ?case using Disconnect_keeps [OF disconnect(2,1)] by (simp add: left_behind_def keeps_def)
qed

lemma run_inv:
  assumes pool: "pool_laws (so_pool ops) used" and inv: "inv_lost used lost None s"
  shows "server_run ops onRecv s n twice s' \<Longrightarrow> unat (nextSessionId s) + n < 2 ^ 64 \<Longrightarrow>
    inv_lost used (lost @ twice) None s' \<and> unat (nextSessionId s') = unat (nextSessionId s) + n"
proof (induction rule: server_run.induct)
  case start
  with inv show ?case by simp
next
  case (step n twice s1 m twice' s2)
  then have IH: "inv_lost used (lost @ twice) None s1" "unat (nextSessionId s1) = unat (nextSessionId s) + n" by simp_all
  have "unat (nextSessionId s1) + m < 2 ^ 64" using step.prems IH(2) by simp
  note next' = next_id [OF this step_label [OF step.hyps(2)]]
  from step_inv [OF pool step.hyps(2) IH(1) next'(2)] next'(1) IH(2) show ?case by simp
qed

lemma run_left_behind:
  assumes pool: "pool_laws (so_pool ops) used" and inv: "inv_lost used lost None s" and k: "left_behind k s"
  shows "server_run ops onRecv s n twice s' \<Longrightarrow> unat (nextSessionId s) + n < 2 ^ 64 \<Longrightarrow> left_behind k s'"
proof (induction rule: server_run.induct)
  case start
  show ?case by (rule k)
next
  case (step n twice s1 m twice' s2)
  then have IH: "left_behind k s1" by simp
  have 1: "inv_lost used (lost @ twice) None s1" "unat (nextSessionId s1) = unat (nextSessionId s) + n"
    using run_inv [OF pool inv step.hyps(1)] step.prems by simp_all
  have "unat (nextSessionId s1) + m < 2 ^ 64" using step.prems 1(2) by simp
  from step_left_behind [OF pool step.hyps(2) 1(1) next_id(2) [OF this step_label [OF step.hyps(2)]] IH] show ?case .
qed

end

end
