(* ===== verification/Protocol.thy ===== *)
theory Protocol
  imports External
begin

text \<open>
  Protocol.h: the packets, their ids and parameters, and the variadic templates that stream the
  parameters of a packet to a buffer and back.
\<close>

section \<open>Packets\<close>

text \<open>
  The subclasses of IGameAndClientPacket, with their members. \<open>std::string\<close> is a list of
  characters, \<open>std::wstring\<close> a list of 16-bit units, and an array member the list of its bytes.
\<close>

datatype game_packet =
    TestStringPacket (testString: string)
  | EchoStringPacket (echoString: "u8 list")
  | TestProcedurePacket (id3: u32) (testWString: "u16 list")
  | SelectTest2ProcedurePacket (select_id: u64)
  | Ping
  | Pong
  | RequestFileStream
  | ResponseFileStream (fileStream: "u8 list")

text \<open>The subclasses of IGameAndDBPacket.\<close>

datatype db_packet =
    DBJobStart (start_sessionId: SessionId) (batchSize: u32)
  | DBJobReply (reply_jobKey: DBJobKey) (isSuccessed: bool)
  | CallSelectTest2ProcedurePacket (call_ownerSessionId: SessionId) (call_id: u64)
  | CallSelectTest2ProcedurePacketReply (reply_ownerSessionId: SessionId) (reply_no: "u32 list")
      (reply_testString: "string list")
  | DBTest (db_id3: u32) (db_teststring: "u16 list")

fun game_packet_id :: "game_packet \<Rightarrow> PACKET_ID" where
  "game_packet_id (TestStringPacket _) = TEST_STRING_PACKET"
| "game_packet_id (EchoStringPacket _) = ECHO_STRING_PACEKT"
| "game_packet_id (TestProcedurePacket _ _) = CALL_TEST_PROCEDURE_PACKET"
| "game_packet_id (SelectTest2ProcedurePacket _) = CALL_SELECT_TEST_2_PROCEDURE_PACKET"
| "game_packet_id Ping = PING"
| "game_packet_id Pong = PONG"
| "game_packet_id RequestFileStream = REQUEST_FILE_STREAM"
| "game_packet_id (ResponseFileStream _) = RESPONSE_FILE_STREAM"

fun db_packet_id :: "db_packet \<Rightarrow> PACKET_ID" where
  "db_packet_id (DBJobStart _ _) = GAME2DB_BATCHED_DB_JOB"
| "db_packet_id (DBJobReply _ _) = DB2GAME_BATCHED_DB_JOB"
| "db_packet_id (CallSelectTest2ProcedurePacket _ _) = GAME2DB_SELECT_TEST_2"
| "db_packet_id (CallSelectTest2ProcedurePacketReply _ _ _) = DB2GAME_SELECT_TEST_2"
| "db_packet_id (DBTest _ _) = GAME2DB_TEST"

definition GetPacketId :: "game_packet \<Rightarrow> PacketId" where
  "GetPacketId p = packet_id_value (game_packet_id p)"

definition GetDBPacketId :: "db_packet \<Rightarrow> PacketId" where
  "GetDBPacketId p = packet_id_value (db_packet_id p)"

section \<open>The streaming templates\<close>

text \<open>
  One parameter is streamed by \<open><<\<close> (the argument \<open>put\<close>, of NetBuffer or of
  CSerializationBuf), several by streaming the first one and then the others. The templates
  are not instantiated without a parameter.
\<close>

fun SetParametersToBuffer :: "(wire_value \<Rightarrow> 'b \<Rightarrow> 'b) \<Rightarrow> 'b \<Rightarrow> wire_value list \<Rightarrow> 'b" where
  "SetParametersToBuffer put buffer [] = buffer"
| "SetParametersToBuffer put buffer [param] = put param buffer"
| "SetParametersToBuffer put buffer (param # argList) =
     SetParametersToBuffer put (put param buffer) argList"

fun SetBufferToParameters ::
  "(wire_type \<Rightarrow> 'b \<Rightarrow> wire_value \<times> 'b) \<Rightarrow> 'b \<Rightarrow> wire_type list \<Rightarrow> wire_value list \<times> 'b" where
  "SetBufferToParameters get buffer [] = ([], buffer)"
| "SetBufferToParameters get buffer [t] =
     (case get t buffer of (param, buffer) \<Rightarrow> ([param], buffer))"
| "SetBufferToParameters get buffer (t # ts) =
     (case get t buffer of (param, buffer) \<Rightarrow>
        (case SetBufferToParameters get buffer ts of (params, buffer) \<Rightarrow> (param # params, buffer)))"

section \<open>SET_PARAMETERS of each packet\<close>

text \<open>
  The arguments of SET_PARAMETERS, with the members' values; a packet without the macro
  inherits the empty member functions of IGameAndClientPacket.
\<close>

fun packet_params :: "game_packet \<Rightarrow> wire_value list" where
  "packet_params (TestStringPacket s) = [FString s]"
| "packet_params (EchoStringPacket cs) = [FChars cs]"
| "packet_params (TestProcedurePacket i s) = [FInt i, FWString s]"
| "packet_params (SelectTest2ProcedurePacket i) = [FLongLong i]"
| "packet_params Ping = []"
| "packet_params Pong = []"
| "packet_params RequestFileStream = []"
| "packet_params (ResponseFileStream cs) = [FChars cs]"

text \<open>Assigning the parameters that were read to the members they are references to.\<close>

fun assign_params :: "game_packet \<Rightarrow> wire_value list \<Rightarrow> game_packet" where
  "assign_params (TestStringPacket _) [FString s] = TestStringPacket s"
| "assign_params (EchoStringPacket _) [FChars cs] = EchoStringPacket cs"
| "assign_params (TestProcedurePacket _ _) [FInt i, FWString s] = TestProcedurePacket i s"
| "assign_params (SelectTest2ProcedurePacket _) [FLongLong i] = SelectTest2ProcedurePacket i"
| "assign_params (ResponseFileStream _) [FChars cs] = ResponseFileStream cs"
| "assign_params p _ = p"

definition PacketToBuffer :: "net_ops \<Rightarrow> game_packet \<Rightarrow> NetBuffer \<Rightarrow> NetBuffer" where
  "PacketToBuffer no p buffer = SetParametersToBuffer (nb_put no) buffer (packet_params p)"

definition BufferToPacket :: "net_ops \<Rightarrow> game_packet \<Rightarrow> NetBuffer \<Rightarrow> game_packet \<times> NetBuffer" where
  "BufferToPacket no p buffer =
     (case SetBufferToParameters (nb_get no) buffer (map wire_type_of (packet_params p)) of
        (params, buffer) \<Rightarrow> (assign_params p params, buffer))"

text \<open>
  SET_PARAMETERS_TO_BUFFER_DB_PACKET of each database packet. DBJobStart and DBJobReply do not
  use the macro: their members are not streamed.
\<close>

fun db_packet_params :: "db_packet \<Rightarrow> wire_value list" where
  "db_packet_params (DBJobStart _ _) = []"
| "db_packet_params (DBJobReply _ _) = []"
| "db_packet_params (CallSelectTest2ProcedurePacket s i) = [FUInt64 s, FLongLong i]"
| "db_packet_params (CallSelectTest2ProcedurePacketReply s ns ss) = [FUInt64 s, FIntList ns, FStringList ss]"
| "db_packet_params (DBTest i s) = [FInt i, FWString s]"

definition DBPacketToBuffer :: "(wire_value \<Rightarrow> 'b \<Rightarrow> 'b) \<Rightarrow> db_packet \<Rightarrow> 'b \<Rightarrow> 'b" where
  "DBPacketToBuffer put p buffer = SetParametersToBuffer put buffer (db_packet_params p)"

section \<open>Streaming and reading back\<close>

definition no_array :: "wire_value \<Rightarrow> bool" where
  "no_array v \<longleftrightarrow> (case v of FChars _ \<Rightarrow> False | _ \<Rightarrow> True)"

lemma no_array_type: "no_array v \<Longrightarrow> wire_type_of v \<noteq> TChars n"
  by (cases v) (simp_all add: no_array_def)

lemma SetParametersToBuffer_eq_fold: "SetParametersToBuffer put b vs = fold put vs b"
  by (induction put b vs rule: SetParametersToBuffer.induct) simp_all

lemma SetBufferToParameters_Cons:
  "SetBufferToParameters get b (t # ts) =
     (case get t b of (v, b) \<Rightarrow> (case SetBufferToParameters get b ts of (vs, b) \<Rightarrow> (v # vs, b)))"
  by (cases ts) (simp_all split: prod.split)

lemma SetBufferToParameters_reads:
  assumes laws: "net_read_laws no flds" and "list_all no_array vs" and "flds b = vs @ rest"
  shows "\<exists>b'. SetBufferToParameters (nb_get no) b (map wire_type_of vs) = (vs, b') \<and> flds b' = rest"
  using assms(2,3)
proof (induction vs arbitrary: b)
  case (Cons v vs)
  then obtain b1 where "nb_get no (wire_type_of v) b = (v, b1)" and "flds b1 = vs @ rest"
    using net_read_get [OF laws, of b v "vs @ rest"] no_array_type [of v] by auto
  with Cons.IH [of b1] Cons.prems(1) show ?case
    by (auto simp: SetBufferToParameters_Cons)
qed simp

lemma assign_own_params:
  "game_packet_id p = game_packet_id q \<Longrightarrow> assign_params q (packet_params p) = p"
  by (cases p; cases q) simp_all

lemma params_types_by_id:
  "game_packet_id p = game_packet_id q \<Longrightarrow> list_all no_array (packet_params p) \<Longrightarrow>
   map wire_type_of (packet_params q) = map wire_type_of (packet_params p)"
  by (cases p; cases q) (simp_all add: no_array_def)

lemma BufferToPacket_reads:
  assumes laws: "net_read_laws no flds" and "list_all no_array (packet_params p)"
    and "flds b = packet_params p @ rest" and "game_packet_id q = game_packet_id p"
  shows "\<exists>b'. BufferToPacket no q b = (p, b') \<and> flds b' = rest"
proof -
  obtain b' where "SetBufferToParameters (nb_get no) b (map wire_type_of (packet_params p)) =
      (packet_params p, b')" and "flds b' = rest"
    using SetBufferToParameters_reads [OF assms(1-3)] by blast
  then show ?thesis
    using assms(2,4) params_types_by_id [of p q] assign_own_params [of p q]
    by (simp add: BufferToPacket_def)
qed

end
