(* ===== verification/Dispatch.thy ===== *)
theory Dispatch
  imports Protocol
begin

text \<open>
  PacketManager: the tables that map a packet id to the class of the packet, and
  RIOTestSession::OnRecvPacket, which dispatches a received buffer through them. The locale
  \<open>dispatch_table\<close> is the contract of a table filled by \<open>map[id] = entry\<close>; the two tables of
  PacketManager and the one of ProcedureReplyHandler (ReplyHandler theory) are its instances.
\<close>

section \<open>Dispatch tables\<close>

locale dispatch_table =
  fixes register :: "'c \<Rightarrow> 'm \<Rightarrow> 'm"
    and lookup :: "'m \<Rightarrow> PacketId \<Rightarrow> 'c option"
    and id_of :: "'c \<Rightarrow> PacketId"
  assumes lookup_register: "lookup (register c m) k = (if k = id_of c then Some c else lookup m k)"
begin

lemma lookup_fold_other:
  "k \<notin> id_of ` set cs \<Longrightarrow> lookup (fold register cs m) k = lookup m k"
  by (induction cs arbitrary: m) (auto simp: lookup_register)

lemma lookup_fold_member:
  "distinct (map id_of cs) \<Longrightarrow> c \<in> set cs \<Longrightarrow> lookup (fold register cs m) (id_of c) = Some c"
proof (induction cs arbitrary: m)
  case (Cons d cs)
  show ?case
  proof (cases "c = d")
    case True
    with Cons.prems show ?thesis by (simp add: lookup_fold_other lookup_register)
  next
    case False
    with Cons show ?thesis by auto
  qed
qed simp

lemma lookup_fold_Some:
  assumes "distinct (map id_of cs)" and "\<And>k. lookup m k = None"
  shows "lookup (fold register cs m) k = Some c \<longleftrightarrow> c \<in> set cs \<and> k = id_of c"
proof (cases "k \<in> id_of ` set cs")
  case True
  then obtain d where d: "d \<in> set cs" "k = id_of d" by auto
  with assms(1) lookup_fold_member [of cs d m] show ?thesis
    by (auto simp: distinct_map inj_on_def)
next
  case False
  with assms(2) lookup_fold_other [of k cs m] show ?thesis by auto
qed

end

section \<open>PacketManager\<close>

text \<open>
  A class registered at the packet manager. The functions stored in the two maps differ only in
  the class they were instantiated for, so the class stands for them.
\<close>

datatype packet_class =
    Class_TestStringPacket | Class_EchoStringPacket | Class_TestProcedurePacket
  | Class_SelectTest2ProcedurePacket | Class_Ping | Class_RequestFileStream

text \<open>\<open>std::make_shared<PacketType>()\<close>: a value-initialised object.\<close>

fun make_shared_packet :: "packet_class \<Rightarrow> game_packet" where
  "make_shared_packet Class_TestStringPacket = TestStringPacket ''''"
| "make_shared_packet Class_EchoStringPacket = EchoStringPacket (replicate 30 0)"
| "make_shared_packet Class_TestProcedurePacket = TestProcedurePacket 0 []"
| "make_shared_packet Class_SelectTest2ProcedurePacket = SelectTest2ProcedurePacket 0"
| "make_shared_packet Class_Ping = Ping"
| "make_shared_packet Class_RequestFileStream = RequestFileStream"

record PacketManager =
  packetFactoryFunctionMap :: "PacketId \<rightharpoonup> packet_class"
  packetHandlerMap :: "PacketId \<rightharpoonup> packet_class"

definition empty_PacketManager :: PacketManager where
  "empty_PacketManager = \<lparr>packetFactoryFunctionMap = Map.empty, packetHandlerMap = Map.empty\<rparr>"

definition class_id :: "packet_class \<Rightarrow> PacketId" where
  "class_id c = GetPacketId (make_shared_packet c)"

definition RegisterPacket :: "packet_class \<Rightarrow> PacketManager \<Rightarrow> PacketManager" where
  "RegisterPacket c pm =
     pm\<lparr>packetFactoryFunctionMap := (packetFactoryFunctionMap pm)(class_id c \<mapsto> c)\<rparr>"

definition RegisterPacketHandler :: "packet_class \<Rightarrow> PacketManager \<Rightarrow> PacketManager" where
  "RegisterPacketHandler c pm = pm\<lparr>packetHandlerMap := (packetHandlerMap pm)(class_id c \<mapsto> c)\<rparr>"

definition REGISTER_PACKET :: "packet_class \<Rightarrow> PacketManager \<Rightarrow> PacketManager" where
  "REGISTER_PACKET c pm = RegisterPacketHandler c (RegisterPacket c pm)"

definition REGISTER_PACKET_LIST :: "packet_class list" where
  "REGISTER_PACKET_LIST =
     [Class_TestStringPacket, Class_EchoStringPacket, Class_TestProcedurePacket,
      Class_SelectTest2ProcedurePacket, Class_Ping, Class_RequestFileStream]"

definition PacketManager_Init :: "PacketManager \<Rightarrow> PacketManager" where
  "PacketManager_Init pm = fold REGISTER_PACKET REGISTER_PACKET_LIST pm"

definition MakePacket :: "PacketManager \<Rightarrow> PacketId \<Rightarrow> game_packet option" where
  "MakePacket pm packetId =
     (case packetFactoryFunctionMap pm packetId of
        None \<Rightarrow> None
      | Some factoryFunc \<Rightarrow> Some (make_shared_packet factoryFunc))"

definition GetPacketHandler :: "PacketManager \<Rightarrow> PacketId \<Rightarrow> packet_class option" where
  "GetPacketHandler pm packetId =
     (case packetHandlerMap pm packetId of None \<Rightarrow> None | Some handler \<Rightarrow> Some handler)"

section \<open>OnRecvPacket\<close>

text \<open>
  A \<open>std::any\<close> that holds a pointer to a packet: \<open>std::any_cast\<close> succeeds at exactly the type
  of pointer that was stored, and throws \<open>std::bad_any_cast\<close> at any other one, related by
  inheritance or not. Nothing in the repository catches it.
\<close>

datatype pointer_type = IPacket_ptr | IGameAndClientPacket_ptr

datatype 'p any_packet = Any pointer_type 'p

fun any_cast :: "pointer_type \<Rightarrow> 'p any_packet \<Rightarrow> 'p outcome" where
  "any_cast t (Any t' p) = (if t = t' then Inr p else Inl UncaughtException)"

text \<open>
  \<open>static_cast\<close> from the base class to the registered class \<open>c\<close>: it tests nothing, and the result has
  no meaning for an object of another class.
\<close>

definition static_cast :: "packet_class \<Rightarrow> game_packet \<Rightarrow> game_packet outcome" where
  "static_cast c p =
     (if game_packet_id (make_shared_packet c) = game_packet_id p then Inr p else Inl UndefinedBehaviour)"

text \<open>
  The lambda of RegisterPacketHandler for the class \<open>c\<close>. The overload set HandlePacket is the argument
  \<open>handle\<close>: the constructor of the packet selects the overload, as its static type does.
\<close>

definition packet_handler ::
  "net_ops \<Rightarrow> (game_packet \<Rightarrow> 'w \<Rightarrow> 'w outcome) \<Rightarrow> packet_class \<Rightarrow> NetBuffer \<Rightarrow> game_packet any_packet \<Rightarrow> 'w \<Rightarrow>
   'w outcome" where
  "packet_handler no handle c buffer packet w =
     obind (any_cast IGameAndClientPacket_ptr packet) (\<lambda>p.
       obind (static_cast c p) (\<lambda>realPacket.
         case BufferToPacket no realPacket buffer of (realPacket, buffer) \<Rightarrow> handle realPacket w))"

fun read_UInt :: "wire_value \<Rightarrow> u32" where
  "read_UInt (FUInt v) = v"
| "read_UInt _ = 0"

definition OnRecvPacket ::
  "net_ops \<Rightarrow> PacketManager \<Rightarrow> (game_packet \<Rightarrow> 'w \<Rightarrow> 'w outcome) \<Rightarrow> NetBuffer \<Rightarrow> 'w \<Rightarrow> 'w outcome" where
  "OnRecvPacket no pm handle recvPacket w =
     (case nb_get no TUInt recvPacket of (v, recvPacket) \<Rightarrow>
        let packetId = read_UInt v
        in case GetPacketHandler pm packetId of
             None \<Rightarrow> Inr w
           | Some packetHandler \<Rightarrow>
               (case MakePacket pm packetId of
                  None \<Rightarrow> Inr w
                | Some packet \<Rightarrow> packet_handler no handle packetHandler recvPacket (Any IPacket_ptr packet) w))"

text \<open>
  RIOTestSession::SendPacket(IGameAndClientPacket&) up to the call of the overload for a buffer:
  \<open>None\<close> is the branch that gives up without a buffer.
\<close>

definition marshal_packet :: "net_ops \<Rightarrow> game_packet \<Rightarrow> NetBuffer option" where
  "marshal_packet no p =
     (case nb_Alloc no of
        None \<Rightarrow> None
      | Some buffer \<Rightarrow> Some (PacketToBuffer no p (nb_put no (FUInt (GetPacketId p)) buffer)))"

section \<open>The tables after Init\<close>

interpretation factory: dispatch_table RegisterPacket packetFactoryFunctionMap class_id
  by unfold_locales (simp add: RegisterPacket_def)

interpretation handlers: dispatch_table RegisterPacketHandler packetHandlerMap class_id
  by unfold_locales (simp add: RegisterPacketHandler_def)

lemma fold_REGISTER_PACKET:
  "packetFactoryFunctionMap (fold REGISTER_PACKET cs pm) = packetFactoryFunctionMap (fold RegisterPacket cs pm)"
  "packetHandlerMap (fold REGISTER_PACKET cs pm) = packetHandlerMap (fold RegisterPacketHandler cs pm)"
  by (induction cs arbitrary: pm rule: rev_induct)
    (simp_all add: REGISTER_PACKET_def RegisterPacket_def RegisterPacketHandler_def)

lemma registered_distinct: "distinct (map class_id REGISTER_PACKET_LIST)"
  by (simp add: REGISTER_PACKET_LIST_def class_id_def GetPacketId_def)

lemma registered_all: "c \<in> set REGISTER_PACKET_LIST"
  by (cases c) (simp_all add: REGISTER_PACKET_LIST_def)

lemma class_id_inj [simp]: "class_id c = class_id d \<longleftrightarrow> c = d"
  using registered_distinct registered_all by (auto simp: distinct_map inj_on_def)

lemma Init_tables:
  "packetFactoryFunctionMap (PacketManager_Init empty_PacketManager) k = Some c \<longleftrightarrow> k = class_id c"
  "packetHandlerMap (PacketManager_Init empty_PacketManager) k = Some c \<longleftrightarrow> k = class_id c"
  unfolding PacketManager_Init_def fold_REGISTER_PACKET
  by (simp_all add: factory.lookup_fold_Some handlers.lookup_fold_Some registered_distinct
      registered_all empty_PacketManager_def)

lemma class_id_of_packet:
  "class_id c = GetPacketId p \<longleftrightarrow> game_packet_id (make_shared_packet c) = game_packet_id p"
  by (simp add: class_id_def GetPacketId_def)

lemma class_ids: "(\<exists>c. k = class_id c) \<longleftrightarrow> k \<in> {1, 2, 3, 4, 6, 8}"
proof -
  have "class_id ` set REGISTER_PACKET_LIST = {1, 2, 3, 4, 6, 8}"
    by (simp add: REGISTER_PACKET_LIST_def class_id_def GetPacketId_def)
  then show ?thesis using registered_all by blast
qed

text \<open>The two tables of an initialised packet manager hold the same ids.\<close>

lemma Init_lookups:
  "k = class_id c \<Longrightarrow> GetPacketHandler (PacketManager_Init empty_PacketManager) k = Some c \<and>
     MakePacket (PacketManager_Init empty_PacketManager) k = Some (make_shared_packet c)"
  "k \<notin> {1, 2, 3, 4, 6, 8} \<Longrightarrow> GetPacketHandler (PacketManager_Init empty_PacketManager) k = None \<and>
     MakePacket (PacketManager_Init empty_PacketManager) k = None"
proof -
  let ?pm = "PacketManager_Init empty_PacketManager"
  assume "k = class_id c"
  then have "packetFactoryFunctionMap ?pm k = Some c" "packetHandlerMap ?pm k = Some c"
    using Init_tables by auto
  then show "GetPacketHandler ?pm k = Some c \<and> MakePacket ?pm k = Some (make_shared_packet c)"
    by (simp add: GetPacketHandler_def MakePacket_def)
next
  let ?pm = "PacketManager_Init empty_PacketManager"
  assume "k \<notin> {1, 2, 3, 4, 6, 8}"
  then have "packetFactoryFunctionMap ?pm k = None" "packetHandlerMap ?pm k = None"
    using Init_tables class_ids [of k] by (metis not_None_eq)+
  then show "GetPacketHandler ?pm k = None \<and> MakePacket ?pm k = None"
    by (simp add: GetPacketHandler_def MakePacket_def)
qed

section \<open>Properties\<close>

text \<open>
  After PacketManager::Init the ids 1, 2, 3, 4, 6 and 8 have a handler and a factory, and no
  other id has either; the factory of an id makes a packet with this id.
\<close>

lemma Init_registers_exactly:
  "map_option GetPacketId (MakePacket (PacketManager_Init empty_PacketManager) k) =
     (if k \<in> {1, 2, 3, 4, 6, 8} then Some k else None) \<and>
   (GetPacketHandler (PacketManager_Init empty_PacketManager) k \<noteq> None \<longleftrightarrow> k \<in> {1, 2, 3, 4, 6, 8})"
proof (cases "k \<in> {1, 2, 3, 4, 6, 8}")
  case True
  then obtain c where c: "k = class_id c" using class_ids by blast
  with True Init_lookups(1) [OF c] show ?thesis
    by (simp add: class_id_def)
next
  case False
  with Init_lookups(2) [OF False] show ?thesis by simp
qed

text \<open>An id that the packet manager of the program has a handler for.\<close>

definition registered :: "PacketId \<Rightarrow> bool" where
  "registered k \<longleftrightarrow> GetPacketHandler (PacketManager_Init empty_PacketManager) k \<noteq> None"

lemma registered_iff: "registered k \<longleftrightarrow> k \<in> {1, 2, 3, 4, 6, 8}"
proof (cases "k \<in> {1, 2, 3, 4, 6, 8}")
  case True
  then obtain c where "k = class_id c" using class_ids by blast
  from Init_lookups(1) [OF this] True show ?thesis by (simp add: registered_def)
next
  case False
  with Init_lookups(2) [OF False] show ?thesis by (simp add: registered_def)
qed

lemma OnRecvPacket_by_id:
  assumes laws: "net_read_laws no flds" and "flds b = FUInt k # rest"
  shows "OnRecvPacket no (PacketManager_Init empty_PacketManager) handle b w =
    (if registered k then Inl UncaughtException else Inr w)"
proof -
  obtain b' where read: "nb_get no TUInt b = (FUInt k, b')"
    using net_read_get [OF laws assms(2)] by auto
  show ?thesis
  proof (cases "k \<in> {1, 2, 3, 4, 6, 8}")
    case True
    then obtain c where "k = class_id c" using class_ids by blast
    from Init_lookups(1) [OF this] show ?thesis
      by (simp add: OnRecvPacket_def read packet_handler_def registered_def)
  next
    case False
    with Init_lookups(2) [OF False] show ?thesis
      by (simp add: OnRecvPacket_def read registered_def)
  qed
qed

text \<open>
  OnRecvPacket ends the process with an uncaught std::bad_any_cast for every id that has a
  handler, because it stores an IPacket pointer in the std::any from which the handler takes an
  IGameAndClientPacket pointer; a packet with any other id is dropped without an effect.
\<close>

lemma OnRecvPacket_throws:
  assumes "net_read_laws no flds" and "flds b = FUInt k # rest"
  shows "OnRecvPacket no (PacketManager_Init empty_PacketManager) handle b w =
    (if k \<in> {1, 2, 3, 4, 6, 8} then Inl UncaughtException else Inr w)"
  by (simp add: OnRecvPacket_by_id [OF assms] registered_iff)

section \<open>The casts of the handlers\<close>

lemma assign_params_id [simp]: "game_packet_id (assign_params p vs) = game_packet_id p"
  by (induction p vs rule: assign_params.induct) simp_all

lemma BufferToPacket_id [simp]: "game_packet_id (fst (BufferToPacket no p b)) = game_packet_id p"
  by (simp add: BufferToPacket_def split: prod.split)

text \<open>What holds of the two tables after any registrations.\<close>

definition tables_typed :: "PacketManager \<Rightarrow> bool" where
  "tables_typed pm \<longleftrightarrow> packetHandlerMap pm = packetFactoryFunctionMap pm \<and>
     (\<forall>k c. packetFactoryFunctionMap pm k = Some c \<longrightarrow> k = class_id c)"

lemma REGISTER_PACKET_typed: "tables_typed pm \<Longrightarrow> tables_typed (REGISTER_PACKET c pm)"
  by (simp add: tables_typed_def REGISTER_PACKET_def RegisterPacket_def RegisterPacketHandler_def)

lemma registered_typed: "tables_typed (fold REGISTER_PACKET cs empty_PacketManager)"
proof (induction cs rule: rev_induct)
  case Nil
  show ?case by (simp add: tables_typed_def empty_PacketManager_def)
next
  case (snoc c cs)
  then show ?case by (simp add: REGISTER_PACKET_typed)
qed

text \<open>
  C11: The casts of the dispatch are sound, whatever classes are registered, in whatever order and however
  often: a handler that is found for an id has a factory that makes an object of the handler's own
  class, with this id, and reading the members leaves it of this class. With the pointer type that it asks
  for, the handler would read the packet and call the overload of its class, without undefined behaviour;
  what OnRecvPacket gets wrong is only the pointer type that it stores.
\<close>

theorem dispatch_casts_soundly:
  assumes "GetPacketHandler (fold REGISTER_PACKET cs empty_PacketManager) k = Some c"
  shows "\<exists>p. MakePacket (fold REGISTER_PACKET cs empty_PacketManager) k = Some p \<and> GetPacketId p = k \<and>
    game_packet_id (fst (BufferToPacket no p b)) = game_packet_id p \<and>
    packet_handler no handle c b (Any IGameAndClientPacket_ptr p) w = handle (fst (BufferToPacket no p b)) w"
proof -
  let ?pm = "fold REGISTER_PACKET cs empty_PacketManager"
  from assms registered_typed [of cs] have "packetFactoryFunctionMap ?pm k = Some c" "k = class_id c"
    by (auto simp: GetPacketHandler_def tables_typed_def split: option.splits)
  then have "MakePacket ?pm k = Some (make_shared_packet c)" "GetPacketId (make_shared_packet c) = k"
    by (simp_all add: MakePacket_def class_id_def)
  then show ?thesis
    by (intro exI [of _ "make_shared_packet c"]) (simp add: packet_handler_def static_cast_def split: prod.split)
qed

text \<open>The fields of the buffer that SendPacket fills, when they fit.\<close>

lemma marshal_packet_fields:
  assumes "net_stream_laws no sz flds" and "net_fits no sz (FUInt (GetPacketId p) # packet_params p)"
  obtains b where "marshal_packet no p = Some b" and "flds b = FUInt (GetPacketId p) # packet_params p"
proof -
  let ?fs = "FUInt (GetPacketId p) # packet_params p"
  obtain b where b: "nb_Alloc no = Some b" "flds (fold (nb_put no) ?fs b) = ?fs"
    using net_stream_puts [OF assms] .
  then have "marshal_packet no p = Some (fold (nb_put no) ?fs b)"
    by (simp add: marshal_packet_def PacketToBuffer_def SetParametersToBuffer_eq_fold)
  then show thesis using that b(2) by blast
qed

text \<open>
  C12: A packet of a registered class without array members that fits a buffer is read back from
  the buffer that SendPacket streams it into: the id at the front finds a factory, and
  BufferToPacket on the object that the factory makes restores every member of the packet and
  consumes all of the buffer.
\<close>

theorem packet_roundtrip:
  assumes laws: "net_stream_laws no sz flds" and p: "list_all no_array (packet_params p)"
    and id: "GetPacketId p \<in> {1, 2, 3, 4, 6, 8}"
    and fits: "net_fits no sz (FUInt (GetPacketId p) # packet_params p)"
  shows "\<exists>b b1 q b2. marshal_packet no p = Some b \<and> nb_get no TUInt b = (FUInt (GetPacketId p), b1) \<and>
    MakePacket (PacketManager_Init empty_PacketManager) (GetPacketId p) = Some q \<and>
    BufferToPacket no q b1 = (p, b2) \<and> flds b2 = []"
proof -
  note read = net_stream_read [OF laws]
  obtain b where b: "marshal_packet no p = Some b" "flds b = FUInt (GetPacketId p) # packet_params p"
    using marshal_packet_fields [OF laws fits] .
  from net_read_get [OF read b(2)] obtain b1 where b1:
    "nb_get no TUInt b = (FUInt (GetPacketId p), b1)" "flds b1 = packet_params p" by auto
  from id obtain c where c: "GetPacketId p = class_id c" using class_ids by blast
  then have "game_packet_id (make_shared_packet c) = game_packet_id p"
    using class_id_of_packet [of c p] by simp
  from BufferToPacket_reads [OF read p _ this, of b1 "[]"] b1(2) obtain b2
    where "BufferToPacket no (make_shared_packet c) b1 = (p, b2)" "flds b2 = []" by auto
  with b b1 Init_lookups(1) [OF c] show ?thesis by auto
qed

section \<open>Witnesses\<close>

theorem dispatch_casts_soundly_witness:
  "\<exists>p. MakePacket (fold REGISTER_PACKET [Class_Ping, Class_TestStringPacket] empty_PacketManager) 1 = Some p \<and>
    packet_handler stream_net (\<lambda>p w. Inr (p # w)) Class_TestStringPacket (store_fields [FString ''hi''] blank_buffer)
      (Any IGameAndClientPacket_ptr p) [] = Inr [TestStringPacket ''hi'']"
proof -
  have k: "class_id Class_Ping = 6" "class_id Class_TestStringPacket = 1" by (simp_all add: class_id_def GetPacketId_def)
  have "GetPacketHandler (fold REGISTER_PACKET [Class_Ping, Class_TestStringPacket] empty_PacketManager) 1 =
      Some Class_TestStringPacket"
    by (simp add: GetPacketHandler_def REGISTER_PACKET_def RegisterPacket_def RegisterPacketHandler_def k)
  from dispatch_casts_soundly [OF this, of stream_net "store_fields [FString ''hi''] blank_buffer" "\<lambda>p w. Inr (p # w)" "[]"]
  show ?thesis
    by (auto simp: MakePacket_def REGISTER_PACKET_def RegisterPacket_def RegisterPacketHandler_def k
        BufferToPacket_def stream_net_def)
qed

lemma OnRecvPacket_throws_witness:
  "OnRecvPacket stream_net (PacketManager_Init empty_PacketManager) (\<lambda>p w. Inr (Suc w))
     (store_fields [FUInt 6] blank_buffer) 0 = Inl UncaughtException"
  using OnRecvPacket_throws [OF net_stream_read [OF stream_net_laws], of "store_fields [FUInt 6] blank_buffer" 6 "[]"]
  by simp

theorem packet_roundtrip_witness:
  "\<exists>b b1 q b2. marshal_packet stream_net (TestProcedurePacket 7 [72, 105]) = Some b \<and>
    nb_get stream_net TUInt b = (FUInt 3, b1) \<and>
    MakePacket (PacketManager_Init empty_PacketManager) 3 = Some q \<and>
    BufferToPacket stream_net q b1 = (TestProcedurePacket 7 [72, 105], b2) \<and> stored_fields b2 = []"
  using packet_roundtrip [OF stream_net_laws, of "TestProcedurePacket 7 [72, 105]"]
  by (simp add: no_array_def GetPacketId_def net_fits_def stream_net_def)

end
