(* ===== verification/Handlers.thy ===== *)
theory Handlers
  imports Lifecycle Dispatch
begin

text \<open>
  PacketHandler.cpp: what the server does for each packet of a client, as OnRecvPacket calls it,
  and the properties of the running server with this dispatch as its handler. The requests that
  the handlers hand to the database client are returned as values; the theories of the database
  jobs take them from there.
\<close>

section \<open>Sending packets\<close>

definition session_SendPacket ::
  "('r, 'q, 'p) server_ops \<Rightarrow> nat \<Rightarrow> game_packet \<Rightarrow> ('r, 'q, 'p) server \<Rightarrow> ('r, 'q, 'p) server outcome" where
  "session_SendPacket ops a packet s =
     (case marshal_packet (so_net ops) packet of
        None \<Rightarrow> Inr s
      | Some buffer \<Rightarrow> SendPacket ops a buffer s)"

definition session_SendPacketAndDisconnect ::
  "('r, 'q, 'p) server_ops \<Rightarrow> nat \<Rightarrow> game_packet \<Rightarrow> ('r, 'q, 'p) server \<Rightarrow> ('r, 'q, 'p) server outcome" where
  "session_SendPacketAndDisconnect ops a packet s =
     (let s = upd_session a (\<lambda>x. x\<lparr>sendDisconnect := True\<rparr>) s
      in case marshal_packet (so_net ops) packet of
           None \<Rightarrow> Inr s
         | Some buffer \<Rightarrow> SendPacket ops a buffer s)"

section \<open>PacketHandler.cpp\<close>

text \<open>
  What a handler asks of the database client: a batch with one job (its packet and its rollback
  packet), or a packet on the channel of a session.
\<close>

datatype db_request = BatchRequest nat db_packet db_packet | FixedChannelRequest db_packet SessionId

text \<open>\<open>L"rollbackString"\<close> as UTF-16.\<close>

definition rollbackString :: "u16 list" where
  "rollbackString = [114, 111, 108, 108, 98, 97, 99, 107, 83, 116, 114, 105, 110, 103]"

text \<open>The overloads of HandlePacket, for the session at \<open>a\<close>; the last three ids have none.\<close>

fun HandlePacket ::
  "('r, 'q, 'p) server_ops \<Rightarrow> nat \<Rightarrow> game_packet \<Rightarrow> ('r, 'q, 'p) server \<Rightarrow>
   (db_request list \<times> ('r, 'q, 'p) server) outcome" where
  "HandlePacket ops a (TestStringPacket str) s =
     obind (session_SendPacket ops a (TestStringPacket str) s) (\<lambda>s. Inr ([], s))"
| "HandlePacket ops a (EchoStringPacket _) s = Inr ([], s)"
| "HandlePacket ops a (TestProcedurePacket i str) s =
     Inr ([BatchRequest a (DBTest i str) (DBTest (- 1) rollbackString)], s)"
| "HandlePacket ops a (SelectTest2ProcedurePacket i) s =
     Inr ([FixedChannelRequest (CallSelectTest2ProcedurePacket (sessionId (heap s a)) i) (sessionId (heap s a))], s)"
| "HandlePacket ops a Ping s = obind (session_SendPacket ops a Pong s) (\<lambda>s. Inr ([], s))"
| "HandlePacket ops a RequestFileStream s = Inr ([], s)"
| "HandlePacket ops a _ s = Inr ([], s)"

text \<open>\<open>OnRecvPacket\<close> of the session at \<open>a\<close>, with the server's part of the handlers.\<close>

definition code_onRecv ::
  "('r, 'q, 'p) server_ops \<Rightarrow> PacketManager \<Rightarrow> nat \<Rightarrow> NetBuffer \<Rightarrow> ('r, 'q, 'p) server \<Rightarrow> ('r, 'q, 'p) server outcome"
where
  "code_onRecv ops pm a recvPacket s =
     OnRecvPacket (so_net ops) pm (\<lambda>p s. obind (HandlePacket ops a p s) (\<lambda>(_, s). Inr s)) recvPacket s"

section \<open>The handlers keep their contract\<close>

lemma session_SendPacket_keeps:
  assumes pool: "pool_laws (so_pool ops) used" and inv: "inv_lost used lost hold s"
    and live: "sessionMap s k = Some a" and send: "session_SendPacket ops a p s = Inr s'"
  shows "inv_lost used lost hold s' \<and> keeps used s s'"
  using send SendPacket_keeps [OF pool inv live] inv keeps_refl
  by (auto simp: session_SendPacket_def split: option.splits)

lemma HandlePacket_keeps:
  assumes "pool_laws (so_pool ops) used" and "inv_lost used lost hold s"
    and "sessionMap s k = Some a" and "HandlePacket ops a p s = Inr (rs, s')"
  shows "inv_lost used lost hold s' \<and> keeps used s s'"
  using assms session_SendPacket_keeps [OF assms(1-3)] keeps_refl
  by (cases p) (auto simp: outcome_simps)

lemma OnRecvPacket_Inr:
  assumes "OnRecvPacket no pm handle b w = Inr w'"
  shows "w' = w \<or> (\<exists>p. handle p w = Inr w')"
  using assms
  by (auto simp: OnRecvPacket_def packet_handler_def outcome_simps Let_def split: prod.splits option.splits)

interpretation code: session_handler ops used "code_onRecv ops pm"
  for ops used pm
proof unfold_locales
  fix lost hold s k a b s'
  assume pool: "pool_laws (so_pool ops) used" and inv: "inv_lost used lost hold s"
    and live: "sessionMap s k = Some a" and run: "code_onRecv ops pm a b s = Inr s'"
  from OnRecvPacket_Inr [OF run [unfolded code_onRecv_def]]
  show "inv_lost used lost hold s' \<and> keeps used s s'"
    using inv keeps_refl HandlePacket_keeps [OF pool inv live] by (auto simp: outcome_simps)
qed

end
