(* ===== verification/ServerProps.thy ===== *)
theory ServerProps
  imports Handlers SendGate
begin

text \<open>
  The properties of the running server: what holds in every state it reaches with the dispatch
  of the repository, how a session ends, and the runs on which its counters, its lock or its
  tables go wrong.
\<close>

section \<open>Every reachable state\<close>

lemma reachable_inv:
  assumes "pool_laws (so_pool ops) used"
    and "server_run ops (code_onRecv ops pm) (initial_server h p c n maxClients) accepts lost s" and "accepts + 1 < 2 ^ 64"
  shows "inv_lost used lost None s" and "unat (nextSessionId s) = accepts + 1"
proof -
  have "unat (nextSessionId (initial_server h p c n maxClients)) = 1"
    by (simp add: initial_server_def INVALID_SESSION_ID_def)
  then show "inv_lost used lost None s" "unat (nextSessionId s) = accepts + 1"
    using code.run_inv [OF assms(1) initial_server_inv assms(2)] assms(3) by simp_all
qed

text \<open>
  C17: In every state that the server reaches with fewer than \<open>2 ^ 64 - 1\<close> connections, its
  operations not overlapping, the I/O count of a session in the session map is the number of its
  contexts that RIOReceive and RIOSend accepted and no worker has looked at; it is at least 1, and
  at most one receive and one send are outstanding, far below the 32 of each that its request
  queue is created for. Sessions that were released twice on the way make no difference.
\<close>

theorem session_io_count:
  assumes "pool_laws (so_pool ops) used"
    and "server_run ops (code_onRecv ops pm) (initial_server h p c n maxClients) accepts lost s" and "accepts + 1 < 2 ^ 64"
    and "sessionMap s k = Some a"
  shows "unat (ioCount (heap s a)) = pend s k \<and> 1 \<le> pend s k \<and>
    pend s k = pend_op s OP_RECV k + pend_op s OP_SEND k \<and> pend_op s OP_RECV k \<le> 1 \<and> pend_op s OP_SEND k \<le> 1"
proof -
  note inv = reachable_inv(1) [OF assms(1-3)]
  have ok: "live_ok None s k a" by (rule server_inv_live [OF inv assms(4)])
  have "pend s k \<le> 2" by (rule live_pend_le [OF inv assms(4)])
  moreover have "ioCount (heap s a) = of_nat (pend s k)" using ok by (simp add: live_ok_def held_def)
  ultimately have "unat (ioCount (heap s a)) = pend s k" by (simp add: unat_of_nat)
  then show ?thesis
    using ok pend_split [of used s k] inv by (auto simp: live_ok_def held_def inv_lost_def)
qed

text \<open>
  C18: In every state that the server reaches with fewer than \<open>2 ^ 64 - 1\<close> connections, its
  operations not overlapping, \<open>sessionCount\<close> is the number of entries of the session map less the
  number of sessions that were released twice on the way (\<open>lost\<close>: the packet loop gave the session
  up, the kernel refused its next receive and no send was outstanding), and the counter of each
  worker thread is the number of entries that are assigned to it less those of its sessions that
  were released twice (all modulo \<open>2 ^ 32\<close>). So the counters are right exactly up to this error, and
  never recover from it. The ids of the map are those of the sessions, below the next one.
\<close>

theorem server_counters:
  assumes "pool_laws (so_pool ops) used"
    and "server_run ops (code_onRecv ops pm) (initial_server h p c n maxClients) accepts lost s" and "accepts + 1 < 2 ^ 64"
  shows "sessionCount s = of_nat (card (dom (sessionMap s))) - of_nat (length lost) \<and>
    (\<forall>t < length (numOfSessionInWorkerThread s). numOfSessionInWorkerThread s ! t =
       of_nat (card {k. \<exists>a. sessionMap s k = Some a \<and> unat (threadId (heap s a)) = t}) - of_nat (count_list lost t)) \<and>
    (\<forall>k a. sessionMap s k = Some a \<longrightarrow> sessionId (heap s a) = k \<and> k \<le> nextSessionId s)"
  using reachable_inv(1) [OF assms] by (auto simp: inv_lost_def counts_lost_def live_ok_def)

section \<open>The end of a session\<close>

lemma zero_byte_completion:
  assumes "server_inv used None s" and "c \<in> set (pending s)"
    and "sessionMap s (ownerSessionId (contextAt s c)) = Some a"
  shows "process_result ops onRecv (Some c, 0) s = Some (IOCountDecrement a (free_context ops c (take_completion c s)))"
proof -
  have "sessionMapLock (take_completion c s) = Unlocked" using server_inv_lock [OF assms(1)] by simp
  from GetSession_Unlocked [OF this] show ?thesis
    using assms(3)
    by (cases "IOCountDecrement a (free_context ops c (take_completion c s))")
      (simp_all add: process_result_def GetIOCompletedContext_def)
qed

text \<open>The reference of a completion is given back: the last one releases the session.\<close>

lemma held_count_down:
  assumes held: "server_inv used (Some k) s" and live: "sessionMap s k = Some a"
  obtains s' where "IOCountDecrement a s = Inr s'"
    and "closedSockets s' = (if pend s k = 0 then closedSockets s @ [socket (heap s a)] else closedSockets s)"
    and "pend s k = 0 \<Longrightarrow> sessionCount s' = sessionCount s - 1 \<and>
       registeredBuffers s' = registeredBuffers s - set_option (recvBufferId (heap s a)) - set_option (sendBufferId (heap s a))"
proof (cases "pend s k = 0")
  case True
  let ?l = "OnSessionLeaved k (upd_session a (\<lambda>x. x\<lparr>ioCount := ioCount x - 1\<rparr>) s)"
  have ok: "live_ok (Some k) s k a" by (rule server_inv_live [OF held live])
  have "sessionMapLock ?l = Unlocked" "unat (threadId (heap ?l a)) < length (numOfSessionInWorkerThread ?l)"
    using server_inv_lock [OF held] ok by (simp_all add: OnSessionLeaved_def live_ok_def)
  note R = ReleaseSession_Unlocked [OF this]
  have "IOCountDecrement a s = ReleaseSession a ?l"
    using True ok by (simp add: IOCountDecrement_def live_ok_def held_def Let_def)
  with R that True show ?thesis by (simp add: OnSessionLeaved_def)
next
  case False
  have count: "ioCount (heap s a) - 1 = of_nat (pend s k)"
    using server_inv_live [OF held live] by (simp add: live_ok_def held_def)
  have "pend s k < 2 ^ 32" using live_pend_le [OF held live] by simp
  from u32_of_nat_eq_0 [OF this] False have "ioCount (heap s a) - 1 \<noteq> 0" unfolding count by simp
  then have "IOCountDecrement a s = Inr (upd_session a (\<lambda>x. x\<lparr>ioCount := ioCount x - 1\<rparr>) s)"
    by (simp add: IOCountDecrement_def Let_def)
  with that False show ?thesis by simp
qed

text \<open>
  C20: A completion without bytes lets go of the session. With another context pending the
  session stays in the map; with the last one it is released: its socket is closed, its buffers
  are deregistered, the map and the Broadcaster forget it, and the counters go down by one.
  Either way the context is back in the pool.
\<close>

theorem zero_bytes_release:
  assumes pool: "pool_laws (so_pool ops) used" and inv: "server_inv used None s"
    and c: "c \<in> set (pending s)" and k: "ownerSessionId (contextAt s c) = k" and live: "sessionMap s k = Some a"
  shows "\<exists>s'. process_result ops onRecv (Some c, 0) s = Some (Inr s') \<and> server_inv used None s' \<and>
    c \<notin> used (contextPool s') \<and>
    (if pend s k = 1
     then sessionMap s' = (sessionMap s)(k := None) \<and> sessionIdSet s' = sessionIdSet s - {k} \<and>
       closedSockets s' = closedSockets s @ [socket (heap s a)] \<and> sessionCount s' = sessionCount s - 1 \<and>
       registeredBuffers s' = registeredBuffers s - set_option (recvBufferId (heap s a)) - set_option (sendBufferId (heap s a))
     else sessionMap s' = sessionMap s \<and> sessionIdSet s' = sessionIdSet s \<and> closedSockets s' = closedSockets s)"
proof -
  let ?s = "free_context ops c (take_completion c s)"
  have "server_inv used (Some k) (take_completion c s)"
    using take_completion_inv [OF inv c] k by simp
  moreover have out: "c \<notin> set (pending (take_completion c s))"
    using inv by (simp add: inv_lost_def posts_ok_def)
  ultimately have held: "server_inv used (Some k) ?s"
    by (rule free_context_inv [OF pool])
  have live': "sessionMap ?s k = Some a" using live by (simp add: free_context_def)
  have pend: "pend s k = pend ?s k + 1"
    using take_completion_pend(1) [OF c, of k] k by (simp add: free_context_def pend_def)
  obtain s' where dec: "IOCountDecrement a ?s = Inr s'"
    and frame: "closedSockets s' = (if pend s k = 1 then closedSockets s @ [socket (heap s a)] else closedSockets s)"
      "pend s k = 1 \<Longrightarrow> sessionCount s' = sessionCount s - 1 \<and>
       registeredBuffers s' = registeredBuffers s - set_option (recvBufferId (heap s a)) - set_option (sendBufferId (heap s a))"
    by (rule held_count_down [OF held live']) (simp_all add: pend free_context_def)
  note D = IOCountDecrement_inv [OF held live' dec]
  have "process_result ops onRecv (Some c, 0) s = Some (Inr s')"
    using zero_byte_completion [OF inv c, of a ops onRecv] k live dec by simp
  moreover have "c \<notin> used (contextPool s')"
    using D(2) pool_laws_Free [OF pool] by (simp add: free_context_def)
  moreover have "pend s k = 1 \<longleftrightarrow> pend ?s k = 0" using pend by simp
  ultimately show ?thesis
    using D(1,5,6) frame by (auto simp: free_context_def)
qed

section \<open>A session released twice\<close>

text \<open>The two releases of a session that the packet loop gives up and whose next receive is refused.\<close>

lemma packet_error_second_release:
  assumes pool: "pool_laws (so_pool ops) used" and inv: "server_inv used None s"
    and c: "c \<in> set (pending s)" "ioType (contextAt s c) = OP_RECV"
    and k: "ownerSessionId (contextAt s c) = k" "sessionMap s k = Some a" "\<not> ioCancle (heap s a)" "n \<noteq> 0"
    and recv: "RecvCompleted ops (code_onRecv ops pm) a n (take_completion c s) = Some (Inr (FAILED_RECV_POST, s1))"
    and gone: "sessionMap s1 k = None" and none: "pend s1 k = 0"
    and t: "t = unat (threadId (heap s1 a))"
  shows "\<exists>s'. process_result ops (code_onRecv ops pm) (Some c, n) s = Some (Inr s') \<and>
    sessionMap s' = (sessionMap s)(k := None) \<and>
    sessionCount s' = of_nat (card (dom (sessionMap s'))) - 1 \<and>
    numOfSessionInWorkerThread s' ! t =
      of_nat (card {k. \<exists>a. sessionMap s' k = Some a \<and> unat (threadId (heap s' a)) = t}) - 1 \<and>
    last (closedSockets s') = INVALID_SOCKET \<and> released_twice ops (code_onRecv ops pm) c n s = [t]"
proof -
  let ?s = "take_completion c s"
  have held: "server_inv used (Some k) ?s" using take_completion_inv [OF inv c(1)] k(1) by simp
  have live: "sessionMap ?s k = Some a" using k(2) by simp
  have "pend_op ?s OP_RECV k = 0"
    using take_completion_pend(2) [OF c(1), of OP_RECV k] c(2) k(1) server_inv_live [OF inv k(2)]
    by (auto simp: live_ok_def)
  note R = code.RecvCompleted_inv [OF pool held live this recv]
  have "(sessionMap ?s) k \<noteq> None" using live by simp
  with R(5) gone have map1: "sessionMap s1 = (sessionMap s)(k := None)" and inv1: "server_inv used None s1"
    and count1: "ioCount (heap s1 a) = 1" and ds: "dead_session k (heap s1 a) s1"
    using none by auto
  have dead: "sessionMap s1 k' \<noteq> Some a" for k'
    using map1 server_inv_same_addr [OF held live, of k'] by auto
  let ?f = "free_context ops c s1"
  let ?d = "upd_session a (\<lambda>x. x\<lparr>ioCount := ioCount x - 1\<rparr>) ?f"
  let ?l = "OnSessionLeaved (sessionId (heap s1 a)) ?d"
  have lock: "sessionMapLock ?l = Unlocked" "unat (threadId (heap ?l a)) < length (numOfSessionInWorkerThread ?l)"
    using server_inv_lock [OF inv1] ds by (simp_all add: OnSessionLeaved_def free_context_def dead_session_def)
  have dec: "IOCountDecrement a ?f = ReleaseSession a ?l"
    using count1 by (simp add: IOCountDecrement_def free_context_def Let_def)
  obtain s' where rel: "ReleaseSession a ?l = Inr s'" using ReleaseSession_Unlocked [OF lock] by blast
  then have s': "sessionMap s' = (sessionMap s1)(k := None)" "sessionCount s' = sessionCount s1 - 1"
    "numOfSessionInWorkerThread s' = (numOfSessionInWorkerThread s1)[t := numOfSessionInWorkerThread s1 ! t - 1]"
    "closedSockets s' = closedSockets s1 @ [INVALID_SOCKET]" "\<And>b. b \<noteq> a \<Longrightarrow> heap s' b = heap s1 b"
    using ReleaseSession_Unlocked [OF lock] ds
    by (auto simp: OnSessionLeaved_def free_context_def dead_session_def t)
  have run: "process_result ops (code_onRecv ops pm) (Some c, n) s = Some (Inr s')"
    using GetSession_Unlocked [OF server_inv_lock [OF held], of k] k c(2) recv dec rel
    by (simp add: process_result_def GetIOCompletedContext_def IOCompleted_def RecvIOCompleted_def)
  have map': "sessionMap s' = sessionMap s1" using s'(1) map1 by auto
  have "{k. \<exists>a. sessionMap s' k = Some a \<and> unat (threadId (heap s' a)) = t} =
      {k. \<exists>a. sessionMap s1 k = Some a \<and> unat (threadId (heap s1 a)) = t}"
    using dead s'(5) unfolding map' by metis
  moreover have "t < length (numOfSessionInWorkerThread s1)" using ds t by (simp add: dead_session_def)
  moreover have "released_twice ops (code_onRecv ops pm) c n s = [t]"
    using k c(2) recv gone count1 t by (simp add: released_twice_def)
  ultimately show ?thesis
    using run inv1 map' map1 s'(2-4)
    by (intro exI [of _ s']) (simp add: inv_lost_def counts_lost_def)
qed

text \<open>
  C21: When the packet loop gives a session up and the kernel also refuses its next receive, and no
  send is outstanding, the worker releases the session a second time: RecvCompleted releases it
  and returns FAILED_RECV_POST, and the worker's IOCountDecrement then takes the last count.
  Afterwards \<open>sessionCount\<close> and the counter of the session's thread are one less than the number
  of sessions they count, and \<open>closesocket\<close> was called on INVALID_SOCKET.
\<close>

theorem packet_error_releases_twice:
  assumes pool: "pool_laws (so_pool ops) used" and inv: "server_inv used None s"
    and c: "c \<in> set (pending s)" "ioType (contextAt s c) = OP_RECV"
    and k: "ownerSessionId (contextAt s c) = k" "sessionMap s k = Some a" "\<not> ioCancle (heap s a)" "n \<noteq> 0"
    and recv: "RecvCompleted ops (code_onRecv ops pm) a n (take_completion c s) = Some (Inr (FAILED_RECV_POST, s1))"
    and gone: "sessionMap s1 k = None" and none: "pend s1 k = 0"
    and t: "t = unat (threadId (heap s1 a))"
  shows "\<exists>s'. process_result ops (code_onRecv ops pm) (Some c, n) s = Some (Inr s') \<and>
    sessionMap s' = (sessionMap s)(k := None) \<and>
    sessionCount s' = of_nat (card (dom (sessionMap s'))) - 1 \<and>
    numOfSessionInWorkerThread s' ! t =
      of_nat (card {k. \<exists>a. sessionMap s' k = Some a \<and> unat (threadId (heap s' a)) = t}) - 1 \<and>
    last (closedSockets s') = INVALID_SOCKET"
  using packet_error_second_release [OF assms] by blast

text \<open>
  C22: A session that the packet loop gives up, and whose next receive the kernel accepts, leaves
  the session map, but its id stays in the Broadcaster's set for as long as the ids do not wrap,
  whatever the server does from then on: only IOCountDecrement removes it, and no later
  completion of a session that is not in the map gets there. (Broadcasts skip the id, but look it
  up each time.)
\<close>

theorem packet_error_keeps_broadcast_id:
  assumes pool: "pool_laws (so_pool ops) used" and inv: "server_inv used None s"
    and c: "c \<in> set (pending s)" "ioType (contextAt s c) = OP_RECV"
    and k: "ownerSessionId (contextAt s c) = k" "sessionMap s k = Some a" "\<not> ioCancle (heap s a)" "n \<noteq> 0"
    and recv: "RecvCompleted ops (code_onRecv ops pm) a n (take_completion c s) = Some (Inr (SUCCESS, s1))"
    and gone: "sessionMap s1 k = None" and id: "k \<in> sessionIdSet s"
  shows "\<exists>s2. process_result ops (code_onRecv ops pm) (Some c, n) s = Some (Inr s2) \<and>
    (\<forall>accepts lost s'. server_run ops (code_onRecv ops pm) s2 accepts lost s' \<and>
       unat (nextSessionId s2) + accepts < 2 ^ 64 \<longrightarrow> sessionMap s' k = None \<and> k \<in> sessionIdSet s')"
proof -
  let ?s = "take_completion c s"
  let ?onRecv = "code_onRecv ops pm"
  have held: "server_inv used (Some k) ?s" using take_completion_inv [OF inv c(1)] k(1) by simp
  have live: "sessionMap ?s k = Some a" using k(2) by simp
  have "pend_op ?s OP_RECV k = 0"
    using take_completion_pend(2) [OF c(1), of OP_RECV k] c(2) k(1) server_inv_live [OF inv k(2)]
    by (auto simp: live_ok_def)
  note R = code.RecvCompleted_inv [OF pool held live this recv]
  have "(sessionMap ?s) k \<noteq> None" using live by simp
  with R(5) gone have count1: "ioCount (heap s1 a) = of_nat (pend s1 k + 1)" "0 < pend s1 k" "pend s1 k \<le> 2"
    by auto
  then have "ioCount (heap s1 a) - 1 \<noteq> 0"
    using u32_of_nat_eq_0 [of "pend s1 k"] by simp
  then have "IOCountDecrement a (free_context ops c s1) =
      Inr (upd_session a (\<lambda>x. x\<lparr>ioCount := ioCount x - 1\<rparr>) (free_context ops c s1))"
    by (simp add: IOCountDecrement_def free_context_def Let_def)
  then obtain s2 where run: "process_result ops ?onRecv (Some c, n) s = Some (Inr s2)"
    and s2: "s2 = upd_session a (\<lambda>x. x\<lparr>ioCount := ioCount x - 1\<rparr>) (free_context ops c s1)"
    using GetSession_Unlocked [OF server_inv_lock [OF held], of k] k c(2) recv
    by (simp add: process_result_def GetIOCompletedContext_def IOCompleted_def RecvIOCompleted_def)
  have inv2: "inv_lost used ([] @ released_twice ops ?onRecv c n s) None s2"
    using code.process_result_inv [OF pool inv c(1) run] by blast
  have "left_behind k s2"
    using gone id R(3,4) server_inv_live [OF inv k(2)] by (simp add: left_behind_def s2 free_context_def live_ok_def)
  then have "left_behind k s'"
    if "server_run ops ?onRecv s2 m lost s'" "unat (nextSessionId s2) + m < 2 ^ 64" for m lost s'
    using code.run_left_behind [OF pool inv2 _ that] by blast
  with run show ?thesis by (auto simp: left_behind_def)
qed

section \<open>Accepting a client\<close>

lemma InitSession_ok:
  assumes "rio_ok ops (rioCalls s)" and "rio_ok ops (rioCalls s + 1)" and "rio_ok ops (rioCalls s + 2)"
  shows "InitSession ops a s = (True, s\<lparr>rioCalls := rioCalls s + 3,
    registeredBuffers := insert (rioCalls s + 1) (insert (rioCalls s) (registeredBuffers s)),
    heap := (heap s)(a := (heap s a)\<lparr>recvBufferId := Some (rioCalls s), sendBufferId := Some (rioCalls s + 1),
      rioRQ := Some (rioCalls s + 2)\<rparr>)\<rparr>)"
  using assms
  by (simp add: InitSession_def RIORegisterBuffer_def RIOCreateRequestQueue_def Let_def numeral_3_eq_3)

text \<open>The state of MakeNewSession before its first RecvPost, when every call up to there succeeds.\<close>

definition emplaced ::
  "('r, 'q, 'p) server_ops \<Rightarrow> u64 \<Rightarrow> ('r, 'q, 'p) server \<Rightarrow> ('r, 'q, 'p) server" where
  "emplaced ops sock s =
     (let t = GetMinimumSessionThreadId s; a = nextAddr s; n = rioCalls s; k = nextSessionId s + 1
      in s\<lparr>nextSessionId := k, nextAddr := a + 1, rioCalls := n + 3,
           registeredBuffers := insert (n + 1) (insert n (registeredBuffers s)),
           heap := (heap s)(a := \<lparr>socket = sock, sessionId = k, sendDisconnect = False,
                 ioCancle = False, isReleasedSession = False, threadId = t, ioCount = 1,
                 recvRingBuffer = so_empty_ring ops, recvBufferId = Some n,
                 sendItem = \<lparr>sendQueue = so_empty_queue ops, rioSendBuffer = replicate 16384 0,
                   reservedBuffer = None, ioMode = IO_NONE_SENDING\<rparr>,
                 sendBufferId = Some (n + 1), rioRQ = Some (n + 2), rioRecvOffset = 0\<rparr>),
           numOfSessionInWorkerThread := (numOfSessionInWorkerThread s)
             [unat t := numOfSessionInWorkerThread s ! unat t + 1],
           sessionMap := (sessionMap s)(k \<mapsto> a)\<rparr>)"

lemma MakeNewSession_starts:
  assumes inv: "server_inv used None s" and wrap: "nextSessionId s \<noteq> - 1"
    and t: "unat (GetMinimumSessionThreadId s) < length (numOfSessionInWorkerThread s)"
    and ok: "rio_ok ops (rioCalls s)" "rio_ok ops (rioCalls s + 1)" "rio_ok ops (rioCalls s + 2)"
  shows "MakeNewSession ops sock s = start_session ops (nextAddr s) (emplaced ops sock s)"
proof -
  let ?k = "nextSessionId s + 1"
  have "?k \<noteq> 0"
    using less_plus_1 [OF wrap] by auto
  moreover have "sessionMap s ?k \<noteq> Some b" for b
    using server_inv_live [OF inv, of ?k b] less_plus_1 [OF wrap] by (auto simp: live_ok_def)
  then have "sessionMap s ?k = None" by (cases "sessionMap s ?k") blast+
  ultimately show ?thesis
    using t ok server_inv_lock [OF inv]
    by (simp add: MakeNewSession_def GetNewSession_def INVALID_SESSION_ID_def InitSession_ok emplace_new
        emplaced_def Let_def)
qed

lemma emplaced_simps:
  "sessionMapLock (emplaced ops sock s) = sessionMapLock s"
  "sessionMap (emplaced ops sock s) = (sessionMap s)(nextSessionId s + 1 \<mapsto> nextAddr s)"
  "sessionId (heap (emplaced ops sock s) (nextAddr s)) = nextSessionId s + 1"
  "threadId (heap (emplaced ops sock s) (nextAddr s)) = GetMinimumSessionThreadId s"
  "ioCount (heap (emplaced ops sock s) (nextAddr s)) = 1"
  "socket (heap (emplaced ops sock s) (nextAddr s)) = sock"
  "contextPool (emplaced ops sock s) = contextPool s" "contextAt (emplaced ops sock s) = contextAt s"
  "pending (emplaced ops sock s) = pending s" "rioCalls (emplaced ops sock s) = rioCalls s + 3"
  "closedSockets (emplaced ops sock s) = closedSockets s" "sessionCount (emplaced ops sock s) = sessionCount s"
  "sessionIdSet (emplaced ops sock s) = sessionIdSet s"
  "ioCancle (heap (emplaced ops sock s) (nextAddr s)) = False"
  "recvBufferId (heap (emplaced ops sock s) (nextAddr s)) = Some (rioCalls s)"
  "numOfSessionInWorkerThread (emplaced ops sock s) = (numOfSessionInWorkerThread s)
     [unat (GetMinimumSessionThreadId s) := numOfSessionInWorkerThread s ! unat (GetMinimumSessionThreadId s) + 1]"
  by (simp_all add: emplaced_def Let_def)

lemma accept_run:
  assumes pool: "pool_laws (so_pool ops) used" and inv: "server_inv used None s" and wrap: "nextSessionId s \<noteq> - 1"
    and t: "t = unat (GetMinimumSessionThreadId s)" "t < length (numOfSessionInWorkerThread s)"
    and ok: "rio_ok ops (rioCalls s)" "rio_ok ops (rioCalls s + 1)" "rio_ok ops (rioCalls s + 2)" "rio_ok ops (rioCalls s + 3)"
  shows "\<exists>s' c. Accepter ops sock s = Inr s' \<and> server_inv used None s' \<and>
    sessionMap s' = (sessionMap s)(nextSessionId s + 1 \<mapsto> nextAddr s) \<and> nextSessionId s + 1 \<in> sessionIdSet s' \<and>
    pending s' = pending s @ [c] \<and> ownerSessionId (contextAt s' c) = nextSessionId s + 1 \<and>
    ioType (contextAt s' c) = OP_RECV \<and> ioCount (heap s' (nextAddr s)) = 1 \<and> socket (heap s' (nextAddr s)) = sock \<and>
    sessionCount s' = sessionCount s + 1 \<and>
    numOfSessionInWorkerThread s' = (numOfSessionInWorkerThread s)[t := numOfSessionInWorkerThread s ! t + 1] \<and>
    rioCalls s' = rioCalls s + 4 \<and> \<not> ioCancle (heap s' (nextAddr s)) \<and>
    recvBufferId (heap s' (nextAddr s)) = Some (rioCalls s)"
proof -
  let ?e = "emplaced ops sock s"
  let ?a = "nextAddr s"
  note E = emplaced_simps [of ops sock s]
  obtain r s1 where post: "RecvPost ops ?a ?e = (r, s1)" by fastforce
  then obtain c pool ctx where p: "ownerSessionId ctx = nextSessionId s + 1" "ioType ctx = OP_RECV"
    and s1: "r = SUCCESS" "s1 = ?e\<lparr>contextPool := pool, contextAt := (contextAt s)(c := ctx), rioCalls := rioCalls ?e + 1,
        pending := pending s @ [c],
        heap := (heap ?e)(?a := (heap ?e ?a)\<lparr>ioCount := ioCount (heap ?e ?a) + 1\<rparr>)\<rparr>"
    using ok(4) by (elim RecvPostE) (simp_all add: E)
  let ?s2 = "upd_session ?a (\<lambda>x. x\<lparr>ioCount := ioCount x - 1\<rparr>) s1"
  have "IOCountDecrement ?a s1 = Inr ?s2"
    by (simp add: IOCountDecrement_def s1(2) E Let_def)
  then have "start_session ops ?a ?e = Inr (True, OnSessionEntered (sessionId (heap ?s2 ?a)) ?s2)"
    by (simp add: start_session_def post Let_def)
  then have run: "Accepter ops sock s = Inr (bump (OnSessionEntered (sessionId (heap ?s2 ?a)) ?s2))"
    using MakeNewSession_starts [OF inv wrap t(2) [unfolded t(1)] ok(1-3)] by (simp add: Accepter_def)
  then have "server_inv used None (bump (OnSessionEntered (sessionId (heap ?s2 ?a)) ?s2))"
    using Accepter_cases [OF pool inv wrap] by blast
  with run show ?thesis
    by (intro exI [of _ "bump (OnSessionEntered (sessionId (heap ?s2 ?a)) ?s2)"] exI [of _ c])
      (simp add: OnSessionEntered_def s1(2) E p t(1))
qed

text \<open>
  C23: An accepted client whose RIO calls all succeed is in the session map under a new id and in
  the Broadcaster's set, on the thread that GetMinimumSessionThreadId chose, with one receive
  outstanding and an I/O count of 1; \<open>sessionCount\<close> and the thread's counter go up by one.
\<close>

theorem Accepter_accepts:
  assumes pool: "pool_laws (so_pool ops) used" and inv: "server_inv used None s" and wrap: "nextSessionId s \<noteq> - 1"
    and t: "t = unat (GetMinimumSessionThreadId s)" "t < length (numOfSessionInWorkerThread s)"
    and ok: "rio_ok ops (rioCalls s)" "rio_ok ops (rioCalls s + 1)" "rio_ok ops (rioCalls s + 2)" "rio_ok ops (rioCalls s + 3)"
  shows "\<exists>s' c. Accepter ops sock s = Inr s' \<and> server_inv used None s' \<and>
    sessionMap s' = (sessionMap s)(nextSessionId s + 1 \<mapsto> nextAddr s) \<and> nextSessionId s + 1 \<in> sessionIdSet s' \<and>
    pending s' = pending s @ [c] \<and> ownerSessionId (contextAt s' c) = nextSessionId s + 1 \<and>
    ioType (contextAt s' c) = OP_RECV \<and> ioCount (heap s' (nextAddr s)) = 1 \<and> socket (heap s' (nextAddr s)) = sock \<and>
    sessionCount s' = sessionCount s + 1 \<and>
    numOfSessionInWorkerThread s' = (numOfSessionInWorkerThread s)[t := numOfSessionInWorkerThread s ! t + 1]"
  using accept_run [OF assms] by blast

text \<open>
  When the kernel refuses the first receive of a client, MakeNewSession nevertheless returns
  true: the session was released inside it, socket closed and counters taken back, and only then
  its id enters the Broadcaster's set, from which nothing removes it; the context that RecvPost
  took from the pool is never given back.
\<close>

lemma Accepter_refused_receive:
  assumes pool: "pool_laws (so_pool ops) used" and inv: "server_inv used None s" and wrap: "nextSessionId s \<noteq> - 1"
    and t: "unat (GetMinimumSessionThreadId s) < length (numOfSessionInWorkerThread s)"
    and ok: "rio_ok ops (rioCalls s)" "rio_ok ops (rioCalls s + 1)" "rio_ok ops (rioCalls s + 2)"
      "\<not> rio_ok ops (rioCalls s + 3)"
  shows "\<exists>s1 s' c. MakeNewSession ops sock s = Inr (True, s1) \<and> Accepter ops sock s = Inr s' \<and>
    sessionMap s' = sessionMap s \<and> closedSockets s' = closedSockets s @ [sock] \<and> sessionCount s' = sessionCount s \<and>
    nextSessionId s + 1 \<in> sessionIdSet s' \<and> pending s' = pending s \<and>
    c \<notin> used (contextPool s) \<and> used (contextPool s') = insert c (used (contextPool s))"
proof -
  let ?e = "emplaced ops sock s"
  let ?a = "nextAddr s"
  let ?k = "nextSessionId s + 1"
  note E = emplaced_simps [of ops sock s]
  have "sessionMap s ?k \<noteq> Some b" for b
    using server_inv_live [OF inv, of ?k b] less_plus_1 [OF wrap] by (auto simp: live_ok_def)
  then have none: "sessionMap s ?k = None" by (cases "sessionMap s ?k") blast+
  obtain r s1 where post: "RecvPost ops ?a ?e = (r, s1)" by fastforce
  then obtain c pool ctx where p: "pool_Alloc (so_pool ops) (contextPool s) = (c, pool)"
    and s1: "r = FAILED_RECV_POST" "s1 = ?e\<lparr>contextPool := pool, contextAt := (contextAt s)(c := ctx), rioCalls := rioCalls ?e + 1, pending := pending s,
        heap := heap ?e\<rparr>"
    using ok(4) by (elim RecvPostE) (simp_all add: E)
  let ?d = "upd_session ?a (\<lambda>x. x\<lparr>ioCount := ioCount x - 1\<rparr>) s1"
  let ?l = "OnSessionLeaved ?k ?d"
  have "sessionMapLock ?l = Unlocked" "unat (threadId (heap ?l ?a)) < length (numOfSessionInWorkerThread ?l)"
    using server_inv_lock [OF inv] t by (simp_all add: OnSessionLeaved_def s1(2) E)
  note R = ReleaseSession_Unlocked [OF this]
  have dec: "IOCountDecrement ?a s1 = ReleaseSession ?a ?l"
    by (simp add: IOCountDecrement_def s1(2) E Let_def)
  obtain s2 where s2: "ReleaseSession ?a ?l = Inr s2" "sessionMap s2 = sessionMap s" "closedSockets s2 = closedSockets s @ [sock]"
    "sessionCount s2 = sessionCount s - 1" "pending s2 = pending s" "contextPool s2 = pool"
    "sessionId (heap s2 ?a) = ?k"
  proof -
    have "(sessionMap s)(?k := None) = sessionMap s" using none by auto
    then show thesis using R that by (simp add: OnSessionLeaved_def s1(2) E)
  qed
  have start: "start_session ops ?a ?e = Inr (True, OnSessionEntered ?k s2)"
    using s2 by (simp add: start_session_def post dec Let_def)
  then have "MakeNewSession ops sock s = Inr (True, OnSessionEntered ?k s2)"
    using MakeNewSession_starts [OF inv wrap t ok(1-3)] by simp
  moreover from this have "Accepter ops sock s = Inr (bump (OnSessionEntered ?k s2))"
    by (simp add: Accepter_def)
  ultimately show ?thesis
    using s2 pool_laws_Alloc [OF pool p]
    by (intro exI [of _ "OnSessionEntered ?k s2"] exI [of _ "bump (OnSessionEntered ?k s2)"] exI [of _ c])
      (simp add: OnSessionEntered_def)
qed

text \<open>
  A failing InitSession leaks: when the buffer for receiving was registered and a later call
  is refused, the session is given up without RIODeregisterBuffer, and the handle of the
  registered buffer is lost with the object.
\<close>

lemma InitSession_failure_leaks:
  assumes wrap: "nextSessionId s \<noteq> - 1"
    and t: "unat (GetMinimumSessionThreadId s) < length (numOfSessionInWorkerThread s)"
    and ok: "rio_ok ops (rioCalls s)" "\<not> rio_ok ops (rioCalls s + 1)"
  shows "\<exists>s'. Accepter ops sock s = Inr s' \<and> sessionMap s' = sessionMap s \<and>
    closedSockets s' = closedSockets s @ [sock] \<and> registeredBuffers s' = insert (rioCalls s) (registeredBuffers s)"
proof -
  have "nextSessionId s + 1 \<noteq> 0" using less_plus_1 [OF wrap] by auto
  then show ?thesis
    using ok t by (simp add: Accepter_def MakeNewSession_def GetNewSession_def INVALID_SESSION_ID_def
        InitSession_def RIORegisterBuffer_def Let_def)
qed

text \<open>
  A session id that is taken blocks the server: MakeNewSession calls IOCountDecrement inside
  the scope of the write lock on the session map, which releases the new session and asks for
  the same lock again. The accepter thread waits for itself, holding the lock of the map.
\<close>

lemma duplicate_id_deadlocks:
  assumes lock: "sessionMapLock s = Unlocked" and wrap: "nextSessionId s \<noteq> - 1"
    and taken: "sessionMap s (nextSessionId s + 1) = Some b"
    and t: "unat (GetMinimumSessionThreadId s) < length (numOfSessionInWorkerThread s)"
    and ok: "rio_ok ops (rioCalls s)" "rio_ok ops (rioCalls s + 1)" "rio_ok ops (rioCalls s + 2)"
  shows "MakeNewSession ops sock s = Inl SelfDeadlock"
proof -
  have "nextSessionId s + 1 \<noteq> 0" using less_plus_1 [OF wrap] by auto
  then show ?thesis
    using assms
    by (simp add: MakeNewSession_def GetNewSession_def INVALID_SESSION_ID_def InitSession_ok emplace_session_def
        with_map_lock_def scoped_def ScopeSRWLock_def AcquireSRWLockExclusive_def IOCountDecrement_def
        OnSessionLeaved_def ReleaseSession_def Let_def)
qed

text \<open>
  C24: RecvPost counts a receive only after the kernel has it, and while the accepter is between
  the two, a worker can already process its completion. If the client has gone, the completion
  takes the accepter's own count for that of the receive and releases the session; the
  accepter's IOCountDecrement then finds the count at zero again and releases it a second time:
  the counters go down by two, and INVALID_SOCKET is closed.
\<close>

theorem accept_race_releases_twice:
  assumes pool: "pool_laws (so_pool ops) used" and lock: "sessionMapLock s = Unlocked"
    and live: "sessionMap s k = Some a" "sessionId (heap s a) = k" "ioCount (heap s a) = 1"
    and t: "t = unat (threadId (heap s a))" "t < length (numOfSessionInWorkerThread s)"
    and ok: "rio_ok ops (rioCalls s)"
  shows "\<exists>c s1 s2 s3. RecvPost_receive ops a s = (True, s1) \<and> pending s1 = pending s @ [c] \<and>
    process_result ops onRecv (Some c, 0) s1 = Some (Inr s2) \<and> sessionMap s2 k = None \<and>
    IOCountDecrement a (upd_session a (\<lambda>x. x\<lparr>ioCount := ioCount x + 1\<rparr>) s2) = Inr s3 \<and>
    sessionCount s3 = sessionCount s - 2 \<and>
    numOfSessionInWorkerThread s3 ! t = numOfSessionInWorkerThread s ! t - 2 \<and>
    closedSockets s3 = closedSockets s @ [socket (heap s a), INVALID_SOCKET]"
proof -
  obtain c pool where p: "pool_Alloc (so_pool ops) (contextPool s) = (c, pool)" by fastforce
  obtain s1 where s1: "RecvPost_receive ops a s = (True, s1)" "pending s1 = pending s @ [c]"
    "ownerSessionId (contextAt s1 c) = k" "sessionMapLock s1 = Unlocked" "heap s1 = heap s" "sessionMap s1 = sessionMap s"
    "numOfSessionInWorkerThread s1 = numOfSessionInWorkerThread s" "sessionCount s1 = sessionCount s"
    "closedSockets s1 = closedSockets s"
    using ok lock live(2) by (simp add: RecvPost_receive_def alloc_context_def rio_post_def p Let_def)
  let ?t = "take_completion c s1"
  let ?d = "OnSessionLeaved k (upd_session a (\<lambda>x. x\<lparr>ioCount := ioCount x - 1\<rparr>) (free_context ops c ?t))"
  have "sessionMapLock ?d = Unlocked" "unat (threadId (heap ?d a)) < length (numOfSessionInWorkerThread ?d)"
    using s1 t by (simp_all add: OnSessionLeaved_def free_context_def)
  note R = ReleaseSession_Unlocked [OF this]
  have dec: "IOCountDecrement a (free_context ops c ?t) = ReleaseSession a ?d"
    using live s1 by (simp add: IOCountDecrement_def free_context_def Let_def)
  then obtain s2 where s2: "ReleaseSession a ?d = Inr s2" "sessionMap s2 k = None" "sessionMapLock s2 = Unlocked"
    "heap s2 a = (heap s a)\<lparr>ioCount := 0, socket := INVALID_SOCKET\<rparr>"
    "numOfSessionInWorkerThread s2 = (numOfSessionInWorkerThread s)[t := numOfSessionInWorkerThread s ! t - 1]"
    "sessionCount s2 = sessionCount s - 1" "closedSockets s2 = closedSockets s @ [socket (heap s a)]"
    using R s1 live t by (simp add: OnSessionLeaved_def free_context_def)
  have "GetSession k ?t = Inr (Some a, ?t)"
    using GetSession_Unlocked [of ?t k] s1 live by simp
  then have run: "process_result ops onRecv (Some c, 0) s1 = Some (Inr s2)"
    using s1(3) dec s2(1) by (simp add: process_result_def GetIOCompletedContext_def)
  let ?u = "upd_session a (\<lambda>x. x\<lparr>ioCount := ioCount x + 1\<rparr>) s2"
  let ?e = "OnSessionLeaved k (upd_session a (\<lambda>x. x\<lparr>ioCount := ioCount x - 1\<rparr>) ?u)"
  have "sessionMapLock ?e = Unlocked" "unat (threadId (heap ?e a)) < length (numOfSessionInWorkerThread ?e)"
    using s2 t by (simp_all add: OnSessionLeaved_def)
  note R2 = ReleaseSession_Unlocked [OF this]
  have "IOCountDecrement a ?u = ReleaseSession a ?e"
    using s2 live(2) by (simp add: IOCountDecrement_def Let_def)
  then obtain s3 where "IOCountDecrement a ?u = Inr s3" "sessionCount s3 = sessionCount s - 2"
    "numOfSessionInWorkerThread s3 ! t = numOfSessionInWorkerThread s ! t - 2"
    "closedSockets s3 = closedSockets s @ [socket (heap s a), INVALID_SOCKET]"
    using R2 s2 t by (simp add: OnSessionLeaved_def)
  with s1 s2 run show ?thesis by blast
qed

section \<open>Witnesses\<close>

text \<open>A server on the concrete libraries, whose RIO calls with a number in \<open>R\<close> are refused.\<close>

definition demo_ops :: "nat set \<Rightarrow> (u8 list, NetBuffer list, nat \<times> nat list) server_ops" where
  "demo_ops R = \<lparr>so_net = plain_net, so_ring = list_ring, so_empty_ring = [], so_queue = list_queue,
     so_empty_queue = [], so_pool = list_pool, rio_ok = (\<lambda>n. n \<notin> R), DEFAULT_RINGBUFFER_MAX = 64\<rparr>"

definition blank_session :: "(u8 list, NetBuffer list) RIOTestSession" where
  "blank_session = \<lparr>socket = 0, sessionId = 0, sendDisconnect = False, ioCancle = False,
     isReleasedSession = False, threadId = 0, ioCount = 0, recvRingBuffer = [], recvBufferId = None,
     sendItem = resting, sendBufferId = None, rioRQ = None, rioRecvOffset = 0\<rparr>"

definition blank_context :: IOContext where
  "blank_context = \<lparr>ownerSessionId = 0, ioType = OP_ERROR, BufferId = None, Length = 0, Offset = 0\<rparr>"

definition demo_server :: "(u8 list, NetBuffer list, nat \<times> nat list) server" where
  "demo_server = initial_server (\<lambda>_. blank_session) (0, []) (\<lambda>_. blank_context) 1 100"

lemma demo_ops_simps [simp]:
  "so_net (demo_ops R) = plain_net" "so_ring (demo_ops R) = list_ring" "so_queue (demo_ops R) = list_queue"
  "so_pool (demo_ops R) = list_pool" "rio_ok (demo_ops R) n \<longleftrightarrow> n \<notin> R"
  by (simp_all add: demo_ops_def)

lemma demo_server_simps [simp]:
  "nextSessionId demo_server = 1" "GetMinimumSessionThreadId demo_server = 0" "rioCalls demo_server = 0"
  "numOfSessionInWorkerThread demo_server = [0]" "sessionMap demo_server = Map.empty" "nextAddr demo_server = 0"
  "pending demo_server = []" "sessionCount demo_server = 0" "closedSockets demo_server = []"
  "registeredBuffers demo_server = {}" "sessionMapLock demo_server = Unlocked" "contextPool demo_server = (0, [])"
  by (simp_all add: demo_server_def initial_server_def INVALID_SESSION_ID_def GetMinimumSessionThreadId_def)

lemma demo_server_inv: "server_inv list_pool_used None demo_server"
  unfolding demo_server_def by (rule initial_server_inv)

text \<open>The server after it has accepted one client, on socket 5.\<close>

definition accepted_one :: "nat set \<Rightarrow> (u8 list, NetBuffer list, nat \<times> nat list) server \<Rightarrow> nat \<Rightarrow> bool" where
  "accepted_one R s c \<longleftrightarrow> Accepter (demo_ops R) 5 demo_server = Inr s \<and> server_inv list_pool_used None s \<and>
     sessionMap s = [2 \<mapsto> 0] \<and> 2 \<in> sessionIdSet s \<and> pending s = [c] \<and>
     ownerSessionId (contextAt s c) = 2 \<and> ioType (contextAt s c) = OP_RECV \<and>
     ioCount (heap s 0) = 1 \<and> socket (heap s 0) = 5 \<and> sessionCount s = 1 \<and>
     numOfSessionInWorkerThread s = [1] \<and> rioCalls s = 4 \<and> \<not> ioCancle (heap s 0)"

lemma demo_accepted:
  assumes "R \<inter> {0, 1, 2, 3} = {}"
  obtains s c where "accepted_one R s c"
proof -
  have "\<exists>s' c. Accepter (demo_ops R) 5 demo_server = Inr s' \<and> server_inv list_pool_used None s' \<and>
    sessionMap s' = (sessionMap demo_server)(nextSessionId demo_server + 1 \<mapsto> nextAddr demo_server) \<and>
    nextSessionId demo_server + 1 \<in> sessionIdSet s' \<and>
    pending s' = pending demo_server @ [c] \<and> ownerSessionId (contextAt s' c) = nextSessionId demo_server + 1 \<and>
    ioType (contextAt s' c) = OP_RECV \<and> ioCount (heap s' (nextAddr demo_server)) = 1 \<and>
    socket (heap s' (nextAddr demo_server)) = 5 \<and> sessionCount s' = sessionCount demo_server + 1 \<and>
    numOfSessionInWorkerThread s' = (numOfSessionInWorkerThread demo_server)
      [0 := numOfSessionInWorkerThread demo_server ! 0 + 1] \<and>
    rioCalls s' = rioCalls demo_server + 4 \<and> \<not> ioCancle (heap s' (nextAddr demo_server)) \<and>
    recvBufferId (heap s' (nextAddr demo_server)) = Some (rioCalls demo_server)"
    by (rule accept_run [OF _ demo_server_inv]) (use assms in \<open>auto simp: list_pool_laws numeral_2_eq_2\<close>)
  then show thesis
    using that unfolding accepted_one_def by auto
qed

lemma accepted_one_reach:
  assumes "accepted_one R s c"
  shows "server_run (demo_ops R) onRecv demo_server 1 [] s"
proof -
  have "server_step (demo_ops R) onRecv 1 [] demo_server s"
    by (rule server_step.accept [where sock = 5]) (use assms in \<open>simp_all add: accepted_one_def\<close>)
  from server_run.step [OF server_run.start this] show ?thesis by simp
qed

theorem session_io_count_witness:
  "\<exists>s. server_run (demo_ops {}) (code_onRecv (demo_ops {}) empty_PacketManager) demo_server 1 [] s \<and>
    sessionMap s 2 = Some 0 \<and> unat (ioCount (heap s 0)) = pend s 2 \<and> 1 \<le> pend s 2"
proof -
  obtain s c where acc: "accepted_one {} s c"
    by (rule demo_accepted [of "{}"]) simp_all
  have s: "server_run (demo_ops {}) (code_onRecv (demo_ops {}) empty_PacketManager) demo_server 1 [] s"
    "sessionMap s = [2 \<mapsto> 0]"
    using accepted_one_reach [OF acc] acc by (simp_all add: accepted_one_def)
  from session_io_count [OF _ s(1) [unfolded demo_server_def], of list_pool_used 2 0] s show ?thesis
    by (auto simp: list_pool_laws)
qed

theorem zero_bytes_release_witness:
  "\<exists>s c s'. pending s = [c] \<and> sessionMap s = [2 \<mapsto> 0] \<and> process_result (demo_ops {}) (\<lambda>a b w. Inr w) (Some c, 0) s = Some (Inr s') \<and>
    sessionMap s' = Map.empty \<and> closedSockets s' = closedSockets s @ [5]"
proof -
  obtain s c where acc: "accepted_one {} s c"
    by (rule demo_accepted [of "{}"]) simp_all
  then have s: "server_inv list_pool_used None s" "sessionMap s = [2 \<mapsto> 0]" "pending s = [c]"
    "ownerSessionId (contextAt s c) = 2" "socket (heap s 0) = 5"
    by (simp_all add: accepted_one_def)
  have "pend s 2 = 1" using s by (simp add: pend_def)
  moreover have "pool_laws (so_pool (demo_ops {})) list_pool_used" by (simp add: list_pool_laws)
  ultimately obtain s' where "process_result (demo_ops {}) (\<lambda>a b w. Inr w) (Some c, 0) s = Some (Inr s')"
    "sessionMap s' = (sessionMap s)(2 := None)" "closedSockets s' = closedSockets s @ [socket (heap s 0)]"
    using zero_bytes_release [of "demo_ops {}" list_pool_used s c 2 0 "\<lambda>a b w. Inr w"] s by auto
  with s show ?thesis by (intro exI [of _ s] exI [of _ c] exI [of _ s']) simp
qed

text \<open>A client that sends a frame longer than any packet may be.\<close>

definition long_frame :: "u8 list" where
  "long_frame = [119, 9, 0, 1, 1, 1, 1, 1, 1, 1, 1]"

lemma long_frame_loop:
  "recv_loop plain_net list_ring onRecv (long_frame @ [0]) 12 w = Some (Inr (long_frame @ [0], True, w))"
proof -
  have "alloc_with_header plain_net [119, 9, 0] =
      Inr \<lparr>m_pSerializeBuffer = [119, 9, 0] @ replicate 13 0, m_iRead = 0, m_iWrite = 3, m_iWriteLast = 0,
        m_bIsEncoded = False\<rparr>"
    by (simp add: alloc_with_header_def mem_put_def plain_net_def numeral_eq_Suc)
  then show ?thesis
    by (subst recv_loop.simps)
      (simp add: plain_net_def list_ring_def GetPayloadLength_def byte_at_def long_frame_def Let_def)
qed

text \<open>The accepted session of the demonstration with this frame in its buffer.\<close>

lemma long_frame_received:
  assumes acc: "accepted_one R s0 c"
  obtains s where "server_inv list_pool_used None s" and "pending s = [c]"
    and "ownerSessionId (contextAt s c) = 2" and "ioType (contextAt s c) = OP_RECV"
    and "sessionMap s = [2 \<mapsto> 0]" and "\<not> ioCancle (heap s 0)" and "2 \<in> sessionIdSet s"
    and "server_step (demo_ops R) onRecv 0 [] s0 s"
    and "\<exists>s1. RecvCompleted (demo_ops R) onRecv 0 1 (take_completion c s) =
      Some (Inr (if 4 \<in> R then FAILED_RECV_POST else SUCCESS, s1)) \<and> sessionMap s1 2 = None \<and>
      (4 \<in> R \<longrightarrow> pend s1 2 = 0) \<and> unat (threadId (heap s1 0)) = 0"
proof -
  let ?s = "upd_session 0 (\<lambda>x. x\<lparr>recvRingBuffer := long_frame\<rparr>) s0"
  let ?t = "take_completion c ?s"
  have inv: "server_inv list_pool_used None ?s"
    by (rule upd_session_keeps(1) [of list_pool_used "[]" None s0 2 0])
      (use acc in \<open>simp_all add: accepted_one_def\<close>)
  have step: "server_step (demo_ops R) onRecv 0 [] s0 ?s"
    by (rule server_step.arrive [where k = 2]) (use acc in \<open>simp add: accepted_one_def\<close>)
  let ?f = "upd_session 0 (\<lambda>x. x\<lparr>rioRecvOffset := rioRecvOffset x + 1\<rparr>)
      (upd_session 0 (\<lambda>x. x\<lparr>recvRingBuffer := long_frame @ [0]\<rparr>) ?t)"
  obtain r s2 where post: "RecvPost (demo_ops R) 0 ?f = (r, s2)" by fastforce
  have "live_ok None s0 2 0"
    by (rule server_inv_live [of list_pool_used "[]"]) (use acc in \<open>simp_all add: accepted_one_def\<close>)
  then have s0: "sessionMapLock s0 = Unlocked" "unat (threadId (heap s0 0)) = 0" "sessionId (heap s0 0) = 2"
    using acc by (auto simp: accepted_one_def inv_lost_def live_ok_def)
  have th: "unat (threadId (heap s2 0)) = 0" using s0 by (auto intro: RecvPostE [OF post])
  have s2: "sessionMapLock s2 = Unlocked" "unat (threadId (heap s2 0)) < length (numOfSessionInWorkerThread s2)"
    "sessionId (heap s2 0) = 2" "r = (if 4 \<in> R then FAILED_RECV_POST else SUCCESS)" "4 \<in> R \<longrightarrow> pending s2 = []"
    using acc s0 by (auto intro: RecvPostE [OF post] simp: accepted_one_def)
  obtain s1 where s1: "ReleaseSession 0 s2 = Inr s1" "sessionMap s1 2 = None" "pending s1 = pending s2"
    "unat (threadId (heap s1 0)) = 0"
    using ReleaseSession_Unlocked [OF s2(1,2)] s2(3) th by simp
  have "rb_MoveWritePos list_ring 1 long_frame = long_frame @ [0]" "rb_GetUseSize list_ring (long_frame @ [0]) = 12"
    by (simp_all add: list_ring_def long_frame_def)
  then have "RecvCompleted (demo_ops R) onRecv 0 1 ?t = Some (Inr (r, s1))"
    using post s1(1) by (simp add: RecvCompleted_def long_frame_loop Let_def)
  with s1 s2(4,5) have "\<exists>s1. RecvCompleted (demo_ops R) onRecv 0 1 (take_completion c ?s) =
      Some (Inr (if 4 \<in> R then FAILED_RECV_POST else SUCCESS, s1)) \<and> sessionMap s1 2 = None \<and>
      (4 \<in> R \<longrightarrow> pend s1 2 = 0) \<and> unat (threadId (heap s1 0)) = 0"
    by (auto simp: pend_def)
  with that [OF inv] acc step show thesis by (simp add: accepted_one_def)
qed

theorem packet_error_releases_twice_witness:
  "\<exists>s c s'. server_inv list_pool_used None s \<and> sessionMap s = [2 \<mapsto> 0] \<and>
    process_result (demo_ops {4}) (code_onRecv (demo_ops {4}) (PacketManager_Init empty_PacketManager)) (Some c, 1) s = Some (Inr s') \<and>
    sessionMap s' = Map.empty \<and> sessionCount s' = - 1 \<and> last (closedSockets s') = INVALID_SOCKET"
proof -
  let ?f = "code_onRecv (demo_ops {4}) (PacketManager_Init empty_PacketManager)"
  obtain s0 c where acc: "accepted_one {4} s0 c"
    by (rule demo_accepted [of "{4}"]) simp_all
  obtain s where s: "server_inv list_pool_used None s" "pending s = [c]"
    "ownerSessionId (contextAt s c) = 2" "ioType (contextAt s c) = OP_RECV"
    "sessionMap s = [2 \<mapsto> 0]" "\<not> ioCancle (heap s 0)"
    and run: "\<exists>s1. RecvCompleted (demo_ops {4}) ?f 0 1 (take_completion c s) = Some (Inr (FAILED_RECV_POST, s1)) \<and>
      sessionMap s1 2 = None \<and> pend s1 2 = 0 \<and> unat (threadId (heap s1 0)) = 0"
    by (rule long_frame_received [OF acc, of ?f]) simp
  from run obtain s1 where s1: "RecvCompleted (demo_ops {4}) ?f 0 1 (take_completion c s) = Some (Inr (FAILED_RECV_POST, s1))"
    "sessionMap s1 2 = None" "pend s1 2 = 0" by blast
  have "\<exists>s'. process_result (demo_ops {4}) ?f (Some c, 1) s = Some (Inr s') \<and> sessionMap s' = (sessionMap s)(2 := None) \<and>
    sessionCount s' = of_nat (card (dom (sessionMap s'))) - 1 \<and>
    numOfSessionInWorkerThread s' ! unat (threadId (heap s1 0)) =
      of_nat (card {k. \<exists>a. sessionMap s' k = Some a \<and> unat (threadId (heap s' a)) = unat (threadId (heap s1 0))}) - 1 \<and>
    last (closedSockets s') = INVALID_SOCKET"
    by (rule packet_error_releases_twice [OF _ s(1) _ s(4) s(3) _ s(6) _ s1(1-3) refl])
      (simp_all add: s list_pool_laws)
  then obtain s' where "process_result (demo_ops {4}) ?f (Some c, 1) s = Some (Inr s')"
    "sessionMap s' = (sessionMap s)(2 := None)" "sessionCount s' = of_nat (card (dom (sessionMap s'))) - 1"
    "last (closedSockets s') = INVALID_SOCKET" by blast
  then show ?thesis using s by (intro exI [of _ s] exI [of _ c] exI [of _ s']) simp
qed

text \<open>After the double release the counters are one too low, as C18 says.\<close>

theorem server_counters_witness:
  "\<exists>s. server_run (demo_ops {4}) (code_onRecv (demo_ops {4}) (PacketManager_Init empty_PacketManager)) demo_server 1 [0] s \<and>
    sessionMap s = Map.empty \<and> sessionCount s = - 1"
proof -
  let ?f = "code_onRecv (demo_ops {4}) (PacketManager_Init empty_PacketManager)"
  obtain s0 c where acc: "accepted_one {4} s0 c"
    by (rule demo_accepted [of "{4}"]) simp_all
  obtain s where s: "server_inv list_pool_used None s" "pending s = [c]"
    "ownerSessionId (contextAt s c) = 2" "ioType (contextAt s c) = OP_RECV"
    "sessionMap s = [2 \<mapsto> 0]" "\<not> ioCancle (heap s 0)" and arrive: "server_step (demo_ops {4}) ?f 0 [] s0 s"
    and run: "\<exists>s1. RecvCompleted (demo_ops {4}) ?f 0 1 (take_completion c s) = Some (Inr (FAILED_RECV_POST, s1)) \<and>
      sessionMap s1 2 = None \<and> pend s1 2 = 0 \<and> unat (threadId (heap s1 0)) = 0"
    by (rule long_frame_received [OF acc, of ?f]) simp
  from run obtain s1 where s1: "RecvCompleted (demo_ops {4}) ?f 0 1 (take_completion c s) = Some (Inr (FAILED_RECV_POST, s1))"
    "sessionMap s1 2 = None" "pend s1 2 = 0" "0 = unat (threadId (heap s1 0))" by auto
  have "\<exists>s'. process_result (demo_ops {4}) ?f (Some c, 1) s = Some (Inr s') \<and> sessionMap s' = (sessionMap s)(2 := None) \<and>
    sessionCount s' = of_nat (card (dom (sessionMap s'))) - 1 \<and>
    numOfSessionInWorkerThread s' ! 0 =
      of_nat (card {k. \<exists>a. sessionMap s' k = Some a \<and> unat (threadId (heap s' a)) = 0}) - 1 \<and>
    last (closedSockets s') = INVALID_SOCKET \<and> released_twice (demo_ops {4}) ?f c 1 s = [0]"
    by (rule packet_error_second_release [OF _ s(1) _ s(4) s(3) _ s(6) _ s1])
      (simp_all add: s list_pool_laws)
  then obtain s' where s': "process_result (demo_ops {4}) ?f (Some c, 1) s = Some (Inr s')"
    "sessionMap s' = Map.empty" "released_twice (demo_ops {4}) ?f c 1 s = [0]" using s(5) by auto
  have "c \<in> set (pending s)" using s(2) by simp
  from server_step.complete [OF this s'(1)] have "server_step (demo_ops {4}) ?f 0 [0] s s'" unfolding s'(3) .
  from server_run.step [OF server_run.step [OF accepted_one_reach [OF acc] arrive] this]
  have reach: "server_run (demo_ops {4}) ?f demo_server 1 [0] s'" by simp
  from server_counters [OF _ this [unfolded demo_server_def], of list_pool_used] s'(2)
  have "sessionCount s' = - 1" by (simp add: list_pool_laws)
  with reach s'(2) show ?thesis by blast
qed

theorem packet_error_keeps_broadcast_id_witness:
  "\<exists>s c s2. process_result (demo_ops {}) (code_onRecv (demo_ops {}) (PacketManager_Init empty_PacketManager)) (Some c, 1) s = Some (Inr s2) \<and>
    sessionMap s 2 = Some 0 \<and> sessionMap s2 2 = None \<and> 2 \<in> sessionIdSet s2"
proof -
  let ?f = "code_onRecv (demo_ops {}) (PacketManager_Init empty_PacketManager)"
  obtain s0 c where acc: "accepted_one {} s0 c"
    by (rule demo_accepted [of "{}"]) simp_all
  obtain s where s: "server_inv list_pool_used None s" "pending s = [c]"
    "ownerSessionId (contextAt s c) = 2" "ioType (contextAt s c) = OP_RECV"
    "sessionMap s = [2 \<mapsto> 0]" "\<not> ioCancle (heap s 0)" "2 \<in> sessionIdSet s"
    and run: "\<exists>s1. RecvCompleted (demo_ops {}) ?f 0 1 (take_completion c s) = Some (Inr (SUCCESS, s1)) \<and>
      sessionMap s1 2 = None \<and> unat (threadId (heap s1 0)) = 0"
    by (rule long_frame_received [OF acc, of ?f]) simp
  from run obtain s1 where s1: "RecvCompleted (demo_ops {}) ?f 0 1 (take_completion c s) = Some (Inr (SUCCESS, s1))"
    "sessionMap s1 2 = None" by blast
  have "\<exists>s2. process_result (demo_ops {}) ?f (Some c, 1) s = Some (Inr s2) \<and>
    (\<forall>accepts lost s'. server_run (demo_ops {}) ?f s2 accepts lost s' \<and> unat (nextSessionId s2) + accepts < 2 ^ 64 \<longrightarrow>
       sessionMap s' 2 = None \<and> 2 \<in> sessionIdSet s')"
    by (rule packet_error_keeps_broadcast_id [OF _ s(1) _ s(4) s(3) _ s(6) _ s1 s(7)])
      (simp_all add: s list_pool_laws)
  then obtain s2 where run2: "process_result (demo_ops {}) ?f (Some c, 1) s = Some (Inr s2)"
    and later: "\<forall>accepts lost s'. server_run (demo_ops {}) ?f s2 accepts lost s' \<and> unat (nextSessionId s2) + accepts < 2 ^ 64 \<longrightarrow>
       sessionMap s' 2 = None \<and> 2 \<in> sessionIdSet s'" by blast
  have "unat (nextSessionId s2) + 0 < 2 ^ LENGTH(64)" using unsigned_less [of "nextSessionId s2"] by simp
  with later server_run.start have "sessionMap s2 2 = None" "2 \<in> sessionIdSet s2" by fastforce+
  then show ?thesis using s run2 by (intro exI [of _ s] exI [of _ c] exI [of _ s2]) simp
qed

theorem Accepter_accepts_witness:
  "\<exists>s' c. Accepter (demo_ops {}) 5 demo_server = Inr s' \<and> sessionMap s' = [2 \<mapsto> 0] \<and> pending s' = [c] \<and>
    sessionCount s' = 1 \<and> numOfSessionInWorkerThread s' = [1]"
  using Accepter_accepts [OF _ demo_server_inv, of "demo_ops {}" 0 5] by (auto simp: list_pool_laws)

lemma Accepter_refused_receive_witness:
  "\<exists>s1 s'. MakeNewSession (demo_ops {3}) 5 demo_server = Inr (True, s1) \<and>
    Accepter (demo_ops {3}) 5 demo_server = Inr s' \<and> sessionMap s' = Map.empty \<and> 2 \<in> sessionIdSet s' \<and>
    closedSockets s' = [5]"
  using Accepter_refused_receive [OF _ demo_server_inv, of "demo_ops {3}" 5] by (auto simp: list_pool_laws)

lemma InitSession_failure_leaks_witness:
  "\<exists>s'. Accepter (demo_ops {1}) 5 demo_server = Inr s' \<and> sessionMap s' = Map.empty \<and> registeredBuffers s' = {0}"
  using InitSession_failure_leaks [of demo_server "demo_ops {1}" 5] by auto

lemma duplicate_id_deadlocks_witness:
  "MakeNewSession (demo_ops {}) 5 (demo_server\<lparr>sessionMap := [2 \<mapsto> 7]\<rparr>) = Inl SelfDeadlock"
  by (rule duplicate_id_deadlocks [where b = 7])
    (simp_all add: demo_server_def initial_server_def INVALID_SESSION_ID_def GetMinimumSessionThreadId_def)

theorem accept_race_releases_twice_witness:
  "\<exists>c s1 s2 s3. RecvPost_receive (demo_ops {}) 0 (emplaced (demo_ops {}) 5 demo_server) = (True, s1) \<and>
    process_result (demo_ops {}) (\<lambda>a b w. Inr w) (Some c, 0) s1 = Some (Inr s2) \<and>
    IOCountDecrement 0 (upd_session 0 (\<lambda>x. x\<lparr>ioCount := ioCount x + 1\<rparr>) s2) = Inr s3 \<and>
    numOfSessionInWorkerThread s3 ! 0 = - 1 \<and> closedSockets s3 = [5, INVALID_SOCKET]"
proof -
  let ?e = "emplaced (demo_ops {}) 5 demo_server"
  note E = emplaced_simps [of "demo_ops {}" 5 demo_server, simplified]
  have "\<exists>c s1 s2 s3. RecvPost_receive (demo_ops {}) 0 ?e = (True, s1) \<and> pending s1 = pending ?e @ [c] \<and>
    process_result (demo_ops {}) (\<lambda>a b w. Inr w) (Some c, 0) s1 = Some (Inr s2) \<and> sessionMap s2 2 = None \<and>
    IOCountDecrement 0 (upd_session 0 (\<lambda>x. x\<lparr>ioCount := ioCount x + 1\<rparr>) s2) = Inr s3 \<and>
    sessionCount s3 = sessionCount ?e - 2 \<and>
    numOfSessionInWorkerThread s3 ! 0 = numOfSessionInWorkerThread ?e ! 0 - 2 \<and>
    closedSockets s3 = closedSockets ?e @ [socket (heap ?e 0), INVALID_SOCKET]"
    by (rule accept_race_releases_twice [where used = list_pool_used and onRecv = "\<lambda>a b w. Inr w"]) (simp_all add: E list_pool_laws)
  then show ?thesis by (simp add: E) blast
qed

end
