(* ===== verification/SessionTable.thy ===== *)
theory SessionTable
  imports ServerProps
begin

text \<open>
  What the server promises of its sessions, as an abstract machine: a table of the sessions that
  are there, by id, and the last id that was given out. The steps of the running server refine it.
\<close>

section \<open>The abstract table\<close>

record session_table =
  entries :: "SessionId \<rightharpoonup> nat"
  last_id :: SessionId

text \<open>A session enters under an id that was never given out before, or some sessions leave.\<close>

inductive table_step :: "session_table \<Rightarrow> session_table \<Rightarrow> bool" where
  enter: "last_id T < k \<Longrightarrow> k \<le> n \<Longrightarrow>
    table_step T \<lparr>entries = (entries T)(k \<mapsto> a), last_id = n\<rparr>"
| leave: "m \<subseteq>\<^sub>m entries T \<Longrightarrow> last_id T \<le> n \<Longrightarrow> table_step T \<lparr>entries = m, last_id = n\<rparr>"

inductive_cases table_stepE: "table_step T T'"

text \<open>In a run of the table no id comes back, and none changes its session.\<close>

definition table_later :: "session_table \<Rightarrow> session_table \<Rightarrow> bool" where
  "table_later T T' \<longleftrightarrow> last_id T \<le> last_id T' \<and>
     (\<forall>k \<le> last_id T. entries T' k = entries T k \<or> entries T' k = None)"

lemma table_step_later: "table_step T T' \<Longrightarrow> table_later T T'"
proof (erule table_stepE)
  fix k n a
  assume "T' = \<lparr>entries = (entries T)(k \<mapsto> a), last_id = n\<rparr>" and "last_id T < k" and "k \<le> n"
  then show ?thesis by (auto simp: table_later_def)
next
  fix m n
  assume T': "T' = \<lparr>entries = m, last_id = n\<rparr>" and m: "m \<subseteq>\<^sub>m entries T" and "last_id T \<le> n"
  have "m k = entries T k \<or> m k = None" for k using m by (cases "m k") (auto simp: map_le_def dom_def)
  with T' \<open>last_id T \<le> n\<close> show ?thesis by (simp add: table_later_def)
qed

lemma table_later_trans:
  assumes "table_later T T'" and "table_later T' T''"
  shows "table_later T T''"
proof -
  have "entries T'' k = entries T k \<or> entries T'' k = None" if "k \<le> last_id T" for k
  proof -
    have "k \<le> last_id T'" using that assms(1) by (auto simp: table_later_def intro: order_trans)
    with that assms show ?thesis unfolding table_later_def by metis
  qed
  with assms show ?thesis by (auto simp: table_later_def intro: order_trans)
qed

lemma table_run_later: "table_step\<^sup>*\<^sup>* T T' \<Longrightarrow> table_later T T'"
proof (induction rule: rtranclp_induct)
  case base
  show ?case by (simp add: table_later_def)
next
  case (step T' T'')
  then show ?case using table_later_trans table_step_later by blast
qed

section \<open>The server refines it\<close>

definition table_of :: "('r, 'q, 'p) server \<Rightarrow> session_table" where
  "table_of s = \<lparr>entries = sessionMap s, last_id = nextSessionId s\<rparr>"

lemma keeps_table: "keeps used s s' \<Longrightarrow> table_step (table_of s) (table_of s')"
  unfolding table_of_def by (rule table_step.leave) (simp_all add: keeps_def)

text \<open>A step that takes an id finds one that is not the last.\<close>

definition unwrapped_step ::
  "('r, 'q, 'p) server_ops \<Rightarrow> PacketManager \<Rightarrow> ('r, 'q, 'p) server \<Rightarrow> ('r, 'q, 'p) server \<Rightarrow> bool" where
  "unwrapped_step ops pm s s' \<longleftrightarrow> (\<exists>m twice. server_step ops (code_onRecv ops pm) m twice s s' \<and>
     (0 < m \<longrightarrow> nextSessionId s \<noteq> - 1))"

lemma step_table:
  assumes pool: "pool_laws (so_pool ops) used"
  shows "server_step ops (code_onRecv ops pm) m twice s s' \<Longrightarrow> inv_lost used lost None s \<Longrightarrow>
    (0 < m \<Longrightarrow> nextSessionId s \<noteq> - 1) \<Longrightarrow> table_step (table_of s) (table_of s')"
proof (induction rule: server_step.induct)
  case (accept sock s s')
  then have wrap: "nextSessionId s \<noteq> - 1" by simp
  have acc: "nextSessionId s' = nextSessionId s + 1" "sessionMap s' = sessionMap s \<or>
      sessionMap s' = (sessionMap s)(nextSessionId s + 1 \<mapsto> nextAddr s)"
    using Accepter_cases [OF pool accept(2) wrap accept(1)] by blast+
  have lt: "nextSessionId s < nextSessionId s + 1" by (rule less_plus_1 [OF wrap])
  from acc(2) show ?case
  proof
    assume "sessionMap s' = sessionMap s"
    with acc(1) lt show ?thesis unfolding table_of_def by (intro table_step.leave) simp_all
  next
    assume new: "sessionMap s' = (sessionMap s)(nextSessionId s + 1 \<mapsto> nextAddr s)"
    show ?thesis
      using table_step.enter [of "table_of s" "nextSessionId s + 1" "nextSessionId s'" "nextAddr s"] lt new acc(1)
      by (simp add: table_of_def)
  qed
next
  case (arrive s k a ring)
  show ?case unfolding table_of_def by (rule table_step.leave) simp_all
next
  case (complete c s n s')
  then have "sessionMap s' \<subseteq>\<^sub>m sessionMap s \<and> remembers s s'"
    using code.process_result_inv [OF pool complete(3,1,2)] by blast
  then show ?case unfolding table_of_def by (intro table_step.leave) (simp_all add: remembers_def)
next
  case (send s k a p s')
  then show ?case using SendPacket_keeps [OF pool] keeps_table by blast
next
  case (send_last s k a p s')
  let ?s = "upd_session a (\<lambda>x. x\<lparr>sendDisconnect := True\<rparr>) s"
  have "inv_lost used lost None ?s"
    by (rule upd_session_keeps(1) [OF send_last(3,1)]) simp_all
  moreover have "sessionMap ?s k = Some a" using send_last(1) by simp
  ultimately have "keeps used ?s s'"
    using SendPacket_keeps [OF pool] send_last(2) unfolding SendPacketAndDisconnect_def by blast
  then have "table_step (table_of ?s) (table_of s')" by (rule keeps_table)
  then show ?case by (simp add: table_of_def)
next
  case (disconnect k s s')
  then show ?case using Disconnect_keeps keeps_table by blast
qed

interpretation session_table: simulation "unwrapped_step ops pm" table_step
    "\<lambda>s. pool_laws (so_pool ops) used \<and> (\<exists>lost. inv_lost used lost None s)" table_of
  for ops pm used
proof unfold_locales
  fix s s' assume "unwrapped_step ops pm s s'" and inv: "pool_laws (so_pool ops) used \<and> (\<exists>lost. inv_lost used lost None s)"
  then obtain m twice lost where step: "server_step ops (code_onRecv ops pm) m twice s s'" "inv_lost used lost None s"
    "0 < m \<longrightarrow> nextSessionId s \<noteq> - 1" by (auto simp: unwrapped_step_def)
  have pool: "pool_laws (so_pool ops) used" using inv by blast
  show "pool_laws (so_pool ops) used \<and> (\<exists>lost. inv_lost used lost None s')"
    using code.step_inv [OF pool step(1,2)] step(3) pool by blast
  show "table_step (table_of s) (table_of s')"
    using step_table [OF pool step(1,2)] step(3) by blast
qed

lemma run_unwrapped:
  assumes pool: "pool_laws (so_pool ops) used" and inv: "inv_lost used lost None s"
  shows "server_run ops (code_onRecv ops pm) s n twice s' \<Longrightarrow> unat (nextSessionId s) + n < 2 ^ 64 \<Longrightarrow>
    (unwrapped_step ops pm)\<^sup>*\<^sup>* s s'"
proof (induction rule: server_run.induct)
  case (step n twice s1 m twice' s2)
  have "unat (nextSessionId s1) + m < 2 ^ 64"
    using code.run_inv [OF pool inv step.hyps(1)] step.prems by simp
  from next_id(2) [OF this step_label [OF step.hyps(2)]] step.hyps(2)
  have "unwrapped_step ops pm s1 s2" unfolding unwrapped_step_def by blast
  with step show ?case by simp
qed simp

text \<open>
  C19: The server refines the abstract table of sessions. With fewer than \<open>2 ^ 64 - 1\<close> connections in
  all and operations that do not overlap, its runs from any state that it reaches are runs of
  the table, double releases included: ids that are given out are new, an id whose session is
  gone never stands for a session again, and an id that is in the table keeps its session.
\<close>

theorem server_refines_table:
  assumes "pool_laws (so_pool ops) used"
    and "server_run ops (code_onRecv ops pm) (initial_server h p c n maxClients) accepts lost s"
    and "server_run ops (code_onRecv ops pm) s accepts' lost' s'" and "accepts + accepts' + 1 < 2 ^ 64"
  shows "table_step\<^sup>*\<^sup>* (table_of s) (table_of s') \<and> nextSessionId s \<le> nextSessionId s' \<and>
    (\<forall>k \<le> nextSessionId s. sessionMap s' k = sessionMap s k \<or> sessionMap s' k = None)"
proof -
  have "accepts + 1 < 2 ^ 64" using assms(4) by simp
  note reach = reachable_inv [OF assms(1,2) this]
  have "unat (nextSessionId s) + accepts' < 2 ^ 64" using reach(2) assms(4) by simp
  from run_unwrapped [OF assms(1) reach(1) assms(3) this]
  have "table_step\<^sup>*\<^sup>* (table_of s) (table_of s')"
    using session_table.run_sim [of ops pm s s' used] reach(1) assms(1) by blast
  with table_run_later [OF this] show ?thesis by (simp add: table_later_def table_of_def)
qed

theorem server_refines_table_witness:
  "\<exists>s. server_run (demo_ops {}) (code_onRecv (demo_ops {}) empty_PacketManager) demo_server 1 [] s \<and>
    sessionMap s = [2 \<mapsto> 0] \<and> table_step\<^sup>*\<^sup>* (table_of demo_server) (table_of s)"
proof -
  obtain s c where acc: "accepted_one {} s c"
    by (rule demo_accepted [of "{}"]) simp_all
  have s: "server_run (demo_ops {}) (code_onRecv (demo_ops {}) empty_PacketManager) demo_server 1 [] s"
    "sessionMap s = [2 \<mapsto> 0]"
    using accepted_one_reach [OF acc] acc by (simp_all add: accepted_one_def)
  from server_refines_table [OF _ server_run.start s(1) [unfolded demo_server_def], of list_pool_used] s
  show ?thesis by (auto simp: list_pool_laws demo_server_def)
qed

end
