(* ===== verification/MapLock.thy ===== *)
theory MapLock
  imports Handlers
begin

text \<open>
  The lock of the session map through the operations of a worker: each takes and releases it, none
  waits for it while its own thread holds it.
\<close>

section \<open>The lock of the session map\<close>

text \<open>
  \<open>lock_free f r\<close>: a call that came back with \<open>r\<close> has not waited for a lock that its own thread
  holds, and has left the lock of the session map free in the state \<open>f\<close> of its result.
\<close>

definition lock_free :: "('a \<Rightarrow> ('r, 'q, 'p) server) \<Rightarrow> 'a outcome \<Rightarrow> bool" where
  "lock_free f r \<longleftrightarrow> (case r of Inl e \<Rightarrow> e \<noteq> SelfDeadlock | Inr x \<Rightarrow> sessionMapLock (f x) = Unlocked)"

named_theorems lock_simps \<open>what keeps the lock of the session map free\<close>

lemma lock_free_Inr [lock_simps]: "lock_free f (Inr x) \<longleftrightarrow> sessionMapLock (f x) = Unlocked"
  by (simp add: lock_free_def)

lemma lock_free_Inl [lock_simps]: "lock_free f (Inl e) \<longleftrightarrow> e \<noteq> SelfDeadlock"
  by (simp add: lock_free_def)

lemma lock_free_bind:
  assumes "lock_free f m" and "\<And>x. m = Inr x \<Longrightarrow> sessionMapLock (f x) = Unlocked \<Longrightarrow> lock_free g (h x)"
  shows "lock_free g (obind m h)"
  using assms by (cases m) (simp_all add: lock_free_def)

lemma ReleaseSession_lock: "sessionMapLock s = Unlocked \<Longrightarrow> lock_free (\<lambda>s. s) (ReleaseSession a s)"
proof (cases "unat (threadId (heap s a)) < length (numOfSessionInWorkerThread s)")
  case True
  assume "sessionMapLock s = Unlocked"
  from ReleaseSession_Unlocked [OF this True] this show ?thesis by (simp add: lock_simps)
next
  case False
  then show ?thesis by (simp add: ReleaseSession_def lock_simps)
qed

lemma IOCountDecrement_lock: "sessionMapLock s = Unlocked \<Longrightarrow> lock_free (\<lambda>s. s) (IOCountDecrement a s)"
  by (simp add: IOCountDecrement_def Let_def lock_simps ReleaseSession_lock OnSessionLeaved_def)

lemma Disconnect_lock: "sessionMapLock s = Unlocked \<Longrightarrow> lock_free (\<lambda>s. s) (Disconnect k s)"
  by (simp add: Disconnect_Unlocked lock_simps split: option.split)

text \<open>Filling the send buffer takes no lock.\<close>

lemma memcpy_s_no_lock: "memcpy_s off sz src n mem \<noteq> Inl SelfDeadlock"
  by (auto simp: memcpy_s_def mem_put_def Let_def)

lemma IsValidPacketSize_no_lock: "IsValidPacketSize n \<noteq> Inl SelfDeadlock"
  by (simp add: IsValidPacketSize_def)

lemma stream_loop_no_lock: "stream_loop no qo n t it \<noteq> Inl SelfDeadlock"
proof (induction n arbitrary: t it)
  case (Suc n)
  then show ?case
    using memcpy_s_no_lock IsValidPacketSize_no_lock
    by (auto simp: Let_def outcome_simps split: prod.split option.split)
qed simp

lemma MakeSendStream_no_lock: "MakeSendStream no qo it \<noteq> Inl SelfDeadlock"
  by (auto simp: stream_loop_no_lock memcpy_s_no_lock IsValidPacketSize_no_lock MakeSendStream_def take_reserved_def Let_def outcome_simps split: option.split)

lemma SendPost_send_lock:
  assumes "sessionMapLock s = Unlocked"
  shows "lock_free snd (SendPost_send ops a s)"
proof (cases "SendPost_send ops a s")
  case (Inl e)
  then have "e \<noteq> SelfDeadlock"
    using MakeSendStream_no_lock by (auto simp: SendPost_send_def outcome_simps split: prod.splits)
  with Inl show ?thesis by (simp add: lock_simps)
next
  case (Inr r)
  obtain posted s' where r: "r = (posted, s')" by (cases r)
  from Inr [unfolded r] have "sessionMapLock s' = sessionMapLock s" by (elim SendPost_sendE) simp
  with Inr r assms show ?thesis by (simp add: lock_simps)
qed

lemma SendPost_lock:
  assumes "sessionMapLock s = Unlocked"
  shows "lock_free snd (SendPost ops a s)"
proof (cases "ioMode (sendItem (heap s a)) = IO_NONE_SENDING \<and>
    \<not> (q_GetRestSize (so_queue ops) (sendQueue (sendItem (heap s a))) = 0 \<and> reservedBuffer (sendItem (heap s a)) = None)")
  case True
  let ?s = "set_ioMode a IO_SENDING s"
  have "lock_free snd (obind (SendPost_send ops a ?s) (\<lambda>(posted, s).
      if \<not> posted then obind (IOCountDecrement a s) (\<lambda>s. Inr (FAILED_SEND_POST, s)) else SendPost ops a s))"
  proof (rule lock_free_bind [OF SendPost_send_lock])
    fix x assume x: "SendPost_send ops a ?s = Inr x" and free: "sessionMapLock (snd x) = Unlocked"
    obtain posted s1 where xx: "x = (posted, s1)" by (cases x)
    have "ioMode (sendItem (heap s1 a)) = IO_SENDING" using SendPost_send_ioMode [OF x [unfolded xx]] by simp
    then have "SendPost ops a s1 = Inr (SUCCESS, s1)" by (subst SendPost.simps) simp
    moreover have "lock_free snd (obind (IOCountDecrement a s1) (\<lambda>s. Inr (FAILED_SEND_POST, s)))"
      using free xx by (intro lock_free_bind [OF IOCountDecrement_lock]) (simp_all add: lock_simps)
    ultimately show "lock_free snd (case x of (posted, s) \<Rightarrow>
        if \<not> posted then obind (IOCountDecrement a s) (\<lambda>s. Inr (FAILED_SEND_POST, s)) else SendPost ops a s)"
      using free xx by (simp add: lock_simps)
  qed (simp add: assms)
  with True show ?thesis by (subst SendPost.simps) (auto simp: Let_def)
next
  case False
  then show ?thesis using assms by (subst SendPost.simps) (auto simp: Let_def lock_simps)
qed

lemma SendPacket_lock: "sessionMapLock s = Unlocked \<Longrightarrow> lock_free (\<lambda>s. s) (SendPacket ops a p s)"
  unfolding SendPacket_def Let_def by (rule lock_free_bind [OF SendPost_lock]) (auto simp: lock_simps)

lemma SendIOCompleted_lock: "sessionMapLock s = Unlocked \<Longrightarrow> lock_free snd (SendIOCompleted ops a s)"
  by (auto simp: SendIOCompleted_def SendCompleted_def lock_simps intro!: SendPost_lock lock_free_bind [OF Disconnect_lock])

lemma RecvPost_lock: "RecvPost ops a s = (r, s') \<Longrightarrow> sessionMapLock s' = sessionMapLock s"
  by (erule RecvPostE) simp

section \<open>A handler that leaves the lock free\<close>

definition lock_free_handler ::
  "(nat \<Rightarrow> NetBuffer \<Rightarrow> ('r, 'q, 'p) server \<Rightarrow> ('r, 'q, 'p) server outcome) \<Rightarrow> bool" where
  "lock_free_handler onRecv \<longleftrightarrow> (\<forall>a b s. sessionMapLock s = Unlocked \<longrightarrow> lock_free (\<lambda>s. s) (onRecv a b s))"

lemma deliver_lock:
  "lock_free_handler onRecv \<Longrightarrow> sessionMapLock s = Unlocked \<Longrightarrow> lock_free (\<lambda>s. s) (deliver (onRecv a) ps s)"
proof (induction ps arbitrary: s)
  case (Cons p ps)
  then have "lock_free (\<lambda>s. s) (onRecv a p s)" by (simp add: lock_free_handler_def)
  then show ?case using Cons by (auto intro: lock_free_bind)
qed (simp add: lock_simps)

lemma RecvCompleted_lock:
  assumes "net_frame_laws (so_net ops)" and "ring_laws (so_ring ops) bytes"
    and h: "lock_free_handler onRecv" and s: "sessionMapLock s = Unlocked"
  shows "\<exists>r. RecvCompleted ops onRecv a n s = Some r \<and> lock_free snd r"
proof -
  let ?ring = "rb_MoveWritePos (so_ring ops) (uint n) (recvRingBuffer (heap s a))"
  obtain ps err rest where p: "parse_frames (so_net ops) (bytes ?ring) = (ps, err, rest)"
    by (cases "parse_frames (so_net ops) (bytes ?ring)")
  from recv_loop_refines [OF assms(1,2) p, of "onRecv a" s] assms(2) obtain ring' where
    loop: "recv_loop (so_net ops) (so_ring ops) (onRecv a) ?ring (rb_GetUseSize (so_ring ops) ?ring) s =
      Some (obind (deliver (onRecv a) ps s) (\<lambda>w'. Inr (ring', err, w')))"
    by (auto simp: ring_laws_use)
  note d = deliver_lock [OF h s, of a ps]
  show ?thesis
  proof (cases "deliver (onRecv a) ps s")
    case (Inl e)
    with d loop show ?thesis by (simp add: RecvCompleted_def lock_simps)
  next
    case (Inr s1)
    then have s1: "sessionMapLock s1 = Unlocked" using d by (simp add: lock_simps)
    let ?s2 = "upd_session a (\<lambda>x. x\<lparr>rioRecvOffset := rioRecvOffset x + n\<rparr>) (upd_session a (\<lambda>x. x\<lparr>recvRingBuffer := ring'\<rparr>) s1)"
    obtain r s3 where post: "RecvPost ops a ?s2 = (r, s3)" by fastforce
    have s3: "sessionMapLock s3 = Unlocked" using RecvPost_lock [OF post] s1 by simp
    have "lock_free snd (obind (ReleaseSession a s3) (\<lambda>s. Inr (r, s)))"
      using s3 by (intro lock_free_bind [OF ReleaseSession_lock]) (simp_all add: lock_simps)
    with loop Inr post s3 show ?thesis
      by (simp add: RecvCompleted_def Let_def lock_simps)
  qed
qed

lemma InvalidIOCompleted_lock:
  assumes s: "sessionMapLock s = Unlocked"
  shows "lock_free (\<lambda>s. s) (InvalidIOCompleted ops c s)"
proof -
  have "lock_free (\<lambda>s. s) (case sessionMap s k of None \<Rightarrow> Inr s | Some a \<Rightarrow> IOCountDecrement a s)" for k
    using IOCountDecrement_lock [OF s] s by (simp add: lock_simps split: option.split)
  then show ?thesis
    unfolding InvalidIOCompleted_def GetSession_Unlocked [OF s] obind.simps prod.case
    by (rule lock_free_bind) (simp add: free_context_def lock_simps)
qed

lemma IOCompleted_lock:
  assumes "net_frame_laws (so_net ops)" and "ring_laws (so_ring ops) bytes"
    and "lock_free_handler onRecv" and s: "sessionMapLock s = Unlocked"
  shows "\<exists>r. IOCompleted ops onRecv c n a s = Some r \<and> lock_free snd r"
proof -
  have "lock_free snd (obind (InvalidIOCompleted ops c s) (\<lambda>s. Inr (INVALID_OPERATION_TYPE, s)))"
    using s by (intro lock_free_bind [OF InvalidIOCompleted_lock]) (simp_all add: lock_simps)
  then show ?thesis
    using RecvCompleted_lock [OF assms, of a n] SendIOCompleted_lock [OF s]
    by (simp add: IOCompleted_def RecvIOCompleted_def)
qed

lemma GetIOCompletedContext_lock:
  assumes s: "sessionMapLock s = Unlocked"
  shows "lock_free snd (GetIOCompletedContext ops rc n s)"
proof -
  have "lock_free snd (obind (IOCountDecrement a (free_context ops c s)) (\<lambda>s. Inr (None :: (nat \<times> nat) option, s)))" for a c
    using s by (intro lock_free_bind [OF IOCountDecrement_lock]) (simp_all add: lock_simps free_context_def)
  then show ?thesis
    using s by (simp add: GetIOCompletedContext_def GetSession_Unlocked [OF s] lock_simps free_context_def split: option.split)
qed

lemma process_result_lock:
  assumes laws: "net_frame_laws (so_net ops)" "ring_laws (so_ring ops) bytes"
    and h: "lock_free_handler onRecv" and s: "sessionMapLock s = Unlocked"
  shows "\<exists>r. process_result ops onRecv result s = Some r \<and> lock_free (\<lambda>s. s) r"
proof -
  let ?s = "s\<lparr>pending := (case fst result of None \<Rightarrow> pending s | Some c \<Rightarrow> remove1 c (pending s))\<rparr>"
  have "sessionMapLock ?s = Unlocked" using s by simp
  note ctx = GetIOCompletedContext_lock [OF this, of ops "fst result" "snd result"]
  show ?thesis
  proof (cases "GetIOCompletedContext ops (fst result) (snd result) ?s")
    case (Inl e)
    with ctx show ?thesis by (simp add: process_result_def Let_def lock_simps)
  next
    case (Inr x)
    obtain found s1 where x: "x = (found, s1)" by (cases x)
    with ctx Inr have s1: "sessionMapLock s1 = Unlocked" by (simp add: lock_simps)
    show ?thesis
    proof (cases found)
      case None
      with Inr x s1 show ?thesis by (simp add: process_result_def Let_def lock_simps)
    next
      case (Some ca)
      obtain c a where ca: "ca = (c, a)" by (cases ca)
      obtain r where io: "IOCompleted ops onRecv c (snd result) a s1 = Some r" "lock_free snd r"
        using IOCompleted_lock [OF laws h s1] by blast
      show ?thesis
      proof (cases r)
        case (Inl e)
        with Inr x Some ca io show ?thesis by (simp add: process_result_def Let_def lock_simps)
      next
        case r: (Inr y)
        obtain ret s2 where y: "y = (ret, s2)" by (cases y)
        with io(2) r have "sessionMapLock (free_context ops c s2) = Unlocked" "sessionMapLock s2 = Unlocked"
          by (simp_all add: lock_simps free_context_def)
        with IOCountDecrement_lock [OF this(1), of a] Inr x Some ca io(1) r y show ?thesis
          by (simp add: process_result_def Let_def lock_simps)
      qed
    qed
  qed
qed

lemma process_results_lock:
  assumes laws: "net_frame_laws (so_net ops)" "ring_laws (so_ring ops) bytes" and h: "lock_free_handler onRecv"
  shows "sessionMapLock s = Unlocked \<Longrightarrow> \<exists>r. process_results ops onRecv n rs s = Some r \<and> lock_free (\<lambda>s. s) r"
proof (induction n arbitrary: rs s)
  case 0
  then show ?case by (simp add: lock_simps)
next
  case (Suc n)
  show ?case
  proof (cases rs)
    case Nil
    then show ?thesis by (simp add: lock_simps)
  next
    case (Cons x xs)
    obtain r where r: "process_result ops onRecv x s = Some r" "lock_free (\<lambda>s. s) r"
      using process_result_lock [OF laws h Suc.prems] by blast
    show ?thesis
    proof (cases r)
      case (Inl e)
      with Cons r show ?thesis by (simp add: lock_simps)
    next
      case (Inr s1)
      with r(2) have "sessionMapLock s1 = Unlocked" by (simp add: lock_simps)
      from Suc.IH [OF this] Cons r(1) Inr show ?thesis by simp
    qed
  qed
qed

lemma Worker_lock:
  assumes laws: "net_frame_laws (so_net ops)" "ring_laws (so_ring ops) bytes" and h: "lock_free_handler onRecv"
  shows "sessionMapLock s = Unlocked \<Longrightarrow> \<exists>r. Worker ops onRecv fs ticks s = Some r \<and> lock_free (\<lambda>s. s) r"
proof (induction fs arbitrary: ticks s)
  case Nil
  then show ?case by (simp add: lock_simps)
next
  case (Cons f fs)
  obtain r where r: "process_results ops onRecv (unat (wf_numOfResults f)) (rio_results f) s = Some r" "lock_free (\<lambda>s. s) r"
    using process_results_lock [OF laws h Cons.prems] by blast
  show ?case
  proof (cases r)
    case (Inl e)
    with Cons.prems r show ?thesis by (simp add: lock_simps)
  next
    case (Inr s1)
    with r(2) have "sessionMapLock s1 = Unlocked" by (simp add: lock_simps)
    from Cons.IH [OF this, of "snd (SleepRemainingFrameTime (wf_tick f) ticks)"] Cons.prems r(1) Inr show ?thesis
      by (simp add: lock_simps)
  qed
qed

section \<open>The dispatch of the program\<close>

lemma OnRecvPacket_lock:
  assumes "\<And>p. lock_free (\<lambda>s. s) (handle p s)" and "sessionMapLock s = Unlocked"
  shows "lock_free (\<lambda>s. s) (OnRecvPacket no pm handle b s)"
proof (cases "OnRecvPacket no pm handle b s")
  case (Inr s')
  from OnRecvPacket_Inr [OF this] have "sessionMapLock s' = Unlocked"
  proof (elim disjE exE)
    fix p assume "handle p s = Inr s'"
    with assms(1) [of p] show ?thesis by (simp add: lock_simps)
  qed (simp add: assms(2))
  with Inr show ?thesis by (simp add: lock_simps)
next
  case (Inl e)
  have "any_cast IGameAndClientPacket_ptr (Any IPacket_ptr p) = Inl UncaughtException" for p :: game_packet by simp
  with Inl have "e = UncaughtException"
    by (auto simp: OnRecvPacket_def packet_handler_def Let_def split: prod.splits option.splits)
  then show ?thesis using Inl by (simp add: lock_simps)
qed

lemma HandlePacket_lock:
  assumes "sessionMapLock s = Unlocked"
  shows "lock_free snd (HandlePacket ops a p s)"
proof -
  have "lock_free snd (obind (session_SendPacket ops a r s) (\<lambda>s. Inr ([], s)))" for r
    using assms SendPacket_lock
    by (intro lock_free_bind [where f = "\<lambda>s. s"]) (auto simp: session_SendPacket_def lock_simps split: option.split)
  then show ?thesis using assms by (cases p) (simp_all add: lock_simps)
qed

lemma code_onRecv_lock: "lock_free_handler (code_onRecv ops pm)"
  unfolding lock_free_handler_def code_onRecv_def
  by (intro allI impI OnRecvPacket_lock lock_free_bind [OF HandlePacket_lock]) (auto simp: lock_simps)

end
