(* ===== verification/ServerThreads.thy ===== *)
theory ServerThreads
  imports ServerProps MapLock
begin

text \<open>
  The worker threads of RIOTestServer: how a new session is given a thread, how a worker goes
  through the completions of a frame, and how it paces its frames.
\<close>

section \<open>The choice of a thread\<close>

lemma minimum_thread_cases:
  "unat tid + length cs \<le> 256 \<Longrightarrow>
   minimum_thread cs tid m t = t \<and> (\<forall>c \<in> set cs. m \<le> c \<and> c \<noteq> 0) \<or>
   (\<exists>j < length cs. unat (minimum_thread cs tid m t) = unat tid + j \<and> (\<forall>c \<in> set cs. cs ! j \<le> c) \<and>
      (cs ! j < m \<or> cs ! j = 0))"
proof (induction cs tid m t rule: minimum_thread.induct)
  case (2 c cs tid m t)
  have next_tid: "unat (tid + 1) = unat tid + 1" if "cs \<noteq> []"
  proof -
    have "unat tid + 1 < 256" using 2(3) that by (cases cs) auto
    then show ?thesis by (simp add: unat_word_ariths)
  qed
  have fits: "unat (tid + 1) + length cs \<le> 256"
  proof (cases "cs = []")
    case True
    have "unat (tid + 1) < 2 ^ LENGTH(8)" by (rule unsigned_less)
    with True show ?thesis by simp
  next
    case False
    with 2(3) next_tid show ?thesis by simp
  qed
  consider "c = 0" | "c \<noteq> 0" "c < m" | "c \<noteq> 0" "\<not> c < m" by blast
  then show ?case
  proof cases
    case 1
    then show ?thesis by (intro disjI2 exI [of _ 0]) simp
  next
    case here: 2
    from "2.IH"(1) [OF here fits] show ?thesis
    proof
      assume "minimum_thread cs (tid + 1) c tid = tid \<and> (\<forall>d \<in> set cs. c \<le> d \<and> d \<noteq> 0)"
      with here show ?thesis by (intro disjI2 exI [of _ 0]) simp
    next
      assume "\<exists>j < length cs. unat (minimum_thread cs (tid + 1) c tid) = unat (tid + 1) + j \<and>
        (\<forall>d \<in> set cs. cs ! j \<le> d) \<and> (cs ! j < c \<or> cs ! j = 0)"
      then obtain j where j: "j < length cs" "unat (minimum_thread cs (tid + 1) c tid) = unat (tid + 1) + j"
        "\<forall>d \<in> set cs. cs ! j \<le> d" "cs ! j < c \<or> cs ! j = 0" by blast
      then have "cs \<noteq> []" by auto
      moreover have "cs ! j \<le> c" "cs ! j < m \<or> cs ! j = 0" using j(4) here by auto
      ultimately show ?thesis using here j next_tid by (intro disjI2 exI [of _ "Suc j"]) simp
    qed
  next
    case here: 3
    from "2.IH"(2) [OF here fits] show ?thesis
    proof
      assume "minimum_thread cs (tid + 1) m t = t \<and> (\<forall>d \<in> set cs. m \<le> d \<and> d \<noteq> 0)"
      with here show ?thesis by auto
    next
      assume "\<exists>j < length cs. unat (minimum_thread cs (tid + 1) m t) = unat (tid + 1) + j \<and>
        (\<forall>d \<in> set cs. cs ! j \<le> d) \<and> (cs ! j < m \<or> cs ! j = 0)"
      then obtain j where j: "j < length cs" "unat (minimum_thread cs (tid + 1) m t) = unat (tid + 1) + j"
        "\<forall>d \<in> set cs. cs ! j \<le> d" "cs ! j < m \<or> cs ! j = 0" by blast
      then have "cs \<noteq> []" by auto
      moreover have "cs ! j \<le> c" using j(4) here by auto
      ultimately show ?thesis using here j next_tid by (intro disjI2 exI [of _ "Suc j"]) simp
    qed
  qed
qed simp

text \<open>
  C25: A new session goes to a least-loaded worker thread, provided that some thread has fewer
  sessions than \<open>maxClientCount\<close> or none at all; the loop stays in range for the at most 255
  threads that a BYTE can ask for.
\<close>

theorem GetMinimumSessionThreadId_least:
  assumes "length (numOfSessionInWorkerThread s) \<le> 255"
    and "\<exists>c \<in> set (numOfSessionInWorkerThread s). c < maxClientCount s \<or> c = 0"
  shows "unat (GetMinimumSessionThreadId s) < length (numOfSessionInWorkerThread s) \<and>
    (\<forall>c \<in> set (numOfSessionInWorkerThread s). numOfSessionInWorkerThread s ! unat (GetMinimumSessionThreadId s) \<le> c)"
  using minimum_thread_cases [of 0 "numOfSessionInWorkerThread s" "maxClientCount s" 0] assms
  by (auto simp: GetMinimumSessionThreadId_def)

text \<open>
  When every thread has reached \<open>maxClientCount\<close>, GetMinimumSessionThreadId does not refuse
  the client and does not look for the least-loaded thread: it answers thread 0.
\<close>

lemma GetMinimumSessionThreadId_full:
  assumes "length (numOfSessionInWorkerThread s) \<le> 255" and "0 < maxClientCount s"
    and "\<And>c. c \<in> set (numOfSessionInWorkerThread s) \<Longrightarrow> maxClientCount s \<le> c"
  shows "GetMinimumSessionThreadId s = 0"
proof -
  let ?cs = "numOfSessionInWorkerThread s"
  have False if "j < length ?cs" "?cs ! j < maxClientCount s \<or> ?cs ! j = 0" for j
    using that assms(2) assms(3) [of "?cs ! j"] by auto
  then show ?thesis
    using minimum_thread_cases [of 0 ?cs "maxClientCount s" 0] assms(1)
    by (auto simp: GetMinimumSessionThreadId_def)
qed

section \<open>A worker's frame\<close>

lemma RecvCompleted_returns:
  assumes "net_frame_laws (so_net ops)" and "ring_laws (so_ring ops) bytes"
  shows "RecvCompleted ops onRecv a n s \<noteq> None"
proof -
  let ?ring = "rb_MoveWritePos (so_ring ops) (uint n) (recvRingBuffer (heap s a))"
  obtain ps err rest where "parse_frames (so_net ops) (bytes ?ring) = (ps, err, rest)"
    by (cases "parse_frames (so_net ops) (bytes ?ring)") auto
  from recv_loop_refines [OF assms this, of "onRecv a" s] assms(2)
  obtain res where "recv_loop (so_net ops) (so_ring ops) (onRecv a) ?ring (rb_GetUseSize (so_ring ops) ?ring) s = Some res"
    by (auto simp: ring_laws_def)
  then show ?thesis
    by (cases res) (auto simp: RecvCompleted_def Let_def split: prod.splits if_splits)
qed

lemma rbind_not_None: "m \<noteq> None \<Longrightarrow> (\<And>x. f x \<noteq> None) \<Longrightarrow> rbind m f \<noteq> None"
  by (simp add: rbind_eq_None_iff del: not_None_eq)

lemma process_result_returns:
  assumes "net_frame_laws (so_net ops)" and "ring_laws (so_ring ops) bytes"
  shows "process_result ops onRecv r s \<noteq> None"
proof -
  have "IOCompleted ops onRecv c n a s \<noteq> None" for c n a s
    using RecvCompleted_returns [OF assms, of onRecv a n s]
    by (simp add: IOCompleted_def RecvIOCompleted_def)
  then have "rbind (IOCompleted ops onRecv c n a s') (\<lambda>(result, s).
      if result = INVALID_OPERATION_TYPE then Some (Inr s)
      else let s = free_context ops c s
           in if result = IS_DELETED_SESSION then Some (Inr s) else Some (IOCountDecrement a s)) \<noteq> None"
    for c n a s'
    by (rule rbind_not_None) (simp add: split_def Let_def)
  then show ?thesis
    unfolding process_result_def Let_def
    by (intro rbind_not_None) (simp_all add: split_def del: not_None_eq split: option.split)
qed

lemma process_results_returns:
  assumes "net_frame_laws (so_net ops)" and "ring_laws (so_ring ops) bytes"
  shows "process_results ops onRecv n rs s \<noteq> None"
proof (induction n arbitrary: rs s)
  case (Suc n)
  have "rbind (process_result ops onRecv r s) (process_results ops onRecv n rs') \<noteq> None" for r rs'
    using process_result_returns [OF assms] Suc by (rule rbind_not_None)
  then show ?case by (cases rs) (simp_all del: not_None_eq)
qed simp

text \<open>The loops return for every handler that does, locks aside.\<close>

lemma Worker_terminates:
  assumes "net_frame_laws (so_net ops)" and "ring_laws (so_ring ops) bytes"
  shows "Worker ops onRecv fs ticks s \<noteq> None"
proof (induction fs arbitrary: ticks s)
  case (Cons f fs)
  have "rbind (process_results ops onRecv n rs s) (Worker ops onRecv fs tk) \<noteq> None" for n rs tk
    using process_results_returns [OF assms] Cons by (rule rbind_not_None)
  then show ?case by (simp del: not_None_eq)
qed simp

text \<open>
  C26: A worker never hangs. When the lock of the session map is free, then whatever the kernel
  returns, whatever bytes the clients have sent and whatever handlers are registered, the worker
  gets through any number of frames: the loop over the completions and the packet loop in it
  return, and the worker never waits for the lock while its own thread holds it. It ends with the
  lock free, or the process ends in it.
\<close>

theorem Worker_returns:
  assumes "net_frame_laws (so_net ops)" and "ring_laws (so_ring ops) bytes" and "sessionMapLock s = Unlocked"
  shows "\<exists>r. Worker ops (code_onRecv ops pm) fs ticks s = Some r \<and>
    (case r of Inl e \<Rightarrow> e \<noteq> SelfDeadlock | Inr s' \<Rightarrow> sessionMapLock s' = Unlocked)"
  using Worker_lock [OF assms(1,2) code_onRecv_lock assms(3)] by (simp add: lock_free_def)

lemma process_zeroed [simp]: "process_result ops onRecv (None, 0) s = Some (Inr s)"
  by (simp add: process_result_def GetIOCompletedContext_def)

lemma process_results_zeroed:
  "m < n \<Longrightarrow> process_results ops onRecv n (replicate m (None, 0)) s = Some (Inl UndefinedBehaviour)"
proof (induction m arbitrary: n)
  case 0
  then show ?case by (cases n) simp_all
next
  case (Suc m)
  then show ?case by (cases n) simp_all
qed

text \<open>
  When RIODequeueCompletion reports a corrupt completion queue, the worker takes
  RIO_CORRUPT_CQ for the number of results and reads beyond its array of 256. The member function
  RIODequeueCompletion would have ended the process with a dump, but Worker calls the function
  table instead.
\<close>

lemma corrupt_queue_overruns:
  assumes "wf_numOfResults f = 0xFFFFFFFF" and "wf_rioResults f = []" and "\<not> wf_serverStop f"
  shows "Worker ops onRecv (f # fs) ticks s = Some (Inl UndefinedBehaviour) \<and>
    RIODequeueCompletion (wf_numOfResults f) = Inl Crash"
proof -
  have "process_results ops onRecv (unat (0xFFFFFFFF :: u32)) (replicate 256 (None, 0)) s = Some (Inl UndefinedBehaviour)"
    by (rule process_results_zeroed) simp
  moreover have "rio_results f = replicate 256 (None, 0)"
    using assms(2) by (simp add: rio_results_def MAX_RIO_RESULT_def)
  ultimately show ?thesis
    using assms by (simp add: RIODequeueCompletion_def del: process_results.simps)
qed

section \<open>The pace of the frames\<close>

text \<open>
  A worker whose frames take \<open>d\<close> milliseconds of work, less than 33, sleeps for the rest of a
  frame only every other time: SleepRemainingFrameTime keeps the tick from before its Sleep, so
  that the next frame counts the time slept as work and is not paced at all.
\<close>

lemma every_other_frame_unpaced:
  assumes "0 < d" and "d < 33"
  shows "\<exists>ticks. SleepRemainingFrameTime (t + of_nat d) \<lparr>nowTick = t, beforeTick = t\<rparr> = (of_nat (33 - d), ticks) \<and>
    fst (SleepRemainingFrameTime (t + of_nat d + of_nat (33 - d) + of_nat d) ticks) = 0"
proof -
  have u: "unat (of_nat d :: u64) = d" "unat (of_nat (33 - d) + of_nat d :: u64) = 33"
    using assms by (simp_all add: unat_of_nat of_nat_add [symmetric] del: of_nat_add of_nat_diff)
  have 1: "(of_nat d :: u64) < 33" "0 < (of_nat d :: u64)"
    using assms u(1) by (simp_all add: word_less_nat_alt)
  have "(ucast (of_nat d :: u64) :: u32) = of_nat d"
    using assms u(1) by (simp add: word_unat_eq_iff unsigned_ucast_eq unat_of_nat take_bit_nat_eq_self)
  moreover have "(33 - of_nat d :: u32) = of_nat (33 - d)"
    using assms by (simp add: of_nat_diff)
  moreover have "\<not> (of_nat (33 - d) + of_nat d :: u64) < 33"
    using u(2) by (simp add: word_less_nat_alt)
  ultimately show ?thesis
    using 1 by (simp add: add.commute [of _ "word_of_nat d"] SleepRemainingFrameTime_def ONE_FRAME_def Let_def)
qed

section \<open>Concrete runs\<close>

text \<open>The server with four threads, and a frame in which the queue reports one end of a stream.\<close>

definition four_threads :: "u32 list \<Rightarrow> (u8 list, NetBuffer list, nat \<times> nat list) server" where
  "four_threads cs = demo_server\<lparr>numOfSessionInWorkerThread := cs, maxClientCount := 5\<rparr>"

lemma four_threads_simps [simp]:
  "numOfSessionInWorkerThread (four_threads cs) = cs" "maxClientCount (four_threads cs) = 5"
  by (simp_all add: four_threads_def)

theorem GetMinimumSessionThreadId_least_witness:
  "GetMinimumSessionThreadId (four_threads [4, 2, 3, 2]) = 1 \<and>
   list_all (\<lambda>c. [4, 2, 3, 2] ! unat (GetMinimumSessionThreadId (four_threads [4, 2, 3, 2])) \<le> c) [4, 2, 3, 2 :: u32]"
proof -
  have 1: "GetMinimumSessionThreadId (four_threads [4, 2, 3, 2]) = 1"
    by (simp add: GetMinimumSessionThreadId_def)
  from GetMinimumSessionThreadId_least [of "four_threads [4, 2, 3, 2]"] show ?thesis
    unfolding 1 by simp
qed

lemma GetMinimumSessionThreadId_full_witness:
  "GetMinimumSessionThreadId (four_threads [9, 7, 5, 6]) = 0"
  by (rule GetMinimumSessionThreadId_full) auto

theorem Worker_returns_witness:
  "\<exists>r. Worker (demo_ops {}) (code_onRecv (demo_ops {}) (PacketManager_Init empty_PacketManager))
     [\<lparr>wf_serverStop = False, wf_numOfResults = 1, wf_rioResults = [(Some 0, 0)], wf_tick = 10\<rparr>]
     \<lparr>nowTick = 0, beforeTick = 0\<rparr> demo_server = Some r \<and> r \<noteq> Inl SelfDeadlock"
proof -
  have "sessionMapLock demo_server = Unlocked" by simp
  from Worker_returns [where bytes = "\<lambda>r. r" and ops = "demo_ops {}" and pm = "PacketManager_Init empty_PacketManager"
      and fs = "[\<lparr>wf_serverStop = False, wf_numOfResults = 1, wf_rioResults = [(Some 0, 0)], wf_tick = 10\<rparr>]"
      and ticks = "\<lparr>nowTick = 0, beforeTick = 0\<rparr>", OF _ _ this]
  show ?thesis by (auto simp: plain_net_frame_laws list_ring_laws demo_ops_def)
qed

lemma corrupt_queue_overruns_witness:
  "Worker (demo_ops {}) (\<lambda>a b w. Inr w)
     [\<lparr>wf_serverStop = False, wf_numOfResults = 0xFFFFFFFF, wf_rioResults = [], wf_tick = 10\<rparr>]
     \<lparr>nowTick = 0, beforeTick = 0\<rparr> demo_server = Some (Inl UndefinedBehaviour)"
  using corrupt_queue_overruns
    [of "\<lparr>wf_serverStop = False, wf_numOfResults = 0xFFFFFFFF, wf_rioResults = [], wf_tick = 10\<rparr>"
      "demo_ops {}" "\<lambda>a b w. Inr w" "[]" "\<lparr>nowTick = 0, beforeTick = 0\<rparr>" demo_server]
  by simp

lemma every_other_frame_unpaced_witness:
  "fst (SleepRemainingFrameTime 110 \<lparr>nowTick = 100, beforeTick = 100\<rparr>) = 23 \<and>
   fst (SleepRemainingFrameTime 143 (snd (SleepRemainingFrameTime 110 \<lparr>nowTick = 100, beforeTick = 100\<rparr>))) = 0"
  using every_other_frame_unpaced [of 10 100] by auto

end
