(* ===== verification/Packets.thy ===== *)
theory Packets
  imports ServerThreads
begin

text \<open>
  A packet of a client from the completion of its receive to what the server does for it: the
  receive loop of Framing, the dispatch of Dispatch, the completion and the worker of Server, and the
  handlers with the send path behind them, put together.
\<close>

section \<open>What a completed receive comes to\<close>

text \<open>A buffer at whose read position an id stands.\<close>

definition packet_with_id :: "(NetBuffer \<Rightarrow> wire_value list) \<Rightarrow> NetBuffer \<Rightarrow> PacketId \<Rightarrow> bool" where
  "packet_with_id flds b k \<longleftrightarrow> (\<exists>rest. flds b = FUInt k # rest)"

lemma deliver_by_ids:
  assumes laws: "net_read_laws (so_net ops) flds" and "list_all2 (packet_with_id flds) bs ks"
  shows "deliver (code_onRecv ops (PacketManager_Init empty_PacketManager) a) bs s =
    (if list_ex registered ks then Inl UncaughtException else Inr s)"
  using assms(2)
proof (induction rule: list_all2_induct)
  case (Cons b bs k ks)
  then obtain rest where "flds b = FUInt k # rest" by (auto simp: packet_with_id_def)
  with Cons.IH show ?case by (auto simp: code_onRecv_def OnRecvPacket_by_id [OF laws])
qed simp

lemma RecvCompleted_after_loop:
  assumes "recv_loop (so_net ops) (so_ring ops) (onRecv a) (rb_MoveWritePos (so_ring ops) (uint n) (recvRingBuffer (heap s a)))
      (rb_GetUseSize (so_ring ops) (rb_MoveWritePos (so_ring ops) (uint n) (recvRingBuffer (heap s a)))) s = Some r"
  shows "RecvCompleted ops onRecv a n s = (case r of
      Inl e \<Rightarrow> Some (Inl e)
    | Inr (ring, packetError, s) \<Rightarrow>
        (case RecvPost ops a (upd_session a (\<lambda>x. x\<lparr>recvRingBuffer := ring, rioRecvOffset := rioRecvOffset x + n\<rparr>) s) of
           (result, s) \<Rightarrow> Some (if packetError then obind (ReleaseSession a s) (\<lambda>s. Inr (result, s)) else Inr (result, s))))"
  unfolding RecvCompleted_def Let_def assms by (simp split: sum.split prod.split)

text \<open>
  C7: The ids decide what a completed receive comes to. When the received bytes are whole frames and
  the beginning of another one, RecvCompleted ends the process with the exception of the dispatch if any of the
  packets has a registered id, and otherwise drops them all: it keeps the incomplete frame, advances the
  offset and posts the next receive, and nothing else of the server changes.
\<close>

theorem received_ids_decide:
  assumes frames: "net_frame_laws (so_net ops)" and laws: "net_read_laws (so_net ops) flds"
    and ring: "ring_laws (so_ring ops) bytes"
    and fs: "list_all2 (is_frame (so_net ops)) fs bs" "next_frame (so_net ops) t = Wait"
    and r: "bytes (rb_MoveWritePos (so_ring ops) (uint n) (recvRingBuffer (heap s a))) = concat fs @ t"
    and ids: "list_all2 (packet_with_id flds) bs ks"
  shows "\<exists>ring'. bytes ring' = t \<and>
    RecvCompleted ops (code_onRecv ops (PacketManager_Init empty_PacketManager)) a n s =
      Some (if list_ex registered ks then Inl UncaughtException
        else Inr (RecvPost ops a (upd_session a (\<lambda>x. x\<lparr>recvRingBuffer := ring',
          rioRecvOffset := rioRecvOffset x + n\<rparr>) s)))"
proof -
  let ?ring = "rb_MoveWritePos (so_ring ops) (uint n) (recvRingBuffer (heap s a))"
  let ?f = "code_onRecv ops (PacketManager_Init empty_PacketManager)"
  have "parse_frames (so_net ops) (bytes ?ring) = (bs, False, t)"
    using parse_frames_concat [OF frames fs] r by simp
  from recv_loop_refines [OF frames ring this, of "?f a" s]
  obtain ring' where ring': "bytes ring' = t" and "recv_loop (so_net ops) (so_ring ops) (?f a) ?ring
      (rb_GetUseSize (so_ring ops) ?ring) s = Some (obind (deliver (?f a) bs s) (\<lambda>w. Inr (ring', False, w)))"
    unfolding ring_laws_use [OF ring] by blast
  from RecvCompleted_after_loop [where onRecv = ?f, OF this(2)] deliver_by_ids [OF laws ids, of a s]
  have "RecvCompleted ops ?f a n s = Some (if list_ex registered ks then Inl UncaughtException
        else Inr (RecvPost ops a (upd_session a (\<lambda>x. x\<lparr>recvRingBuffer := ring',
          rioRecvOffset := rioRecvOffset x + n\<rparr>) s)))"
    by (cases "list_ex registered ks") (simp_all split: prod.split)
  with ring' show ?thesis by blast
qed

text \<open>From a completion to the worker that takes it.\<close>

lemma received_by_worker:
  assumes lock: "sessionMapLock s = Unlocked" and c: "ioType (contextAt s c) = OP_RECV"
    and a: "sessionMap s (ownerSessionId (contextAt s c)) = Some a" "\<not> ioCancle (heap s a)" "n \<noteq> 0"
    and run: "RecvCompleted ops onRecv a n (take_completion c s) = Some (Inl e)"
  shows "process_result ops onRecv (Some c, n) s = Some (Inl e)"
proof -
  have "sessionMapLock (take_completion c s) = Unlocked" using lock by simp
  from GetSession_Unlocked [OF this] run c a show ?thesis
    by (simp add: process_result_def GetIOCompletedContext_def IOCompleted_def RecvIOCompleted_def)
qed

text \<open>
  C8: Any client can end the server: one well-formed packet with a registered id, as the first result of
  a worker's frame, ends the process, in every state in which its session is in the map.
\<close>

theorem registered_packet_ends_process:
  assumes frames: "net_frame_laws (so_net ops)" and laws: "net_read_laws (so_net ops) flds"
    and ring: "ring_laws (so_ring ops) bytes"
    and s: "sessionMapLock s = Unlocked" "ioType (contextAt s c) = OP_RECV"
      "sessionMap s (ownerSessionId (contextAt s c)) = Some a" "\<not> ioCancle (heap s a)" "n \<noteq> 0"
    and r: "bytes (rb_MoveWritePos (so_ring ops) (uint n) (recvRingBuffer (heap s a))) = f"
    and f: "is_frame (so_net ops) f b" "packet_with_id flds b k" "registered k"
    and w: "\<not> wf_serverStop w" "wf_numOfResults w \<noteq> 0" "wf_rioResults w = (Some c, n) # rs"
  shows "Worker ops (code_onRecv ops (PacketManager_Init empty_PacketManager)) (w # ws) ticks s =
    Some (Inl UncaughtException)"
proof -
  let ?f = "code_onRecv ops (PacketManager_Init empty_PacketManager)"
  have "next_frame (so_net ops) [] = Wait" by (simp add: next_frame_def)
  then have "RecvCompleted ops ?f a n (take_completion c s) = Some (Inl UncaughtException)"
    using received_ids_decide [OF frames laws ring, of "[f]" "[b]" "[]" n "take_completion c s" a "[k]"] f r by auto
  from received_by_worker [OF s this]
  have result: "process_result ops ?f (Some c, n) s = Some (Inl UncaughtException)" .
  obtain m where "unat (wf_numOfResults w) = Suc m"
    using w(2) by (cases "unat (wf_numOfResults w)") (simp_all add: unat_eq_0)
  moreover have "rio_results w = (Some c, n) # tl (rio_results w)"
    by (simp add: rio_results_def w(3) MAX_RIO_RESULT_def)
  ultimately show ?thesis using w(1) result by (metis process_results.simps(3) Worker.simps(2) rbind.simps)
qed

section \<open>What the handlers answer\<close>

text \<open>What a session's send buffer holds and the kernel is told to send of it.\<close>

definition sends_bytes :: "u8 list \<Rightarrow> nat \<Rightarrow> ('r, 'q, 'p) server \<Rightarrow> ('r, 'q, 'p) server \<Rightarrow> bool" where
  "sends_bytes bytes a s s' \<longleftrightarrow> (\<exists>c.
     pending s' = pending s @ [c] \<and>
     contextAt s' c = \<lparr>ownerSessionId = sessionId (heap s a), ioType = OP_SEND, BufferId = sendBufferId (heap s a),
       Length = of_nat (length bytes), Offset = 0\<rparr> \<and>
     take (length bytes) (rioSendBuffer (sendItem (heap s' a))) = bytes \<and>
     ioMode (sendItem (heap s' a)) = IO_SENDING \<and> ioCount (heap s' a) = ioCount (heap s a) + 1)"

text \<open>A packet for a session that is sending nothing goes out at once, and alone.\<close>

lemma SendPacket_idle:
  assumes q: "queue_laws (so_queue ops) items" and size: "net_size_laws (so_net ops)"
    and idle: "ioMode (sendItem (heap s a)) = IO_NONE_SENDING" "reservedBuffer (sendItem (heap s a)) = None"
      "items (sendQueue (sendItem (heap s a))) = []" "length (rioSendBuffer (sendItem (heap s a))) = 16384"
    and ok: "rio_ok ops (rioCalls s)"
    and small: "length (packet_bytes (so_net ops) (encode_packet (so_net ops) p)) \<le> 5461"
  shows "\<exists>s'. SendPacket ops a p s = Inr s' \<and> sends_bytes (packet_bytes (so_net ops) (encode_packet (so_net ops) p)) a s s'"
proof -
  let ?p = "encode_packet (so_net ops) p"
  let ?q = "q_Enqueue (so_queue ops) ?p (sendQueue (sendItem (heap s a)))"
  let ?it = "(sendItem (heap s a))\<lparr>sendQueue := ?q, ioMode := IO_SENDING\<rparr>"
  let ?s = "upd_session a (\<lambda>x. x\<lparr>sendItem := (sendItem x)\<lparr>sendQueue := ?q\<rparr>\<rparr>) s"
  have items: "items ?q = [?p]" using idle(3) by (simp add: queue_laws_Enqueue [OF q])
  have rest: "q_GetRestSize (so_queue ops) ?q = 1" using items by (simp add: queue_laws_GetRestSize [OF q])
  obtain it' where make: "MakeSendStream (so_net ops) (so_queue ops) ?it =
      Inr (of_nat (length (packet_bytes (so_net ops) ?p)), it')"
    and sent: "take (length (packet_bytes (so_net ops) ?p)) (rioSendBuffer it') = packet_bytes (so_net ops) ?p"
      "ioMode it' = IO_SENDING"
    using one_packet_stream [OF q size, of ?it ?p] idle items small by auto
  obtain c pool where pool: "pool_Alloc (so_pool ops) (contextPool s) = (c, pool)" by fastforce
  let ?s' = "s\<lparr>contextPool := pool, contextAt := (contextAt s)(c := \<lparr>ownerSessionId = sessionId (heap s a),
      ioType = OP_SEND, BufferId = sendBufferId (heap s a), Length = of_nat (length (packet_bytes (so_net ops) ?p)),
      Offset = 0\<rparr>), heap := (heap s)(a := (heap s a)\<lparr>sendItem := it', ioCount := ioCount (heap s a) + 1\<rparr>),
      rioCalls := Suc (rioCalls s), pending := pending s @ [c]\<rparr>"
  have send: "SendPost_send ops a (upd_session a (\<lambda>x. x\<lparr>sendItem := ?it\<rparr>) s) = Inr (True, ?s')"
    using make ok by (simp add: SendPost_send_def alloc_context_def rio_post_def pool Let_def)
  have again: "SendPost ops a ?s' = Inr (SUCCESS, ?s')"
    using sent(2) by (subst SendPost.simps) simp
  have "SendPost ops a ?s = Inr (SUCCESS, ?s')"
    using idle(1) rest by (subst SendPost.simps) (simp add: Let_def send again)
  then have "SendPacket ops a p s = Inr ?s'" by (simp add: SendPacket_def Let_def)
  moreover have "sends_bytes (packet_bytes (so_net ops) ?p) a s ?s'"
    using sent by (simp add: sends_bytes_def)
  ultimately show ?thesis by blast
qed

text \<open>The packet that a handler sends back, and what it asks of the database for the session with id \<open>k\<close>.\<close>

fun answer_of :: "game_packet \<Rightarrow> game_packet option" where
  "answer_of (TestStringPacket str) = Some (TestStringPacket str)"
| "answer_of Ping = Some Pong"
| "answer_of _ = None"

fun requests_of :: "nat \<Rightarrow> SessionId \<Rightarrow> game_packet \<Rightarrow> db_request list" where
  "requests_of a k (TestProcedurePacket i str) = [BatchRequest a (DBTest i str) (DBTest (- 1) rollbackString)]"
| "requests_of a k (SelectTest2ProcedurePacket i) = [FixedChannelRequest (CallSelectTest2ProcedurePacket k i) k]"
| "requests_of a k _ = []"

lemma HandlePacket_eq:
  "HandlePacket ops a p s = (case answer_of p of
     None \<Rightarrow> Inr (requests_of a (sessionId (heap s a)) p, s)
   | Some r \<Rightarrow> obind (session_SendPacket ops a r s) (\<lambda>s. Inr ([], s)))"
  by (cases p) simp_all

text \<open>
  C10: The handlers of TestStringPacket and Ping answer: on a session that is sending nothing, and when the kernel
  accepts the send and the answer fits a buffer, exactly the encoded bytes of the answer (the same string, a Pong) are in the send buffer and
  in one send of their length, the session has one reference more, and the fields of the answer are its id
  and its members.
\<close>

theorem HandlePacket_answers:
  assumes laws: "net_stream_laws (so_net ops) sz flds" and q: "queue_laws (so_queue ops) items" and size: "net_size_laws (so_net ops)"
    and idle: "ioMode (sendItem (heap s a)) = IO_NONE_SENDING" "reservedBuffer (sendItem (heap s a)) = None"
      "items (sendQueue (sendItem (heap s a))) = []" "length (rioSendBuffer (sendItem (heap s a))) = 16384"
    and ok: "rio_ok ops (rioCalls s)" and r: "answer_of p = Some r" "marshal_packet (so_net ops) r = Some b"
    and fits: "net_fits (so_net ops) sz (FUInt (GetPacketId r) # packet_params r)"
    and small: "length (packet_bytes (so_net ops) (encode_packet (so_net ops) b)) \<le> 5461"
  shows "\<exists>s'. HandlePacket ops a p s = Inr ([], s') \<and> flds b = FUInt (GetPacketId r) # packet_params r \<and>
    sends_bytes (packet_bytes (so_net ops) (encode_packet (so_net ops) b)) a s s'"
proof -
  have "flds b = FUInt (GetPacketId r) # packet_params r"
    using marshal_packet_fields [OF laws fits] r(2) by (metis option.inject)
  with SendPacket_idle [OF q size idle ok small] r show ?thesis
    by (auto simp: HandlePacket_eq session_SendPacket_def)
qed

section \<open>Witnesses\<close>

text \<open>
  The buffer of \<open>plain_net\<close> with the fields of a stream, whose code is a key: the fields of a decoded packet are the
  id that its only byte encodes.
\<close>

definition coded_fields :: "NetBuffer \<Rightarrow> wire_value list" where
  "coded_fields b = from_nat (nat (m_iWriteLast b))"

definition code_fields :: "wire_value list \<Rightarrow> NetBuffer \<Rightarrow> NetBuffer" where
  "code_fields fs b = b\<lparr>m_iWriteLast := int (to_nat fs)\<rparr>"

lemma code_fields_simps [simp]:
  "coded_fields (code_fields fs b) = fs"
  "m_pSerializeBuffer (code_fields fs b) = m_pSerializeBuffer b" "m_iWrite (code_fields fs b) = m_iWrite b"
  "m_bIsEncoded (code_fields fs b) = m_bIsEncoded b"
  by (simp_all add: coded_fields_def code_fields_def)

definition packet_net :: net_ops where
  "packet_net = plain_net\<lparr>
     nb_Alloc := Some (code_fields [] \<lparr>m_pSerializeBuffer = replicate 16 0, m_iRead = 0, m_iWrite = 3, m_iWriteLast = 0,
       m_bIsEncoded = False\<rparr>),
     nb_put := (\<lambda>f b. code_fields (coded_fields b @ [f]) b),
     nb_get := (\<lambda>t b. case coded_fields b of [] \<Rightarrow> (FUInt 0, b) | f # fs \<Rightarrow> (f, code_fields fs b)),
     nb_Decode := (\<lambda>b. (True, code_fields [FUInt (6 - ucast (byte_at b 3))] b))\<rparr>"

lemma packet_net_puts: "coded_fields (fold (nb_put packet_net) fs b) = coded_fields b @ fs"
  by (induction fs arbitrary: b) (simp_all add: packet_net_def)

lemma packet_net_laws:
  "net_frame_laws packet_net" "net_stream_laws packet_net wire_size coded_fields" "net_size_laws packet_net"
  "net_read_laws packet_net coded_fields"
proof -
  show "net_frame_laws packet_net" "net_size_laws packet_net"
    by (auto simp: net_frame_laws_def net_size_laws_def packet_net_def plain_net_def)
  show read: "net_read_laws packet_net coded_fields" by (simp add: net_read_laws_def packet_net_def)
  show "net_stream_laws packet_net wire_size coded_fields"
    by (simp add: net_stream_laws_def read packet_net_puts) (simp add: packet_net_def)
qed

lemma packet_net_dfDEFAULTSIZE: "dfDEFAULTSIZE packet_net = 8"
  by (simp add: packet_net_def plain_net_def)

definition packet_ops :: "(u8 list, NetBuffer list, nat \<times> nat list) server_ops" where
  "packet_ops = (demo_ops {})\<lparr>so_net := packet_net\<rparr>"

lemma packet_ops_simps [simp]:
  "so_net packet_ops = packet_net" "so_ring packet_ops = list_ring" "so_queue packet_ops = list_queue"
  "so_pool packet_ops = list_pool" "rio_ok packet_ops n"
  by (simp_all add: packet_ops_def)

definition coded_packet :: "u8 \<Rightarrow> NetBuffer" where
  "coded_packet x = code_fields [FUInt (6 - ucast x)] \<lparr>m_pSerializeBuffer = [119, 1, 0, x] @ replicate 12 0,
     m_iRead = 3, m_iWrite = 4, m_iWriteLast = 0, m_bIsEncoded = False\<rparr>"

lemma coded_frame: "is_frame packet_net [119, 1, 0, x] (coded_packet x)"
  by (simp add: is_frame_def next_frame_def alloc_with_header_def GetPayloadLength_def append_payload_def
      mem_put_def packet_net_def plain_net_def byte_at_def coded_packet_def code_fields_def)

lemma coded_packet_id: "packet_with_id coded_fields (coded_packet x) (6 - ucast x)"
  by (simp add: packet_with_id_def coded_packet_def)

theorem received_ids_decide_witness:
  "\<exists>ring'. ring' = [119, 2] \<and>
    RecvCompleted packet_ops (code_onRecv packet_ops (PacketManager_Init empty_PacketManager)) 0 0
      (upd_session 0 (\<lambda>x. x\<lparr>recvRingBuffer := [119, 1, 0, 1, 119, 1, 0, 6, 119, 2]\<rparr>) demo_server) =
      Some (Inr (RecvPost packet_ops 0 (upd_session 0 (\<lambda>x. x\<lparr>recvRingBuffer := ring'\<rparr>) demo_server)))"
proof -
  let ?s = "upd_session 0 (\<lambda>x. x\<lparr>recvRingBuffer := [119, 1, 0, 1, 119, 1, 0, 6, 119, 2]\<rparr>) demo_server"
  have "next_frame packet_net [119, 2] = Wait" by (simp add: next_frame_def packet_net_def plain_net_def)
  moreover have "packet_with_id coded_fields (coded_packet 1) 5" "packet_with_id coded_fields (coded_packet 6) 0"
    using coded_packet_id [of 1] coded_packet_id [of 6] by simp_all
  ultimately show ?thesis
    using received_ids_decide [of packet_ops coded_fields "\<lambda>r. r" "[[119, 1, 0, 1], [119, 1, 0, 6]]"
        "[coded_packet 1, coded_packet 6]" "[119, 2]" 0 ?s 0 "[5, 0]"] packet_net_laws list_ring_laws coded_frame
    by (simp add: list_ring_def registered_iff)
qed

theorem registered_packet_ends_process_witness:
  "\<exists>s c. sessionMap s = [2 \<mapsto> 0] \<and> pending s = [c] \<and> server_inv list_pool_used None s \<and>
    Worker packet_ops (code_onRecv packet_ops (PacketManager_Init empty_PacketManager))
      [\<lparr>wf_serverStop = False, wf_numOfResults = 1, wf_rioResults = [(Some c, 1)], wf_tick = 0\<rparr>]
      \<lparr>nowTick = 0, beforeTick = 0\<rparr> s = Some (Inl UncaughtException)"
proof -
  obtain s0 c where acc: "accepted_one {} s0 c"
    by (rule demo_accepted [of "{}"]) simp_all
  let ?s = "upd_session 0 (\<lambda>x. x\<lparr>recvRingBuffer := [119, 1, 0]\<rparr>) s0"
  have inv: "server_inv list_pool_used None ?s"
    by (rule upd_session_keeps(1) [of list_pool_used "[]" None s0 2 0])
      (use acc in \<open>simp_all add: accepted_one_def\<close>)
  have s: "sessionMapLock ?s = Unlocked" "ioType (contextAt ?s c) = OP_RECV"
    "sessionMap ?s (ownerSessionId (contextAt ?s c)) = Some 0" "\<not> ioCancle (heap ?s 0)"
    "sessionMap ?s = [2 \<mapsto> 0]" "pending ?s = [c]"
    using acc server_inv_lock [OF inv] by (simp_all add: accepted_one_def)
  have "packet_with_id coded_fields (coded_packet 0) 6" using coded_packet_id [of 0] by simp
  then have "Worker packet_ops (code_onRecv packet_ops (PacketManager_Init empty_PacketManager))
      [\<lparr>wf_serverStop = False, wf_numOfResults = 1, wf_rioResults = [(Some c, 1)], wf_tick = 0\<rparr>]
      \<lparr>nowTick = 0, beforeTick = 0\<rparr> ?s = Some (Inl UncaughtException)"
    by (intro registered_packet_ends_process [where flds = coded_fields and bytes = "\<lambda>r. r" and n = 1
        and f = "[119, 1, 0, 0]" and b = "coded_packet 0" and k = 6 and rs = "[]", OF _ _ _ s(1-4)])
      (simp_all add: packet_net_laws list_ring_laws coded_frame registered_iff, simp add: list_ring_def)
  with s inv show ?thesis by blast
qed

theorem HandlePacket_answers_witness:
  "\<exists>b s'. HandlePacket packet_ops 0 Ping demo_server = Inr ([], s') \<and> coded_fields b = [FUInt 7] \<and>
    sends_bytes (packet_bytes packet_net (encode_packet packet_net b)) 0 demo_server s' \<and>
    packet_bytes packet_net (encode_packet packet_net b) = [0, 0, 0]"
proof -
  obtain b where b: "marshal_packet packet_net Pong = Some b"
    by (rule marshal_packet_fields [OF packet_net_laws(2), of Pong])
      (simp add: net_fits_def GetPacketId_def packet_net_dfDEFAULTSIZE)
  then have "b = nb_put packet_net (FUInt (GetPacketId Pong)) (the (nb_Alloc packet_net))"
    by (auto simp: marshal_packet_def PacketToBuffer_def split: option.splits)
  then have bytes: "packet_bytes packet_net (encode_packet packet_net b) = [0, 0, 0]"
    by (simp add: packet_bytes_def packet_net_def plain_net_def encode_packet_def numeral_eq_Suc)
  have idle: "sendItem (heap demo_server 0) = resting"
    by (simp add: demo_server_def initial_server_def blank_session_def)
  obtain s' where "HandlePacket packet_ops 0 Ping demo_server = Inr ([], s')" "coded_fields b = [FUInt 7]"
    "sends_bytes (packet_bytes packet_net (encode_packet packet_net b)) 0 demo_server s'"
    using HandlePacket_answers [of packet_ops wire_size coded_fields "\<lambda>q. q" demo_server 0 Ping Pong b] b bytes
    by (auto simp: packet_net_laws list_queue_laws idle resting_def GetPacketId_def net_fits_def packet_net_dfDEFAULTSIZE)
  with bytes show ?thesis by blast
qed

end
