(* ===== verification/ProgramRuns.thy ===== *)
theory ProgramRuns
  imports Packets
begin

text \<open>
  The runs of the program as it is: a client is accepted, bytes arrive, a worker takes a completion. Nothing else
  in the program sends: the calls of SendPacket are in the packet handlers, in the Broadcaster, which nothing
  calls, and in the reply handlers of the database client, which \<open>main\<close> does not start. The relation
  \<open>server_step\<close> of Lifecycle has more steps: any thread may send or disconnect.
\<close>

section \<open>The steps of the program\<close>

inductive program_step ::
  "('r, 'q, 'p) server_ops \<Rightarrow> PacketManager \<Rightarrow> ('r, 'q, 'p) server \<Rightarrow> ('r, 'q, 'p) server \<Rightarrow> bool" for ops pm where
  accepted: "Accepter ops sock s = Inr s' \<Longrightarrow> program_step ops pm s s'"
| arrived: "program_step ops pm s (upd_session a (\<lambda>x. x\<lparr>recvRingBuffer := ring\<rparr>) s)"
| completed: "c \<in> set (pending s) \<Longrightarrow> process_result ops (code_onRecv ops pm) (Some c, n) s = Some (Inr s') \<Longrightarrow>
    program_step ops pm s s'"

abbreviation program_reach ::
  "('r, 'q, 'p) server_ops \<Rightarrow> PacketManager \<Rightarrow> ('r, 'q, 'p) server \<Rightarrow> ('r, 'q, 'p) server \<Rightarrow> bool" where
  "program_reach ops pm \<equiv> (program_step ops pm)\<^sup>*\<^sup>*"

section \<open>Operations that leave the contexts alone\<close>

definition same_contexts :: "('r, 'q, 'p) server \<Rightarrow> ('r, 'q, 'p) server \<Rightarrow> bool" where
  "same_contexts s s' \<longleftrightarrow> pending s' = pending s \<and> contextAt s' = contextAt s \<and> contextPool s' = contextPool s"

lemma same_contexts_refl [simp]: "same_contexts s s"
  by (simp add: same_contexts_def)

lemma same_contexts_trans: "same_contexts s s' \<Longrightarrow> same_contexts s' s'' \<Longrightarrow> same_contexts s s''"
  by (simp add: same_contexts_def)

lemma with_map_lock_same:
  assumes "with_map_lock exclusive body s = Inr (r, s')"
    and "\<And>l t. body (s\<lparr>sessionMapLock := l\<rparr>) = Inr (r, t) \<Longrightarrow> same_contexts s t"
  shows "same_contexts s s'"
  using assms by (fastforce simp: with_map_lock_def scoped_def outcome_simps same_contexts_def)

lemma GetSession_same: "GetSession k s = Inr (r, s') \<Longrightarrow> same_contexts s s'"
  unfolding GetSession_def by (erule with_map_lock_same) (auto simp: same_contexts_def)

lemma ReleaseSession_same: "ReleaseSession a s = Inr s' \<Longrightarrow> same_contexts s s'"
  by (auto simp: ReleaseSession_def OnSessionReleased_def with_map_lock_def scoped_def Let_def outcome_simps
      same_contexts_def split: if_splits)

lemma IOCountDecrement_same: "IOCountDecrement a s = Inr s' \<Longrightarrow> same_contexts s s'"
  by (auto simp: IOCountDecrement_def OnSessionLeaved_def Let_def same_contexts_def split: if_splits dest!: ReleaseSession_same)

lemma emplace_session_same: "emplace_session a s = Inr (r, s') \<Longrightarrow> same_contexts s s'"
  unfolding emplace_session_def
  by (erule with_map_lock_same)
    (auto simp: Let_def outcome_simps same_contexts_def split: option.splits dest!: IOCountDecrement_same)

section \<open>Only receives are pending\<close>

definition only_receives :: "('p \<Rightarrow> nat set) \<Rightarrow> ('r, 'q, 'p) server \<Rightarrow> bool" where
  "only_receives used s \<longleftrightarrow> distinct (pending s) \<and>
     (\<forall>c \<in> set (pending s). c \<in> used (contextPool s) \<and> ioType (contextAt s c) = OP_RECV)"

lemma same_contexts_only: "same_contexts s s' \<Longrightarrow> only_receives used s \<Longrightarrow> only_receives used s'"
  by (simp add: same_contexts_def only_receives_def)

lemma RecvPost_only:
  assumes pool: "pool_laws (so_pool ops) used" and only: "only_receives used s" and post: "RecvPost ops a s = (r, s')"
  shows "only_receives used s' \<and> used (contextPool s) - set (pending s) \<subseteq> used (contextPool s') - set (pending s')"
  using post
proof (cases rule: RecvPostE)
  case (1 c pool ctx)
  have c: "c \<notin> used (contextPool s)" "used pool = insert c (used (contextPool s))"
    using pool_laws_Alloc [OF assms(1), of "contextPool s" c pool] 1(1) by simp_all
  with only have "c \<notin> set (pending s)" by (auto simp: only_receives_def)
  with c only 1(3) show ?thesis
    unfolding 1(5) by (auto simp: only_receives_def)
qed

lemma free_context_only:
  assumes "pool_laws (so_pool ops) used" and "only_receives used s" and "c \<notin> set (pending s)"
  shows "only_receives used (free_context ops c s)"
  using assms pool_laws_Free [OF assms(1)] by (auto simp: only_receives_def free_context_def)

text \<open>The dispatch returns only when it has done nothing.\<close>

lemma code_onRecv_idle: "code_onRecv ops pm a b s = Inr s' \<Longrightarrow> s' = s"
  by (auto simp: code_onRecv_def OnRecvPacket_def packet_handler_def Let_def split: prod.splits option.splits)

lemma RecvCompleted_only:
  assumes pool: "pool_laws (so_pool ops) used" and only: "only_receives used s"
    and run: "RecvCompleted ops (code_onRecv ops pm) a n s = Some (Inr (r, s'))"
  shows "only_receives used s' \<and> used (contextPool s) - set (pending s) \<subseteq> used (contextPool s') - set (pending s') \<and>
    r \<in> {SUCCESS, FAILED_RECV_POST}"
proof -
  let ?ring = "rb_MoveWritePos (so_ring ops) (uint n) (recvRingBuffer (heap s a))"
  obtain ring err s1 where loop: "recv_loop (so_net ops) (so_ring ops) (code_onRecv ops pm a) ?ring
      (rb_GetUseSize (so_ring ops) ?ring) s = Some (Inr (ring, err, s1))"
    using run by (auto simp: RecvCompleted_def Let_def outcome_simps)
  have s1: "s1 = s"
    by (rule recv_loop_keeps [OF loop, where P = "\<lambda>w. w = s"]) (auto dest: code_onRecv_idle)
  let ?s = "upd_session a (\<lambda>x. x\<lparr>recvRingBuffer := ring, rioRecvOffset := rioRecvOffset x + n\<rparr>) s"
  obtain q s2 where post: "RecvPost ops a ?s = (q, s2)" by fastforce
  have "only_receives used ?s" using only by (simp add: only_receives_def)
  from RecvPost_only [OF pool this post] have s2: "only_receives used s2"
    "used (contextPool s) - set (pending s) \<subseteq> used (contextPool s2) - set (pending s2)" by simp_all
  have "q \<in> {SUCCESS, FAILED_RECV_POST}" by (rule RecvPostE [OF post]) auto
  moreover have "r = q \<and> same_contexts s2 s'"
    using run RecvCompleted_after_loop [where onRecv = "code_onRecv ops pm", OF loop] post
    by (cases err) (auto simp: s1 outcome_simps dest: ReleaseSession_same)
  ultimately show ?thesis
    using s2 same_contexts_only [of s2 s' used] by (simp add: same_contexts_def)
qed

lemma process_result_only:
  assumes pool: "pool_laws (so_pool ops) used" and only: "only_receives used s" and c: "c \<in> set (pending s)"
    and run: "process_result ops (code_onRecv ops pm) (Some c, n) s = Some (Inr s')"
  shows "only_receives used s'"
proof -
  let ?t = "take_completion c s"
  have t: "only_receives used ?t" and out: "c \<in> used (contextPool ?t) - set (pending ?t)" and op: "ioType (contextAt ?t c) = OP_RECV"
    using only c by (auto simp: only_receives_def dest: set_remove1_subset [THEN subsetD])
  obtain found s1 where get: "GetIOCompletedContext ops (Some c) n ?t = Inr (found, s1)"
    and rest: "(case found of None \<Rightarrow> Some (Inr s1) | Some (c, a) \<Rightarrow>
      rbind (IOCompleted ops (code_onRecv ops pm) c n a s1) (\<lambda>(result, s).
        if result = INVALID_OPERATION_TYPE then Some (Inr s)
        else (let s = free_context ops c s
              in if result = IS_DELETED_SESSION then Some (Inr s) else Some (IOCountDecrement a s)))) = Some (Inr s')"
    using run unfolding process_result_def Let_def fst_conv snd_conv option.case
    by (cases "GetIOCompletedContext ops (Some c) n ?t") auto
  show ?thesis
  proof (cases found)
    case None
    with rest have "s' = s1" by simp
    have "only_receives used (free_context ops c u)" if "same_contexts ?t u" for u
      using free_context_only [OF pool same_contexts_only [OF that t]] that out by (simp add: same_contexts_def)
    with get None \<open>s' = s1\<close> show ?thesis
      by (auto simp: GetIOCompletedContext_def outcome_simps split: option.splits if_splits
          dest!: GetSession_same IOCountDecrement_same intro: same_contexts_only)
  next
    case (Some ca)
    then obtain a where ca: "found = Some (c, a)" and same: "same_contexts ?t s1"
      using get by (auto simp: GetIOCompletedContext_def outcome_simps split: option.splits if_splits dest!: GetSession_same)
    have s1: "only_receives used s1" "c \<in> used (contextPool s1) - set (pending s1)" "ioType (contextAt s1 c) = OP_RECV"
      using same_contexts_only [OF same t] same out op by (simp_all add: same_contexts_def)
    obtain r s2 where io: "RecvCompleted ops (code_onRecv ops pm) a n s1 = Some (Inr (r, s2))"
      and fin: "IOCountDecrement a (free_context ops c s2) = Inr s' \<or> r \<notin> {SUCCESS, FAILED_RECV_POST}"
      using rest s1(3) by (auto simp: ca IOCompleted_def RecvIOCompleted_def outcome_simps Let_def split: if_splits)
    note R = RecvCompleted_only [OF pool s1(1) io]
    with fin have dec: "same_contexts (free_context ops c s2) s'" using IOCountDecrement_same by blast
    from R s1(2) have "c \<notin> set (pending s2)" by auto
    with R free_context_only [OF pool] same_contexts_only [OF dec] show ?thesis by blast
  qed
qed

lemma MakeNewSession_only:
  assumes pool: "pool_laws (so_pool ops) used" and only: "only_receives used s"
    and run: "MakeNewSession ops sock s = Inr (made, s')"
  shows "only_receives used s'"
proof -
  obtain found s1 where new: "GetNewSession ops sock (GetMinimumSessionThreadId s) s = (found, s1)" by fastforce
  then have s1: "same_contexts s s1" by (auto simp: GetNewSession_def Let_def same_contexts_def split: if_splits)
  show ?thesis
  proof (cases found)
    case None
    with run new same_contexts_only [OF s1 only] show ?thesis by (simp add: MakeNewSession_def Let_def)
  next
    case (Some a)
    let ?s1 = "upd_session a (\<lambda>x. x\<lparr>ioCount := ioCount x + 1\<rparr>) s1"
    let ?t = "unat (GetMinimumSessionThreadId s)"
    obtain ok s2 where init: "InitSession ops a ?s1 = (ok, s2)" by fastforce
    then have s2: "same_contexts s s2" using s1 InitSession_frame [OF init] by (simp add: same_contexts_def)
    let ?s3 = "s2\<lparr>numOfSessionInWorkerThread := (numOfSessionInWorkerThread s2)[?t := numOfSessionInWorkerThread s2 ! ?t + 1]\<rparr>"
    show ?thesis
    proof (cases ok)
      case False
      with run new Some init same_contexts_only [OF s2 only] show ?thesis
        by (simp add: MakeNewSession_def Let_def split: if_splits)
    next
      case True
      with run new Some init obtain emplaced s4 where emp: "emplace_session a ?s3 = Inr (emplaced, s4)"
        and rest: "(if emplaced then start_session ops a s4 else obind (ReleaseSession a s4) (\<lambda>s. Inr (False, s))) = Inr (made, s')"
        by (auto simp: MakeNewSession_def Let_def outcome_simps split: if_splits)
      have "same_contexts s ?s3" using s2 by (simp add: same_contexts_def)
      from same_contexts_trans [OF this emplace_session_same [OF emp]] have s4: "only_receives used s4"
        using same_contexts_only [OF _ only] by blast
      show ?thesis
      proof (cases emplaced)
        case False
        with rest show ?thesis by (auto simp: outcome_simps dest!: ReleaseSession_same intro: same_contexts_only [OF _ s4])
      next
        case True
        obtain r s5 where post: "RecvPost ops a s4 = (r, s5)" by fastforce
        from RecvPost_only [OF pool s4 post] have s5: "only_receives used s5" by blast
        from rest True post obtain s6 where "IOCountDecrement a s5 = Inr s6" "s' = OnSessionEntered (sessionId (heap s6 a)) s6"
          by (auto simp: start_session_def outcome_simps Let_def)
        then have "same_contexts s5 s'" by (auto dest!: IOCountDecrement_same simp: same_contexts_def OnSessionEntered_def)
        with s5 show ?thesis using same_contexts_only by blast
      qed
    qed
  qed
qed

lemma Accepter_only:
  assumes "pool_laws (so_pool ops) used" and "only_receives used s" and "Accepter ops sock s = Inr s'"
  shows "only_receives used s'"
proof -
  obtain made s1 where made: "MakeNewSession ops sock s = Inr (made, s1)" and "same_contexts s1 s'"
    using assms(3) by (auto simp: Accepter_def outcome_simps same_contexts_def split: if_splits)
  with MakeNewSession_only [OF assms(1,2) made] show ?thesis using same_contexts_only by blast
qed

lemma program_step_only:
  assumes pool: "pool_laws (so_pool ops) used"
  shows "program_step ops pm s s' \<Longrightarrow> only_receives used s \<Longrightarrow> only_receives used s'"
proof (induction rule: program_step.induct)
  case (accepted sock s s')
  then show ?case using Accepter_only [OF pool] by blast
next
  case (arrived s a ring)
  then show ?case by (simp add: only_receives_def)
next
  case (completed c s n s')
  then show ?case using process_result_only [OF pool] by blast
qed

text \<open>
  C9: The server never sends a byte: in no state that the program reaches is a send outstanding, whatever its clients
  do and whichever classes its packet manager has. A completion returns only when the dispatch has
  dropped every packet, so no handler has ever run; all it ever posts are receives.
\<close>

theorem program_never_sends:
  assumes pool: "pool_laws (so_pool ops) used"
    and run: "program_reach ops pm (initial_server h p cs n maxClients) s" and c: "c \<in> set (pending s)"
  shows "ioType (contextAt s c) = OP_RECV"
proof -
  have "only_receives used (initial_server h p cs n maxClients)" by (simp add: only_receives_def initial_server_def)
  with run have "only_receives used s"
    by (induction rule: rtranclp_induct) (use program_step_only [OF pool] in blast)+
  with c show ?thesis by (simp add: only_receives_def)
qed

theorem program_never_sends_witness:
  "\<exists>s c. program_reach (demo_ops {}) (PacketManager_Init empty_PacketManager) demo_server s \<and> pending s = [c] \<and>
    ioType (contextAt s c) = OP_RECV"
proof -
  obtain s c where acc: "accepted_one {} s c"
    by (rule demo_accepted [of "{}"]) simp_all
  then have run: "program_reach (demo_ops {}) (PacketManager_Init empty_PacketManager) demo_server s" and c: "pending s = [c]"
    using program_step.accepted [of "demo_ops {}" 5 demo_server s] by (auto simp: accepted_one_def)
  from program_never_sends [OF _ run [unfolded demo_server_def], of list_pool_used c] c run show ?thesis
    by (auto simp: list_pool_laws)
qed

end
