(* ===== verification/LanClient.thy ===== *)
theory LanClient
  imports Framing
begin

text \<open>
  CMultiLanClient, the client side of the connections to the database server: a few sessions
  (channels), each with a receive ring, a queue of packets and a reference count of its
  outstanding requests, worker threads on a completion port and a thread that reconnects
  released sessions.

  Buffers of CSerializationBuf are passed by pointer here, so they live in an explicit store:
  \<open>bufs\<close> maps the address of every buffer that is alive to its contents. To use a pointer to
  anything else has no meaning in C++. The virtual functions of the class are those of DBClient;
  all but OnRecv are empty.
\<close>

section \<open>The libraries and the system\<close>

type_synonym CSerializationBuf = NetBuffer

record lan_buf_ops =
  lb_Alloc :: CSerializationBuf
  lb_get_WORD :: "CSerializationBuf \<Rightarrow> u16 \<times> CSerializationBuf"
  lb_put_WORD :: "u16 \<Rightarrow> CSerializationBuf \<Rightarrow> CSerializationBuf"
  lb_put :: "wire_value \<Rightarrow> CSerializationBuf \<Rightarrow> CSerializationBuf"
  lb_get :: "wire_type \<Rightarrow> CSerializationBuf \<Rightarrow> wire_value \<times> CSerializationBuf"
  lb_GetUseSize :: "CSerializationBuf \<Rightarrow> int"
  lb_GetAllUseSize :: "CSerializationBuf \<Rightarrow> int"
  lb_GetBufferPtr :: "CSerializationBuf \<Rightarrow> u8 list"
  lb_GetReadBufferPtr :: "CSerializationBuf \<Rightarrow> u8 list"
  lb_MoveWritePos :: "int \<Rightarrow> CSerializationBuf \<Rightarrow> CSerializationBuf"
  HEADER_SIZE :: nat

text \<open>
  What WSARecv and WSASend answer: accepted (also when pending), out of buffers, or another
  error.
\<close>

datatype lan_answer = LanAccepted | LanNoBuffers | LanRefused

record ('r, 'q) lan_ops =
  lo_buf :: lan_buf_ops
  lo_ring :: "'r ring_ops"
  lo_empty_ring :: 'r
  lo_queue :: "(nat, 'q) queue_ops"
  lo_empty_queue :: 'q
  lan_answer :: "nat \<Rightarrow> lan_answer"
  lan_socket :: "nat \<Rightarrow> u64"

section \<open>MultiLanClient.h\<close>

definition NONSENDING :: u32 where "NONSENDING = 0"
definition SENDING :: u32 where "SENDING = 1"

definition POST_RETVAL_ERR_SESSION_DELETED :: int where "POST_RETVAL_ERR_SESSION_DELETED = 0"
definition POST_RETVAL_ERR :: int where "POST_RETVAL_ERR = 1"
definition POST_RETVAL_COMPLETE :: int where "POST_RETVAL_COMPLETE = 2"

definition IOCP_ONE_SEND_WSABUF_MAX :: int where "IOCP_ONE_SEND_WSABUF_MAX = 200"

definition LAN_INVALID_SOCKET :: u64 where "LAN_INVALID_SOCKET = - 1"

lemmas lan_consts = NONSENDING_def SENDING_def POST_RETVAL_ERR_SESSION_DELETED_def POST_RETVAL_ERR_def
  POST_RETVAL_COMPLETE_def IOCP_ONE_SEND_WSABUF_MAX_def

text \<open>A session; an entry of the store of sent buffers is \<open>None\<close> before its first assignment.\<close>

record ('r, 'q) lan_session =
  bIsConnect :: bool
  m_IOCount :: u32
  m_SessionId :: u64
  RingBuffer :: 'r
  lBufferCount :: int
  IOMode :: u32
  SendQ :: 'q
  m_sock :: u64
  pSeirializeBufStore :: "nat option list"

text \<open>A completion: the bytes transferred, the index in \<open>sessionList\<close> of the key, the operation.\<close>

datatype lan_overlapped = RecvOverlapped nat | SendOverlapped nat | OtherOverlapped

type_synonym completion = "u32 \<times> nat option \<times> lan_overlapped option"

text \<open>
  \<open>sessionList\<close> holds the addresses of the sessions in \<open>lanHeap\<close>; \<open>port\<close> are the completions
  that nobody has dequeued yet. The last fields record the calls to the system.
\<close>

record ('r, 'q) lan_client =
  m_byNumOfWorkerThread :: u8
  m_byNumOfUsingWorkerThread :: u8
  m_bIsNagleOn :: bool
  m_bIsReconnect :: bool
  m_numOfReconnect :: u32
  m_byNumOfSession :: u8
  m_sessionIdGenerator :: u64
  m_channelSelector :: u64
  lanHeap :: "nat \<Rightarrow> ('r, 'q) lan_session"
  sessionList :: "nat list"
  sessionReconnectIdList :: "u64 list"
  stopClient :: bool
  bufs :: "nat \<rightharpoonup> CSerializationBuf"
  nextBuf :: nat
  port :: "completion list"
  lanCalls :: nat
  lanClosed :: "u64 list"
  wsaSent :: "(nat \<times> u8 list list) list"
  wsaRecvs :: "(nat \<times> int list) list"

abbreviation upd_lan ::
  "nat \<Rightarrow> (('r, 'q) lan_session \<Rightarrow> ('r, 'q) lan_session) \<Rightarrow> ('r, 'q) lan_client \<Rightarrow> ('r, 'q) lan_client" where
  "upd_lan a f c \<equiv> c\<lparr>lanHeap := (lanHeap c)(a := f (lanHeap c a))\<rparr>"

section \<open>Buffers\<close>

definition new_buf :: "CSerializationBuf \<Rightarrow> ('r, 'q) lan_client \<Rightarrow> nat \<times> ('r, 'q) lan_client" where
  "new_buf b c = (nextBuf c, c\<lparr>bufs := (bufs c)(nextBuf c \<mapsto> b), nextBuf := nextBuf c + 1\<rparr>)"

definition free_buf :: "nat option \<Rightarrow> ('r, 'q) lan_client \<Rightarrow> ('r, 'q) lan_client outcome" where
  "free_buf p c =
     (case p of
        None \<Rightarrow> Inl UndefinedBehaviour
      | Some a \<Rightarrow> if bufs c a = None then Inl UndefinedBehaviour else Inr (c\<lparr>bufs := (bufs c)(a := None)\<rparr>))"

fun free_bufs :: "nat option list \<Rightarrow> ('r, 'q) lan_client \<Rightarrow> ('r, 'q) lan_client outcome" where
  "free_bufs [] c = Inr c"
| "free_bufs (p # ps) c = obind (free_buf p c) (free_bufs ps)"

section \<open>Releasing a session\<close>

text \<open>The loop over the packets left in the queue; \<open>DeleteBuf\<close> is not assigned by an empty queue.\<close>

fun free_queue ::
  "('r, 'q) lan_ops \<Rightarrow> nat \<Rightarrow> nat \<Rightarrow> nat option \<Rightarrow> ('r, 'q) lan_client \<Rightarrow> ('r, 'q) lan_client outcome" where
  "free_queue ops 0 a DeleteBuf c = Inr c"
| "free_queue ops (Suc n) a DeleteBuf c =
     (case q_Dequeue (lo_queue ops) (SendQ (lanHeap c a)) of (p, q) \<Rightarrow>
        let DeleteBuf = (case p of None \<Rightarrow> DeleteBuf | Some b \<Rightarrow> Some b);
            c = upd_lan a (\<lambda>x. x\<lparr>SendQ := q\<rparr>) c
        in obind (free_buf DeleteBuf c) (free_queue ops n a DeleteBuf))"

text \<open>The end of ReleaseSession: the socket is closed and the session queued for Reconnecter.\<close>

definition Lan_close :: "nat \<Rightarrow> ('r, 'q) lan_client \<Rightarrow> ('r, 'q) lan_client" where
  "Lan_close a c =
     (let c = c\<lparr>lanClosed := lanClosed c @ [m_sock (lanHeap c a)]\<rparr>
      in if \<not> m_bIsReconnect c then c
         else
           (let c = upd_lan a (\<lambda>x. x\<lparr>m_sock := LAN_INVALID_SOCKET\<rparr>) c
            in c\<lparr>sessionReconnectIdList := sessionReconnectIdList c @ [m_SessionId (lanHeap c a)]\<rparr>))"

definition Lan_ReleaseSession ::
  "('r, 'q) lan_ops \<Rightarrow> nat \<Rightarrow> ('r, 'q) lan_client \<Rightarrow> ('r, 'q) lan_client outcome" where
  "Lan_ReleaseSession ops a c =
     (let c = upd_lan a (\<lambda>x. x\<lparr>bIsConnect := False\<rparr>) c;
          SendBufferRestSize = lBufferCount (lanHeap c a);
          Rest = q_GetRestSize (lo_queue ops) (SendQ (lanHeap c a))
      in obind (free_bufs (take (nat SendBufferRestSize) (pSeirializeBufStore (lanHeap c a))) c) (\<lambda>c.
           obind (if Rest > 0 then free_queue ops (nat Rest) a None c else Inr c) (\<lambda>c.
             Inr (Lan_close a c))))"

text \<open>\<open>InterlockedDecrement(&m_IOCount) == 0\<close> followed by ReleaseSession, with the answer of the test.\<close>

definition Lan_IOCount_down ::
  "('r, 'q) lan_ops \<Rightarrow> nat \<Rightarrow> ('r, 'q) lan_client \<Rightarrow> (bool \<times> ('r, 'q) lan_client) outcome" where
  "Lan_IOCount_down ops a c =
     (let c = upd_lan a (\<lambda>x. x\<lparr>m_IOCount := m_IOCount x - 1\<rparr>) c
      in if m_IOCount (lanHeap c a) = 0
         then obind (Lan_ReleaseSession ops a c) (\<lambda>c. Inr (True, c))
         else Inr (False, c))"

section \<open>RecvPost\<close>

text \<open>The lengths of the one or two WSABUFs.\<close>

definition recv_wsabufs :: "'r ring_ops \<Rightarrow> 'r \<Rightarrow> int list" where
  "recv_wsabufs ro ring =
     (let BrokenSize = rb_GetNotBrokenPutSize ro ring;
          RestSize = rb_GetFreeSize ro ring - BrokenSize
      in if RestSize > 0 then [BrokenSize, RestSize] else [BrokenSize])"

definition Lan_RecvPost ::
  "('r, 'q) lan_ops \<Rightarrow> nat \<Rightarrow> ('r, 'q) lan_client \<Rightarrow> (int \<times> ('r, 'q) lan_client) outcome" where
  "Lan_RecvPost ops a c =
     (if rb_IsFull (lo_ring ops) (RingBuffer (lanHeap c a)) then
        obind (Lan_IOCount_down ops a c) (\<lambda>(released, c).
          Inr (if released then POST_RETVAL_ERR_SESSION_DELETED else POST_RETVAL_ERR, c))
      else
        (let wsaBuf = recv_wsabufs (lo_ring ops) (RingBuffer (lanHeap c a));
             c = upd_lan a (\<lambda>x. x\<lparr>m_IOCount := m_IOCount x + 1\<rparr>) c;
             answer = lan_answer ops (lanCalls c);
             c = c\<lparr>lanCalls := lanCalls c + 1, wsaRecvs := wsaRecvs c @ [(a, wsaBuf)]\<rparr>
         in if answer = LanAccepted then Inr (POST_RETVAL_COMPLETE, c)
            else
              obind (Lan_IOCount_down ops a c) (\<lambda>(released, c).
                Inr (if released then POST_RETVAL_ERR_SESSION_DELETED else POST_RETVAL_ERR, c))))"

section \<open>SendPost\<close>

text \<open>The loop that dequeues the packets of one WSASend and fills \<open>wsaSendBuf\<close>.\<close>

fun take_batch ::
  "lan_buf_ops \<Rightarrow> (nat, 'q) queue_ops \<Rightarrow> (nat \<rightharpoonup> CSerializationBuf) \<Rightarrow> nat \<Rightarrow> nat \<Rightarrow> 'q \<Rightarrow> nat option list \<Rightarrow>
   (u8 list list \<times> 'q \<times> nat option list) outcome" where
  "take_batch lb qo mem 0 i q store = Inr ([], q, store)"
| "take_batch lb qo mem (Suc n) i q store =
     (case q_Dequeue qo q of (p, q) \<Rightarrow>
        let store = (case p of None \<Rightarrow> store | Some b \<Rightarrow> store[i := Some b])
        in case store ! i of
             None \<Rightarrow> Inl UndefinedBehaviour
           | Some b \<Rightarrow>
               (case mem b of
                  None \<Rightarrow> Inl UndefinedBehaviour
                | Some buf \<Rightarrow>
                    obind (take_batch lb qo mem n (i + 1) q store) (\<lambda>(wsaSendBuf, q, store).
                      Inr (take (nat (lb_GetAllUseSize lb buf)) (lb_GetBufferPtr lb buf) # wsaSendBuf, q, store))))"

definition Lan_SendPost_send ::
  "('r, 'q) lan_ops \<Rightarrow> nat \<Rightarrow> int \<Rightarrow> ('r, 'q) lan_client \<Rightarrow> (lan_answer \<times> ('r, 'q) lan_client) outcome" where
  "Lan_SendPost_send ops a UseSize c =
     (let UseSize = (if IOCP_ONE_SEND_WSABUF_MAX < UseSize then IOCP_ONE_SEND_WSABUF_MAX else UseSize)
      in obind (take_batch (lo_buf ops) (lo_queue ops) (bufs c) (nat UseSize) 0 (SendQ (lanHeap c a))
             (pSeirializeBufStore (lanHeap c a))) (\<lambda>(wsaSendBuf, q, store).
           let c = upd_lan a (\<lambda>x. x\<lparr>SendQ := q, pSeirializeBufStore := store\<rparr>) c;
               c = upd_lan a (\<lambda>x. x\<lparr>lBufferCount := UseSize\<rparr>) c;
               c = upd_lan a (\<lambda>x. x\<lparr>m_IOCount := m_IOCount x + 1\<rparr>) c;
               answer = lan_answer ops (lanCalls c);
               c = c\<lparr>lanCalls := lanCalls c + 1, wsaSent :=
                 (if answer = LanAccepted then wsaSent c @ [(a, wsaSendBuf)] else wsaSent c)\<rparr>
           in Inr (answer, c)))"

lemma Lan_SendPost_send_IOMode:
  "Lan_SendPost_send ops a n c = Inr (r, c') \<Longrightarrow> IOMode (lanHeap c' a) = IOMode (lanHeap c a)"
  by (auto simp: Lan_SendPost_send_def outcome_simps Let_def)

function Lan_SendPost ::
  "('r, 'q) lan_ops \<Rightarrow> nat \<Rightarrow> ('r, 'q) lan_client \<Rightarrow> (int \<times> ('r, 'q) lan_client) outcome" where
  "Lan_SendPost ops a c =
     (if IOMode (lanHeap c a) \<noteq> NONSENDING then Inr (POST_RETVAL_COMPLETE, c)
      else
        (let c = upd_lan a (\<lambda>x. x\<lparr>IOMode := SENDING\<rparr>) c;
             UseSize = q_GetRestSize (lo_queue ops) (SendQ (lanHeap c a))
         in if UseSize = 0 then
              (let c = upd_lan a (\<lambda>x. x\<lparr>IOMode := NONSENDING\<rparr>) c
               in if q_GetRestSize (lo_queue ops) (SendQ (lanHeap c a)) > 0 then Lan_SendPost ops a c
                  else Inr (POST_RETVAL_COMPLETE, c))
            else if UseSize < 0 then
              obind (Lan_IOCount_down ops a c) (\<lambda>(released, c).
                if released then Inr (POST_RETVAL_ERR_SESSION_DELETED, c)
                else Inr (POST_RETVAL_ERR, upd_lan a (\<lambda>x. x\<lparr>IOMode := NONSENDING\<rparr>) c))
            else
              obind (Lan_SendPost_send ops a UseSize c) (\<lambda>(answer, c).
                case answer of
                  LanAccepted \<Rightarrow> Lan_SendPost ops a c
                | LanNoBuffers \<Rightarrow> Inl Crash
                | LanRefused \<Rightarrow>
                    obind (Lan_IOCount_down ops a c) (\<lambda>(released, c).
                      Inr (if released then POST_RETVAL_ERR_SESSION_DELETED else POST_RETVAL_ERR, c)))))"
  by pat_completeness auto
termination
  by (relation "measure (\<lambda>(ops, a, c). if IOMode (lanHeap c a) = NONSENDING then 1 else 0)")
    (auto simp: lan_consts dest: Lan_SendPost_send_IOMode)

declare Lan_SendPost.simps [simp del]

section \<open>Sending on a channel\<close>

definition GetChannelId :: "('r, 'q) lan_client \<Rightarrow> (u64 \<times> ('r, 'q) lan_client) outcome" where
  "GetChannelId c =
     (let c = c\<lparr>m_channelSelector := m_channelSelector c + 1\<rparr>
      in if m_byNumOfWorkerThread c = 0 then Inl UndefinedBehaviour
         else Inr (m_channelSelector c mod ucast (m_byNumOfWorkerThread c), c))"

definition GetFixedChannelId :: "u64 \<Rightarrow> ('r, 'q) lan_client \<Rightarrow> u64 outcome" where
  "GetFixedChannelId fixedId c =
     (if m_byNumOfUsingWorkerThread c = 0 then Inl UndefinedBehaviour
      else Inr (fixedId mod ucast (m_byNumOfUsingWorkerThread c)))"

text \<open>The header of a packet in front of what was written to its buffer.\<close>

definition lan_header :: "lan_buf_ops \<Rightarrow> CSerializationBuf \<Rightarrow> CSerializationBuf" where
  "lan_header lb buf =
     (let PayloadSize = word_of_int (lb_GetUseSize lb buf)
      in lb_put_WORD lb PayloadSize (buf\<lparr>m_iWriteLast := m_iWrite buf, m_iWrite := 0, m_iRead := 0\<rparr>))"

definition Lan_SendPacketImpl ::
  "('r, 'q) lan_ops \<Rightarrow> nat option \<Rightarrow> u64 \<Rightarrow> ('r, 'q) lan_client \<Rightarrow> (bool \<times> ('r, 'q) lan_client) outcome" where
  "Lan_SendPacketImpl ops pSerializeBuf channelId c =
     (case pSerializeBuf of
        None \<Rightarrow> Inr (False, c)
      | Some b \<Rightarrow>
          (case bufs c b of
             None \<Rightarrow> Inl UndefinedBehaviour
           | Some buf \<Rightarrow>
               (let c = c\<lparr>bufs := (bufs c)(b \<mapsto> lan_header (lo_buf ops) buf)\<rparr>
                in if \<not> unat channelId < length (sessionList c) then Inl UndefinedBehaviour
                   else
                     (let a = sessionList c ! unat channelId;
                          c = upd_lan a (\<lambda>x. x\<lparr>SendQ := q_Enqueue (lo_queue ops) b (SendQ x)\<rparr>) c
                      in obind (Lan_SendPost ops a c) (\<lambda>(_, c). Inr (True, c))))))"

definition Lan_SendPacket ::
  "('r, 'q) lan_ops \<Rightarrow> nat option \<Rightarrow> ('r, 'q) lan_client \<Rightarrow> (bool \<times> ('r, 'q) lan_client) outcome" where
  "Lan_SendPacket ops pSerializeBuf c =
     obind (GetChannelId c) (\<lambda>(channelId, c). Lan_SendPacketImpl ops pSerializeBuf channelId c)"

definition Lan_SendPacket_fixed ::
  "('r, 'q) lan_ops \<Rightarrow> nat option \<Rightarrow> u64 \<Rightarrow> ('r, 'q) lan_client \<Rightarrow> (bool \<times> ('r, 'q) lan_client) outcome" where
  "Lan_SendPacket_fixed ops pSerializeBuf fixedId c =
     obind (GetFixedChannelId fixedId c) (\<lambda>channelId. Lan_SendPacketImpl ops pSerializeBuf channelId c)"

section \<open>Worker threads\<close>

text \<open>The buffer of a received packet when its header has been peeked to its start.\<close>

definition lan_with_header :: "lan_buf_ops \<Rightarrow> u8 list \<Rightarrow> CSerializationBuf outcome" where
  "lan_with_header lb header =
     (let buffer = (lb_Alloc lb)\<lparr>m_iRead := 0\<rparr>
      in obind (mem_put 0 header (m_pSerializeBuffer buffer)) (\<lambda>mem.
           Inr (buffer\<lparr>m_pSerializeBuffer := mem\<rparr>)))"

text \<open>
  The loop that cuts received bytes into packets. The buffer of a packet is allocated and freed
  in the same round, so it is a value here. \<open>w\<close> is what OnRecv works on.
\<close>

partial_function (option) lan_recv_loop ::
  "lan_buf_ops \<Rightarrow> 'r ring_ops \<Rightarrow> (CSerializationBuf \<Rightarrow> 'w \<Rightarrow> 'w outcome) \<Rightarrow> 'r \<Rightarrow> int \<Rightarrow> 'w \<Rightarrow>
   (('r \<times> 'w) outcome) option" where
  "lan_recv_loop lb ro onRecv ring RingBufferRestSize w =
     (if RingBufferRestSize > int (HEADER_SIZE lb) then
        (let header = rb_Peek ro (int (HEADER_SIZE lb)) ring
         in case lan_with_header lb header of
              Inl e \<Rightarrow> Some (Inl e)
            | Inr buffer \<Rightarrow>
                if length header < HEADER_SIZE lb then Some (Inr (ring, w))
                else
                  (case lb_get_WORD lb buffer of (PayloadLength, buffer) \<Rightarrow>
                     if rb_GetUseSize ro ring < uint PayloadLength + int (HEADER_SIZE lb) then Some (Inr (ring, w))
                     else
                       (let ring = rb_RemoveData ro (int (length header)) ring;
                            (payload, ring) = rb_Dequeue ro (uint PayloadLength) ring
                        in case append_payload buffer payload of
                             Inl e \<Rightarrow> Some (Inl e)
                           | Inr buffer \<Rightarrow>
                               (case onRecv buffer w of
                                  Inl e \<Rightarrow> Some (Inl e)
                                | Inr w \<Rightarrow> lan_recv_loop lb ro onRecv ring
                                    (RingBufferRestSize - (int (length payload) + 2)) w))))
      else Some (Inr (ring, w)))"

text \<open>
  The parts of Worker for a receive and for a send. The first component of the result is
  \<open>None\<close> where the part ends the round with \<open>continue\<close>, else \<open>cPostRetval\<close>.
\<close>

definition Lan_recv_part ::
  "('r, 'q) lan_ops \<Rightarrow> (CSerializationBuf \<Rightarrow> 'w \<Rightarrow> 'w outcome) \<Rightarrow> u32 \<Rightarrow> nat \<Rightarrow> ('r, 'q) lan_client \<Rightarrow> 'w \<Rightarrow>
   (int option \<times> ('r, 'q) lan_client \<times> 'w) outcome option" where
  "Lan_recv_part ops onRecv Transferred a c w =
     (if Transferred = 0 then
        Some (obind (Lan_IOCount_down ops a c) (\<lambda>(_, c). Inr (None, c, w)))
      else
        (let ring = rb_MoveWritePos (lo_ring ops) (uint Transferred) (RingBuffer (lanHeap c a))
         in rbind (lan_recv_loop (lo_buf ops) (lo_ring ops) onRecv ring (rb_GetUseSize (lo_ring ops) ring) w)
              (\<lambda>(ring, w).
                 Some (obind (Lan_RecvPost ops a (upd_lan a (\<lambda>x. x\<lparr>RingBuffer := ring\<rparr>) c)) (\<lambda>(ret, c).
                   Inr (Some ret, c, w))))))"

definition Lan_send_part ::
  "('r, 'q) lan_ops \<Rightarrow> nat \<Rightarrow> ('r, 'q) lan_client \<Rightarrow> (int \<times> ('r, 'q) lan_client) outcome" where
  "Lan_send_part ops a c =
     (let BufferCount = lBufferCount (lanHeap c a)
      in obind (free_bufs (take (nat BufferCount) (pSeirializeBufStore (lanHeap c a))) c) (\<lambda>c.
           let c = upd_lan a (\<lambda>x. x\<lparr>lBufferCount := lBufferCount x - BufferCount\<rparr>) c;
               c = upd_lan a (\<lambda>x. x\<lparr>IOMode := NONSENDING\<rparr>) c
           in Lan_SendPost ops a c))"

text \<open>
  One round of Worker with the completion that GetQueuedCompletionStatus returned; the answer is
  whether the worker goes on.
\<close>

definition Lan_Worker ::
  "('r, 'q) lan_ops \<Rightarrow> (CSerializationBuf \<Rightarrow> 'w \<Rightarrow> 'w outcome) \<Rightarrow> completion \<Rightarrow> ('r, 'q) lan_client \<Rightarrow> 'w \<Rightarrow>
   (bool \<times> ('r, 'q) lan_client \<times> 'w) outcome option" where
  "Lan_Worker ops onRecv result c w =
     (case result of (Transferred, pSession, lpOverlapped) \<Rightarrow>
        case lpOverlapped of
          None \<Rightarrow> Some (Inl Crash)
        | Some overlapped \<Rightarrow>
            (case pSession of
               None \<Rightarrow> Some (Inr (False, c\<lparr>port := port c @ [(0, None, None)]\<rparr>, w))
             | Some k \<Rightarrow>
                 if \<not> k < length (sessionList c) then Some (Inl UndefinedBehaviour)
                 else
                   (let a = sessionList c ! k
                    in rbind
                         (if overlapped = RecvOverlapped a then Lan_recv_part ops onRecv Transferred a c w
                          else if overlapped = SendOverlapped a then
                            Some (obind (Lan_send_part ops a c) (\<lambda>(ret, c). Inr (Some ret, c, w)))
                          else Some (Inr (Some (- 1), c, w)))
                         (\<lambda>(cPostRetval, c, w).
                            case cPostRetval of
                              None \<Rightarrow> Some (Inr (True, c, w))
                            | Some ret \<Rightarrow>
                                if ret = POST_RETVAL_ERR_SESSION_DELETED then Some (Inr (True, c, w))
                                else Some (obind (Lan_IOCount_down ops a c) (\<lambda>(_, c). Inr (True, c, w)))))))"

text \<open>
  \<open>n\<close> workers that take completions from the port for at most \<open>rounds\<close> rounds; the answer says how
  many of them have not ended.
\<close>

fun Lan_workers ::
  "('r, 'q) lan_ops \<Rightarrow> (CSerializationBuf \<Rightarrow> 'w \<Rightarrow> 'w outcome) \<Rightarrow> nat \<Rightarrow> nat \<Rightarrow> ('r, 'q) lan_client \<Rightarrow> 'w \<Rightarrow>
   (nat \<times> ('r, 'q) lan_client \<times> 'w) outcome option" where
  "Lan_workers ops onRecv n 0 c w = Some (Inr (n, c, w))"
| "Lan_workers ops onRecv 0 (Suc rounds) c w = Some (Inr (0, c, w))"
| "Lan_workers ops onRecv (Suc n) (Suc rounds) c w =
     (case port c of
        [] \<Rightarrow> Some (Inr (Suc n, c, w))
      | result # rest \<Rightarrow>
          rbind (Lan_Worker ops onRecv result (c\<lparr>port := rest\<rparr>) w) (\<lambda>(go_on, c, w).
            Lan_workers ops onRecv (if go_on then Suc n else n) rounds c w))"

text \<open>\<open>Stop\<close> up to the wait for the workers, with the socket the system shuts down for each session.\<close>

definition Lan_Stop :: "('r, 'q) lan_client \<Rightarrow> u64 list \<times> ('r, 'q) lan_client" where
  "Lan_Stop c =
     (let c = c\<lparr>stopClient := True\<rparr>
      in (map (\<lambda>a. m_sock (lanHeap c a)) (sessionList c),
          c\<lparr>port := port c @ [(0, None, Some OtherOverlapped)]\<rparr>))"

section \<open>Connecting\<close>

text \<open>What \<open>connect\<close> answers, or the last error after it has failed.\<close>

datatype connect_answer = Connected | AlreadyConnected | NotConnected

definition lan_new_socket ::
  "('r, 'q) lan_ops \<Rightarrow> nat \<Rightarrow> ('r, 'q) lan_client \<Rightarrow> bool \<times> ('r, 'q) lan_client" where
  "lan_new_socket ops a c =
     (let s = lan_socket ops (lanCalls c);
          c = upd_lan a (\<lambda>x. x\<lparr>m_sock := s\<rparr>) (c\<lparr>lanCalls := lanCalls c + 1\<rparr>)
      in (s \<noteq> LAN_INVALID_SOCKET, c))"

text \<open>
  The loop around \<open>connect\<close>, over the answers it gets: \<open>None\<close> when the answers are used up and it
  is still trying, else whether there is a connection.
\<close>

fun connect_loop ::
  "('r, 'q) lan_ops \<Rightarrow> nat \<Rightarrow> connect_answer list \<Rightarrow> ('r, 'q) lan_client \<Rightarrow> bool option \<times> ('r, 'q) lan_client" where
  "connect_loop ops a [] c = (None, c)"
| "connect_loop ops a (Connected # as) c = (Some True, c)"
| "connect_loop ops a (NotConnected # as) c = connect_loop ops a as c"
| "connect_loop ops a (AlreadyConnected # as) c =
     (let c = c\<lparr>lanClosed := lanClosed c @ [m_sock (lanHeap c a)]\<rparr>
      in case lan_new_socket ops a c of (ok, c) \<Rightarrow>
           if ok then connect_loop ops a as c else (Some False, c))"

text \<open>The system's answers to one session: those of \<open>connect\<close>, and whether \<open>setsockopt\<close> works.\<close>

type_synonym connect_script = "connect_answer list \<times> bool"

text \<open>
  The body of the loop of Start for one session; \<open>None\<close> while it is still connecting, else whether
  Start goes on.
\<close>

definition Lan_start_session ::
  "('r, 'q) lan_ops \<Rightarrow> connect_script \<Rightarrow> nat \<Rightarrow> ('r, 'q) lan_client \<Rightarrow>
   (bool option \<times> ('r, 'q) lan_client) outcome" where
  "Lan_start_session ops script a c =
     (case lan_new_socket ops a c of (ok, c) \<Rightarrow>
        if \<not> ok then Inr (Some False, c)
        else case connect_loop ops a (fst script) c of
          (None, c) \<Rightarrow> Inr (None, c)
        | (Some False, c) \<Rightarrow> Inr (Some False, c)
        | (Some True, c) \<Rightarrow>
            (let c = upd_lan a (\<lambda>x. x\<lparr>bIsConnect := True\<rparr>) c
             in if \<not> snd script then Inr (Some False, c)
                else
                  (let c = upd_lan a (\<lambda>x. x\<lparr>lBufferCount := 0\<rparr>) c;
                       c = upd_lan a (\<lambda>x. x\<lparr>IOMode := NONSENDING\<rparr>) c;
                       c = upd_lan a (\<lambda>x. x\<lparr>m_SessionId := m_sessionIdGenerator c\<rparr>) c;
                       c = c\<lparr>m_sessionIdGenerator := m_sessionIdGenerator c + 1\<rparr>
                   in obind (Lan_RecvPost ops a c) (\<lambda>(_, c). Inr (Some True, c)))))"

fun Lan_start_sessions ::
  "('r, 'q) lan_ops \<Rightarrow> connect_script list \<Rightarrow> nat list \<Rightarrow> ('r, 'q) lan_client \<Rightarrow>
   (bool option \<times> ('r, 'q) lan_client) outcome" where
  "Lan_start_sessions ops scripts [] c = Inr (Some True, c)"
| "Lan_start_sessions ops [] (a # as) c = Inr (None, c)"
| "Lan_start_sessions ops (script # scripts) (a # as) c =
     obind (Lan_start_session ops script a c) (\<lambda>(r, c).
       if r = Some True then Lan_start_sessions ops scripts as c else Inr (r, c))"

text \<open>
  A new session: the members without an initialiser have the values that \<open>garbage\<close> gives them.
\<close>

definition new_session ::
  "('r, 'q) lan_ops \<Rightarrow> ('r, 'q) lan_session \<Rightarrow> ('r, 'q) lan_session" where
  "new_session ops garbage =
     garbage\<lparr>bIsConnect := False, m_IOCount := 0, m_SessionId := 0, RingBuffer := lo_empty_ring ops,
       SendQ := lo_empty_queue ops, pSeirializeBufStore := replicate 200 None\<rparr>"

text \<open>Start with its options read, and with a system that starts up, opens a port and makes threads.\<close>

definition Lan_Start ::
  "('r, 'q) lan_ops \<Rightarrow> ('r, 'q) lan_session \<Rightarrow> connect_script list \<Rightarrow> ('r, 'q) lan_client \<Rightarrow>
   (bool option \<times> ('r, 'q) lan_client) outcome" where
  "Lan_Start ops garbage scripts c =
     (let n = unat (m_byNumOfSession c);
          c = c\<lparr>lanHeap := (\<lambda>a. if a < n then new_session ops garbage else lanHeap c a), sessionList := [0..<n]\<rparr>;
          c = c\<lparr>m_numOfReconnect := 0\<rparr>
      in Lan_start_sessions ops scripts (sessionList c) c)"

text \<open>
  One round of Reconnecter; \<open>None\<close> while it is still connecting, else whether it goes on. The flag
  \<open>stopClient\<close>, which the loop around \<open>connect\<close> reads as well, does not change within the round.
\<close>

definition Lan_Reconnecter ::
  "('r, 'q) lan_ops \<Rightarrow> connect_script \<Rightarrow> ('r, 'q) lan_client \<Rightarrow>
   (bool option \<times> ('r, 'q) lan_client) outcome" where
  "Lan_Reconnecter ops script c =
     (if stopClient c then Inr (Some False, c)
      else case sessionReconnectIdList c of
        [] \<Rightarrow> Inr (Some True, c)
      | releasedSessionId # _ \<Rightarrow>
          if \<not> unat releasedSessionId < length (sessionList c) then Inl UndefinedBehaviour
          else
            (let a = sessionList c ! unat releasedSessionId
             in case lan_new_socket ops a c of (ok, c) \<Rightarrow>
                  if \<not> ok then Inr (Some False, c)
                  else case connect_loop ops a (fst script) c of
                    (None, c) \<Rightarrow> Inr (None, c)
                  | (Some False, c) \<Rightarrow> Inr (Some False, c)
                  | (Some True, c) \<Rightarrow>
                      (let c = upd_lan a (\<lambda>x. x\<lparr>bIsConnect := True\<rparr>) c
                       in if \<not> snd script then Inr (Some False, c)
                          else
                            obind (Lan_RecvPost ops a c) (\<lambda>(_, c).
                              let c = c\<lparr>m_numOfReconnect := m_numOfReconnect c + 1\<rparr>
                              in Inr (Some True, c\<lparr>sessionReconnectIdList := tl (sessionReconnectIdList c)\<rparr>)))))"

end
