(* ===== verification/LanProps.thy ===== *)
theory LanProps
  imports LanClient
begin

text \<open>
  What holds of CMultiLanClient: how received bytes are cut into packets, and how channels and
  session ids address the sessions.
\<close>

section \<open>Cutting received bytes into packets\<close>

text \<open>
  A fresh buffer has room for \<open>cap\<close> bytes behind its write position, the header of a packet is
  its length, and reading it advances the read position only.
\<close>

definition lan_buf_laws :: "lan_buf_ops \<Rightarrow> nat \<Rightarrow> bool" where
  "lan_buf_laws lb cap \<longleftrightarrow>
     HEADER_SIZE lb = 2 \<and> 0 \<le> m_iWrite (lb_Alloc lb) \<and>
     2 \<le> length (m_pSerializeBuffer (lb_Alloc lb)) \<and>
     nat (m_iWrite (lb_Alloc lb)) + cap \<le> length (m_pSerializeBuffer (lb_Alloc lb)) \<and>
     (\<forall>b. \<exists>v n. lb_get_WORD lb b = (v, b\<lparr>m_iRead := n\<rparr>))"

text \<open>The length in a header, and the packet with a header and a payload.\<close>

definition lan_length :: "lan_buf_ops \<Rightarrow> u8 list \<Rightarrow> nat" where
  "lan_length lb header =
     (case lan_with_header lb header of Inl e \<Rightarrow> 0 | Inr b \<Rightarrow> unat (fst (lb_get_WORD lb b)))"

definition lan_packet :: "lan_buf_ops \<Rightarrow> u8 list \<times> u8 list \<Rightarrow> CSerializationBuf outcome" where
  "lan_packet lb f =
     obind (lan_with_header lb (fst f)) (\<lambda>b. append_payload (snd (lb_get_WORD lb b)) (snd f))"

text \<open>The frames at the start of a stream of bytes, and the bytes behind them.\<close>

function lan_frames :: "lan_buf_ops \<Rightarrow> u8 list \<Rightarrow> (u8 list \<times> u8 list) list \<times> u8 list" where
  "lan_frames lb bs =
     (if length bs \<le> 2 \<or> length bs < lan_length lb (take 2 bs) + 2 then ([], bs)
      else case lan_frames lb (drop (2 + lan_length lb (take 2 bs)) bs) of
        (fs, rest) \<Rightarrow> ((take 2 bs, take (lan_length lb (take 2 bs)) (drop 2 bs)) # fs, rest))"
  by pat_completeness auto
termination
  by (relation "measure (\<lambda>(lb, bs). length bs)") auto

declare lan_frames.simps [simp del]

lemma lan_with_header_ok:
  assumes "lan_buf_laws lb cap" and "length h = 2"
  obtains b where "lan_with_header lb h = Inr b" and "m_iWrite b = m_iWrite (lb_Alloc lb)"
    and "length (m_pSerializeBuffer b) = length (m_pSerializeBuffer (lb_Alloc lb))"
  using assms by (auto simp: lan_with_header_def lan_buf_laws_def mem_put_def Let_def)

lemma lan_packet_ok:
  assumes "lan_buf_laws lb cap" and "length h = 2" and "length p \<le> cap"
  shows "\<exists>b. lan_packet lb (h, p) = Inr b"
proof -
  obtain b where b: "lan_with_header lb h = Inr b" "m_iWrite b = m_iWrite (lb_Alloc lb)"
    "length (m_pSerializeBuffer b) = length (m_pSerializeBuffer (lb_Alloc lb))"
    using lan_with_header_ok [OF assms(1,2)] by blast
  obtain v n where "lb_get_WORD lb b = (v, b\<lparr>m_iRead := n\<rparr>)"
    using assms(1) unfolding lan_buf_laws_def by blast
  with b assms show ?thesis
    by (simp add: lan_packet_def append_payload_ok lan_buf_laws_def)
qed

lemma lan_recv_loop_stops:
  assumes "length (bytes r) \<le> 2" and "HEADER_SIZE lb = 2"
  shows "lan_recv_loop lb ro onRecv r (int (length (bytes r))) w = Some (Inr (r, w))"
  by (subst lan_recv_loop.simps) (use assms in simp)

lemma lan_recv_loop_waits:
  assumes laws: "lan_buf_laws lb cap" and ring: "ring_laws ro bytes"
    and "2 < length (bytes r)" and "length (bytes r) < lan_length lb (take 2 (bytes r)) + 2"
  shows "lan_recv_loop lb ro onRecv r (int (length (bytes r))) w = Some (Inr (r, w))"
proof -
  have HS: "HEADER_SIZE lb = 2" using laws by (simp add: lan_buf_laws_def)
  obtain b where b: "lan_with_header lb (take 2 (bytes r)) = Inr b"
    using lan_with_header_ok [OF laws, of "take 2 (bytes r)"] assms(3) by auto
  obtain v b1 where g: "lb_get_WORD lb b = (v, b1)" by (cases "lb_get_WORD lb b")
  have n: "uint v = int (lan_length lb (take 2 (bytes r)))" by (simp add: lan_length_def b g)
  have peek: "rb_Peek ro (int 2) r = take 2 (bytes r)" and use: "rb_GetUseSize ro r = int (length (bytes r))"
    using ring_laws_peek [OF ring, of 2] ring_laws_use [OF ring] assms(3) by auto
  have conds: "(int 2 < int (length (bytes r))) = True" "(length (take 2 (bytes r)) < 2) = False"
    "(int (length (bytes r)) < int (lan_length lb (take 2 (bytes r))) + int 2) = True"
    using assms(3,4) by simp_all
  show ?thesis
    by (subst lan_recv_loop.simps)
      (simp only: HS conds peek use b g n Let_def prod.case sum.case if_True if_False)
qed

lemma lan_recv_loop_takes:
  assumes laws: "lan_buf_laws lb cap" and ring: "ring_laws ro bytes"
    and "2 < length (bytes r)" and len: "lan_length lb (take 2 (bytes r)) + 2 \<le> length (bytes r)"
    and cap: "lan_length lb (take 2 (bytes r)) \<le> cap"
  obtains b r2 where
    "lan_packet lb (take 2 (bytes r), take (lan_length lb (take 2 (bytes r))) (drop 2 (bytes r))) = Inr b"
    and "bytes r2 = drop (2 + lan_length lb (take 2 (bytes r))) (bytes r)"
    and "\<And>w. lan_recv_loop lb ro onRecv r (int (length (bytes r))) w =
      (case onRecv b w of Inl e \<Rightarrow> Some (Inl e)
       | Inr w \<Rightarrow> lan_recv_loop lb ro onRecv r2 (int (length (bytes r2))) w)"
proof -
  let ?h = "take 2 (bytes r)"
  let ?n = "lan_length lb ?h"
  let ?p = "take ?n (drop 2 (bytes r))"
  have HS: "HEADER_SIZE lb = 2" using laws by (simp add: lan_buf_laws_def)
  obtain b0 where b0: "lan_with_header lb ?h = Inr b0"
    using lan_with_header_ok [OF laws, of ?h] assms(3) by auto
  obtain v b1 where g: "lb_get_WORD lb b0 = (v, b1)" by (cases "lb_get_WORD lb b0")
  have n: "uint v = int ?n" by (simp add: lan_length_def b0 g)
  have lenp: "length ?p = ?n" using len by simp
  then obtain b where b: "lan_packet lb (?h, ?p) = Inr b"
    using lan_packet_ok [OF laws, of ?h ?p] assms(3) cap by auto
  then have app: "append_payload b1 ?p = Inr b" by (simp add: lan_packet_def b0 g)
  obtain r2 where deq: "rb_Dequeue ro (int ?n) (rb_RemoveData ro (int 2) r) = (?p, r2)"
    and r2: "bytes r2 = drop (2 + ?n) (bytes r)"
    using ring_take_frame [OF ring, of 2 ?n r] len by auto
  have peek: "rb_Peek ro (int 2) r = ?h" and use: "rb_GetUseSize ro r = int (length (bytes r))"
    using ring_laws_peek [OF ring, of 2] ring_laws_use [OF ring] assms(3) by auto
  have rest: "int (length (bytes r)) - (int (length ?p) + 2) = int (length (bytes r2))"
    unfolding lenp using len by (simp add: r2)
  have conds: "(int 2 < int (length (bytes r))) = True" "(length ?h < 2) = False" "int (length ?h) = int 2"
    "(int (length (bytes r)) < int ?n + int 2) = False"
    using assms(3) len by simp_all
  have "lan_recv_loop lb ro onRecv r (int (length (bytes r))) w =
      (case onRecv b w of Inl e \<Rightarrow> Some (Inl e)
       | Inr w \<Rightarrow> lan_recv_loop lb ro onRecv r2 (int (length (bytes r2))) w)" for w
    by (subst lan_recv_loop.simps)
      (simp only: HS conds peek use b0 g n deq app rest Let_def prod.case sum.case if_True if_False)
  with b r2 that show thesis by blast
qed

lemma lan_recv_loop_refined:
  assumes laws: "lan_buf_laws lb cap" and ring: "ring_laws ro bytes"
  shows "lan_frames lb (bytes r) = (fs, rest) \<Longrightarrow> \<forall>f \<in> set fs. length (snd f) \<le> cap \<Longrightarrow>
    \<exists>ps r'. map (lan_packet lb) fs = map Inr ps \<and> bytes r' = rest \<and>
      lan_recv_loop lb ro onRecv r (int (length (bytes r))) w =
        Some (obind (deliver onRecv ps w) (\<lambda>w. Inr (r', w)))"
proof (induction "length (bytes r)" arbitrary: r fs w rule: less_induct)
  case less
  let ?h = "take 2 (bytes r)"
  let ?n = "lan_length lb ?h"
  consider (stop) "length (bytes r) \<le> 2" | (wait) "2 < length (bytes r)" "length (bytes r) < ?n + 2"
    | (more) "2 < length (bytes r)" "?n + 2 \<le> length (bytes r)" by linarith
  then show ?case
  proof cases
    case stop
    with less.prems(1) have "fs = []" "rest = bytes r" by (simp_all add: lan_frames.simps)
    with lan_recv_loop_stops [of bytes r lb ro onRecv w, OF stop] laws show ?thesis
      by (intro exI [of _ "[]"] exI [of _ r]) (simp add: lan_buf_laws_def)
  next
    case wait
    with less.prems(1) have "fs = []" "rest = bytes r" by (simp_all add: lan_frames.simps)
    with lan_recv_loop_waits [OF laws ring wait] show ?thesis
      by (intro exI [of _ "[]"] exI [of _ r]) simp
  next
    case more
    let ?p = "take ?n (drop 2 (bytes r))"
    obtain fs' where fs': "lan_frames lb (drop (2 + ?n) (bytes r)) = (fs', rest)" and fs: "fs = (?h, ?p) # fs'"
      using less.prems(1) more by (subst (asm) lan_frames.simps) (simp split: prod.splits)
    have "?n \<le> cap" using less.prems(2) more by (simp add: fs)
    from lan_recv_loop_takes [OF laws ring more this, of onRecv] obtain b r2 where
      b: "lan_packet lb (?h, ?p) = Inr b" and r2: "bytes r2 = drop (2 + ?n) (bytes r)"
      and loop: "\<And>w. lan_recv_loop lb ro onRecv r (int (length (bytes r))) w =
        (case onRecv b w of Inl e \<Rightarrow> Some (Inl e)
         | Inr w \<Rightarrow> lan_recv_loop lb ro onRecv r2 (int (length (bytes r2))) w)" by blast
    have "length (bytes r2) < length (bytes r)" using r2 more by simp
    note IH = less.hyps [OF this fs' [folded r2]]
    show ?thesis
    proof (cases "onRecv b w")
      case (Inl e)
      with IH [of w] less.prems(2) fs b show ?thesis by (auto simp: loop Cons_eq_map_conv)
    next
      case (Inr w1)
      with IH [of w1] less.prems(2) fs b show ?thesis by (auto simp: loop Cons_eq_map_conv)
    qed
  qed
qed

text \<open>
  C27: The packet loop of CMultiLanClient::Worker delivers exactly the frames of the received bytes,
  in order, and leaves the bytes of an unfinished frame in the ring; in particular it returns.
  This holds for frames that fit the buffer of a packet: the code does not check that they do.
\<close>

theorem lan_recv_loop_delivers:
  assumes "lan_buf_laws lb cap" and "ring_laws ro bytes"
    and "lan_frames lb (bytes r) = (fs, rest)" and "\<forall>f \<in> set fs. length (snd f) \<le> cap"
  shows "\<exists>ps r'. map (lan_packet lb) fs = map Inr ps \<and> bytes r' = rest \<and>
    lan_recv_loop lb ro onRecv r (rb_GetUseSize ro r) w = Some (obind (deliver onRecv ps w) (\<lambda>w. Inr (r', w)))"
  using lan_recv_loop_refined [OF assms] ring_laws_use [OF assms(2)] by simp

section \<open>Channels\<close>

lemma unat_u8_u64 [simp]: "unat (ucast (n :: u8) :: u64) = unat n"
proof -
  have "unat n < 2 ^ LENGTH(8)" by (rule unsigned_less)
  then show ?thesis by (simp add: unsigned_ucast_eq take_bit_nat_eq_self)
qed

lemma GetFixedChannelId_value:
  "0 < m_byNumOfUsingWorkerThread c \<Longrightarrow>
   \<exists>ch. GetFixedChannelId k c = Inr ch \<and> unat ch = unat k mod unat (m_byNumOfUsingWorkerThread c)"
  by (auto simp: GetFixedChannelId_def unat_mod)

text \<open>
  C30: SendPacket with a fixed id finds a session for every id exactly if the option
  USE_IOCPWORKER is at most the number of sessions. The options that the repository ships ask
  for 4 workers and 2 sessions, so with them half of all ids index \<open>sessionList\<close> out of range.
\<close>

theorem fixed_channel_in_range_iff:
  assumes "0 < m_byNumOfUsingWorkerThread c"
  shows "(\<forall>fixedId. \<exists>ch. GetFixedChannelId fixedId c = Inr ch \<and> unat ch < length (sessionList c)) \<longleftrightarrow>
    unat (m_byNumOfUsingWorkerThread c) \<le> length (sessionList c)"
proof
  let ?n = "unat (m_byNumOfUsingWorkerThread c)"
  have n: "0 < ?n" using assms by (simp add: word_less_nat_alt)
  assume "\<forall>fixedId. \<exists>ch. GetFixedChannelId fixedId c = Inr ch \<and> unat ch < length (sessionList c)"
  then obtain ch where "GetFixedChannelId (of_nat (?n - 1)) c = Inr ch" "unat ch < length (sessionList c)" by blast
  moreover have "?n < 2 ^ LENGTH(8)" by (rule unsigned_less)
  then have "unat (of_nat (?n - 1) :: u64) = ?n - 1" by (simp add: unat_of_nat)
  ultimately show "?n \<le> length (sessionList c)"
    using GetFixedChannelId_value [OF assms, of "of_nat (?n - 1)"] n by auto
next
  assume le: "unat (m_byNumOfUsingWorkerThread c) \<le> length (sessionList c)"
  show "\<forall>fixedId. \<exists>ch. GetFixedChannelId fixedId c = Inr ch \<and> unat ch < length (sessionList c)"
  proof
    fix k
    obtain ch where "GetFixedChannelId k c = Inr ch" "unat ch = unat k mod unat (m_byNumOfUsingWorkerThread c)"
      using GetFixedChannelId_value [OF assms] by blast
    moreover have "unat k mod unat (m_byNumOfUsingWorkerThread c) < unat (m_byNumOfUsingWorkerThread c)"
      using assms by (simp add: word_less_nat_alt)
    ultimately show "\<exists>ch. GetFixedChannelId k c = Inr ch \<and> unat ch < length (sessionList c)"
      using le by (intro exI [of _ ch]) simp
  qed
qed

section \<open>Session ids\<close>

text \<open>What every operation on the session at \<open>a\<close> leaves as it is.\<close>

definition lan_keeps :: "nat \<Rightarrow> ('r, 'q) lan_client \<Rightarrow> ('r, 'q) lan_client \<Rightarrow> bool" where
  "lan_keeps a c c' \<longleftrightarrow>
     sessionList c' = sessionList c \<and> m_bIsReconnect c' = m_bIsReconnect c \<and>
     m_sessionIdGenerator c' = m_sessionIdGenerator c \<and>
     m_byNumOfUsingWorkerThread c' = m_byNumOfUsingWorkerThread c \<and>
     (\<forall>b. m_SessionId (lanHeap c' b) = m_SessionId (lanHeap c b)) \<and>
     (\<forall>b. b \<noteq> a \<longrightarrow> lanHeap c' b = lanHeap c b) \<and>
     set (sessionReconnectIdList c') \<subseteq> insert (m_SessionId (lanHeap c a)) (set (sessionReconnectIdList c))"

lemma lan_keeps_refl [simp]: "lan_keeps a c c"
  by (auto simp: lan_keeps_def)

lemma lan_keeps_trans:
  assumes "lan_keeps a c c'" and "lan_keeps a c' c''"
  shows "lan_keeps a c c''"
proof -
  from assms have "set (sessionReconnectIdList c'') \<subseteq> insert (m_SessionId (lanHeap c a)) (set (sessionReconnectIdList c))"
    by (fastforce simp: lan_keeps_def)
  with assms show ?thesis by (simp add: lan_keeps_def)
qed

lemma free_buf_keeps: "free_buf p c = Inr c' \<Longrightarrow> lan_keeps a c c' \<and> lanHeap c' = lanHeap c"
  by (auto simp: free_buf_def lan_keeps_def split: option.splits if_splits)

lemma free_bufs_keeps: "free_bufs ps c = Inr c' \<Longrightarrow> lan_keeps a c c' \<and> lanHeap c' = lanHeap c"
proof (induction ps arbitrary: c)
  case (Cons p ps)
  then obtain c1 where "free_buf p c = Inr c1" "free_bufs ps c1 = Inr c'" by (auto simp: outcome_simps)
  with Cons.IH [of c1] free_buf_keeps [of p c c1 a] show ?case
    by (auto intro: lan_keeps_trans)
qed simp

lemma upd_lan_keeps:
  "(\<And>x. m_SessionId (f x) = m_SessionId x) \<Longrightarrow> lan_keeps a c (upd_lan a f c)"
  by (auto simp: lan_keeps_def)

lemma free_queue_keeps:
  "free_queue ops n a d c = Inr c' \<Longrightarrow> lan_keeps a c c' \<and> IOMode (lanHeap c' a) = IOMode (lanHeap c a)"
proof (induction n arbitrary: d c)
  case (Suc n)
  obtain p q where pq: "q_Dequeue (lo_queue ops) (SendQ (lanHeap c a)) = (p, q)" by fastforce
  let ?c = "upd_lan a (\<lambda>x. x\<lparr>SendQ := q\<rparr>) c"
  from Suc.prems obtain d c1 where 1: "free_buf d ?c = Inr c1" "free_queue ops n a d c1 = Inr c'"
    by (auto simp: pq outcome_simps Let_def)
  have "lan_keeps a c ?c" by (simp add: upd_lan_keeps)
  with Suc.IH [OF 1(2)] free_buf_keeps [OF 1(1), of a] show ?case
    by (auto intro: lan_keeps_trans)
qed simp

lemma Lan_close_keeps: "lan_keeps a c (Lan_close a c) \<and> IOMode (lanHeap (Lan_close a c) a) = IOMode (lanHeap c a)"
  by (auto simp: Lan_close_def lan_keeps_def Let_def)

lemma Lan_ReleaseSession_keeps:
  assumes "Lan_ReleaseSession ops a c = Inr c'"
  shows "lan_keeps a c c' \<and> IOMode (lanHeap c' a) = IOMode (lanHeap c a)"
proof -
  let ?c = "upd_lan a (\<lambda>x. x\<lparr>bIsConnect := False\<rparr>) c"
  obtain ps n b c1 c2 where 1: "free_bufs ps ?c = Inr c1"
    and 2: "(if b then free_queue ops n a None c1 else Inr c1) = Inr c2" and 3: "c' = Lan_close a c2"
    using assms unfolding Lan_ReleaseSession_def Let_def obind_eq_Inr_iff by fast
  have "lan_keeps a c ?c" by (simp add: upd_lan_keeps)
  moreover have "lan_keeps a ?c c1 \<and> IOMode (lanHeap c1 a) = IOMode (lanHeap c a)"
    using free_bufs_keeps [OF 1, of a] by simp
  moreover have "lan_keeps a c1 c2 \<and> IOMode (lanHeap c2 a) = IOMode (lanHeap c1 a)"
    using 2 free_queue_keeps [of ops n a None c1 c2] by (auto split: if_splits)
  moreover have "lan_keeps a c2 c' \<and> IOMode (lanHeap c' a) = IOMode (lanHeap c2 a)"
    using 3 Lan_close_keeps [of a c2] by simp
  ultimately show ?thesis by (auto intro: lan_keeps_trans)
qed

lemma Lan_IOCount_down_keeps:
  assumes "Lan_IOCount_down ops a c = Inr (released, c')"
  shows "lan_keeps a c c' \<and> IOMode (lanHeap c' a) = IOMode (lanHeap c a)"
proof -
  let ?c = "upd_lan a (\<lambda>x. x\<lparr>m_IOCount := m_IOCount x - 1\<rparr>) c"
  have "lan_keeps a c ?c" by (simp add: upd_lan_keeps)
  moreover have "c' = ?c \<or> Lan_ReleaseSession ops a ?c = Inr c'"
    using assms by (auto simp: Lan_IOCount_down_def Let_def outcome_simps split: if_splits)
  ultimately show ?thesis
    using Lan_ReleaseSession_keeps [of ops a ?c c'] by (auto intro: lan_keeps_trans)
qed

lemma Lan_RecvPost_keeps:
  assumes "Lan_RecvPost ops a c = Inr (r, c')"
  shows "lan_keeps a c c' \<and> IOMode (lanHeap c' a) = IOMode (lanHeap c a)"
proof -
  let ?c = "(upd_lan a (\<lambda>x. x\<lparr>m_IOCount := m_IOCount x + 1\<rparr>) c)\<lparr>lanCalls := lanCalls c + 1,
     wsaRecvs := wsaRecvs c @ [(a, recv_wsabufs (lo_ring ops) (RingBuffer (lanHeap c a)))]\<rparr>"
  have "lan_keeps a c ?c" by (auto simp: lan_keeps_def)
  moreover have "(\<exists>b. Lan_IOCount_down ops a c = Inr (b, c')) \<or> c' = ?c \<or> (\<exists>b. Lan_IOCount_down ops a ?c = Inr (b, c'))"
    using assms by (auto simp: Lan_RecvPost_def Let_def outcome_simps split: if_splits)
  ultimately show ?thesis
    using Lan_IOCount_down_keeps [of ops a c _ c'] Lan_IOCount_down_keeps [of ops a ?c _ c']
    by (auto intro: lan_keeps_trans)
qed

lemma Lan_SendPost_send_keeps:
  "Lan_SendPost_send ops a n c = Inr (r, c') \<Longrightarrow> lan_keeps a c c'"
  by (auto simp: Lan_SendPost_send_def Let_def outcome_simps lan_keeps_def)

text \<open>
  As one thread runs it, SendPost does not go round its loop twice: it has emptied the queue or
  set the mode itself.
\<close>

lemma Lan_SendPost_busy: "IOMode (lanHeap c a) \<noteq> NONSENDING \<Longrightarrow> Lan_SendPost ops a c = Inr (POST_RETVAL_COMPLETE, c)"
  by (simp add: Lan_SendPost.simps)

lemma Lan_SendPost_flat:
  "Lan_SendPost ops a c =
     (let n = q_GetRestSize (lo_queue ops) (SendQ (lanHeap c a));
          c1 = upd_lan a (\<lambda>x. x\<lparr>IOMode := SENDING\<rparr>) c
      in if IOMode (lanHeap c a) \<noteq> NONSENDING then Inr (POST_RETVAL_COMPLETE, c)
         else if n = 0 then Inr (POST_RETVAL_COMPLETE, upd_lan a (\<lambda>x. x\<lparr>IOMode := NONSENDING\<rparr>) c)
         else if n < 0 then
           obind (Lan_IOCount_down ops a c1) (\<lambda>(released, c).
             if released then Inr (POST_RETVAL_ERR_SESSION_DELETED, c)
             else Inr (POST_RETVAL_ERR, upd_lan a (\<lambda>x. x\<lparr>IOMode := NONSENDING\<rparr>) c))
         else
           obind (Lan_SendPost_send ops a n c1) (\<lambda>(answer, c).
             case answer of
               LanAccepted \<Rightarrow> Inr (POST_RETVAL_COMPLETE, c)
             | LanNoBuffers \<Rightarrow> Inl Crash
             | LanRefused \<Rightarrow>
                 obind (Lan_IOCount_down ops a c) (\<lambda>(released, c).
                   Inr (if released then POST_RETVAL_ERR_SESSION_DELETED else POST_RETVAL_ERR, c))))"
proof (cases "Lan_SendPost_send ops a (q_GetRestSize (lo_queue ops) (SendQ (lanHeap c a)))
    (upd_lan a (\<lambda>x. x\<lparr>IOMode := SENDING\<rparr>) c)")
  case (Inl e)
  then show ?thesis by (subst Lan_SendPost.simps) (simp add: Let_def)
next
  case (Inr r)
  obtain answer c2 where r: "r = (answer, c2)" by (cases r)
  have "Lan_SendPost ops a c2 = Inr (POST_RETVAL_COMPLETE, c2)"
    using Lan_SendPost_send_IOMode [OF Inr [unfolded r]] by (simp add: Lan_SendPost_busy lan_consts)
  with Inr r show ?thesis by (subst Lan_SendPost.simps) (simp add: Let_def split: lan_answer.split)
qed

lemma Lan_SendPost_keeps:
  assumes "Lan_SendPost ops a c = Inr (r, c')"
  shows "lan_keeps a c c'"
proof -
  let ?c = "upd_lan a (\<lambda>x. x\<lparr>IOMode := SENDING\<rparr>) c"
  let ?n = "q_GetRestSize (lo_queue ops) (SendQ (lanHeap c a))"
  have keeps: "lan_keeps a c ?c" by (auto simp: lan_keeps_def)
  consider (out) "IOMode (lanHeap c a) \<noteq> NONSENDING \<or> ?n = 0"
    | (negative) "IOMode (lanHeap c a) = NONSENDING" "?n < 0" | (some) "IOMode (lanHeap c a) = NONSENDING" "0 < ?n"
    by linarith
  then show ?thesis
  proof cases
    case out
    with assms show ?thesis by (auto simp: Lan_SendPost_flat Let_def lan_keeps_def split: if_splits)
  next
    case negative
    with assms obtain b c1 where 1: "Lan_IOCount_down ops a ?c = Inr (b, c1)"
      and 2: "c' = c1 \<or> c' = upd_lan a (\<lambda>x. x\<lparr>IOMode := NONSENDING\<rparr>) c1"
      by (auto simp: Lan_SendPost_flat Let_def outcome_simps split: if_splits)
    have "lan_keeps a c1 (upd_lan a (\<lambda>x. x\<lparr>IOMode := NONSENDING\<rparr>) c1)" by (auto simp: lan_keeps_def)
    with 2 Lan_IOCount_down_keeps [OF 1] keeps show ?thesis by (auto intro: lan_keeps_trans)
  next
    case some
    with assms obtain answer c1 where 1: "Lan_SendPost_send ops a ?n ?c = Inr (answer, c1)"
      and 2: "(case answer of LanAccepted \<Rightarrow> Inr (POST_RETVAL_COMPLETE, c1) | LanNoBuffers \<Rightarrow> Inl Crash
        | LanRefused \<Rightarrow> obind (Lan_IOCount_down ops a c1) (\<lambda>(released, c).
            Inr (if released then POST_RETVAL_ERR_SESSION_DELETED else POST_RETVAL_ERR, c))) = Inr (r, c')"
      by (auto simp: Lan_SendPost_flat Let_def outcome_simps)
    have "lan_keeps a c1 c'"
      using 2 by (cases answer) (auto simp: outcome_simps dest: Lan_IOCount_down_keeps)
    with Lan_SendPost_send_keeps [OF 1] keeps show ?thesis by (auto intro: lan_keeps_trans)
  qed
qed

lemma Lan_SendPacketImpl_keeps:
  assumes "Lan_SendPacketImpl ops p k c = Inr (r, c')"
  shows "c' = c \<or> (unat k < length (sessionList c) \<and> lan_keeps (sessionList c ! unat k) c c')"
proof (cases p)
  case (Some b)
  let ?a = "sessionList c ! unat k"
  from assms Some obtain buf where buf: "bufs c b = Some buf" and k: "unat k < length (sessionList c)"
    by (auto simp: Lan_SendPacketImpl_def Let_def split: option.splits if_splits)
  let ?c = "upd_lan ?a (\<lambda>x. x\<lparr>SendQ := q_Enqueue (lo_queue ops) b (SendQ x)\<rparr>)
    (c\<lparr>bufs := (bufs c)(b \<mapsto> lan_header (lo_buf ops) buf)\<rparr>)"
  from assms Some buf k obtain r' where post: "Lan_SendPost ops ?a ?c = Inr (r', c')"
    by (auto simp: Lan_SendPacketImpl_def Let_def outcome_simps)
  have "lan_keeps ?a c ?c" by (auto simp: lan_keeps_def)
  from lan_keeps_trans [OF this Lan_SendPost_keeps [OF post]] k show ?thesis by simp
qed (use assms in \<open>simp add: Lan_SendPacketImpl_def\<close>)

lemma Lan_recv_part_keeps:
  assumes "Lan_recv_part ops onRecv t a c w = Some (Inr (r, c', w'))"
  shows "lan_keeps a c c'"
proof (cases "t = 0")
  case True
  with assms show ?thesis
    by (auto simp: Lan_recv_part_def outcome_simps dest: Lan_IOCount_down_keeps)
next
  case False
  with assms obtain ring r' where "Lan_RecvPost ops a (upd_lan a (\<lambda>x. x\<lparr>RingBuffer := ring\<rparr>) c) = Inr (r', c')"
    by (auto simp: Lan_recv_part_def Let_def outcome_simps)
  from Lan_RecvPost_keeps [OF this] show ?thesis by (auto simp: lan_keeps_def)
qed

lemma Lan_send_part_keeps:
  assumes "Lan_send_part ops a c = Inr (r, c')"
  shows "lan_keeps a c c'"
proof -
  let ?f = "\<lambda>x. x\<lparr>lBufferCount := lBufferCount x - lBufferCount (lanHeap c a), IOMode := NONSENDING\<rparr>"
  obtain ps c1 where 1: "free_bufs ps c = Inr c1" and 2: "Lan_SendPost ops a (upd_lan a ?f c1) = Inr (r, c')"
    using assms by (auto simp: Lan_send_part_def Let_def outcome_simps)
  have "lan_keeps a c1 (upd_lan a ?f c1)" by (rule upd_lan_keeps) simp
  with free_bufs_keeps [OF 1, of a] Lan_SendPost_keeps [OF 2] show ?thesis
    by (auto intro: lan_keeps_trans)
qed

lemma Lan_Worker_keeps:
  assumes "Lan_Worker ops onRecv (t, key, ov) c w = Some (Inr (go_on, c', w'))"
  shows "(\<exists>p. c' = c\<lparr>port := p\<rparr>) \<or> (\<exists>k < length (sessionList c). lan_keeps (sessionList c ! k) c c')"
proof (cases key)
  case None
  with assms show ?thesis by (auto simp: Lan_Worker_def split: option.splits)
next
  case (Some k)
  let ?a = "sessionList c ! k"
  from assms Some have k: "k < length (sessionList c)"
    by (auto simp: Lan_Worker_def split: option.splits if_splits)
  from assms Some obtain o' where ov: "ov = Some o'" by (cases ov) (auto simp: Lan_Worker_def)
  let ?part = "if o' = RecvOverlapped ?a then Lan_recv_part ops onRecv t ?a c w
     else if o' = SendOverlapped ?a then Some (obind (Lan_send_part ops ?a c) (\<lambda>(ret, c). Inr (Some ret, c, w)))
     else Some (Inr (Some (- 1), c, w))"
  from assms obtain ret c1 w1 where part: "?part = Some (Inr (ret, c1, w1))"
    and end_: "c' = c1 \<or> (\<exists>b. Lan_IOCount_down ops ?a c1 = Inr (b, c'))"
    unfolding Lan_Worker_def Some ov by (auto simp: k outcome_simps Let_def split: option.splits if_splits)
  have "lan_keeps ?a c c1"
    using part by (auto simp: outcome_simps split: if_splits dest: Lan_recv_part_keeps Lan_send_part_keeps)
  with end_ have "lan_keeps ?a c c'"
    by (auto dest: Lan_IOCount_down_keeps intro: lan_keeps_trans)
  with k show ?thesis by blast
qed

lemma connect_loop_keeps: "connect_loop ops a script c = (r, c') \<Longrightarrow> lan_keeps a c c' \<and> (\<forall>b. IOMode (lanHeap c' b) = IOMode (lanHeap c b))"
proof (induction ops a script c arbitrary: r c' rule: connect_loop.induct)
  case (4 ops a as c)
  let ?c = "c\<lparr>lanClosed := lanClosed c @ [m_sock (lanHeap c a)]\<rparr>"
  obtain ok c1 where s: "lan_new_socket ops a ?c = (ok, c1)" by fastforce
  then have "lan_keeps a c c1 \<and> (\<forall>b. IOMode (lanHeap c1 b) = IOMode (lanHeap c b))"
    by (auto simp: lan_new_socket_def Let_def lan_keeps_def)
  with 4 s show ?case by (cases ok) (auto intro: lan_keeps_trans)
qed auto

lemma lan_new_socket_keeps:
  "lan_new_socket ops a c = (ok, c') \<Longrightarrow> lan_keeps a c c' \<and> (\<forall>b. IOMode (lanHeap c' b) = IOMode (lanHeap c b))"
  by (auto simp: lan_new_socket_def Let_def lan_keeps_def)

lemma Lan_Reconnecter_keeps:
  assumes "Lan_Reconnecter ops script c = Inr (r, c')"
  shows "c' = c \<or> (\<exists>i < length (sessionList c). lan_keeps (sessionList c ! i) c c' \<and>
    (\<forall>b. IOMode (lanHeap c' b) = IOMode (lanHeap c b)))"
proof (cases "stopClient c \<or> sessionReconnectIdList c = []")
  case True
  with assms have "c' = c" by (cases "stopClient c") (auto simp: Lan_Reconnecter_def)
  then show ?thesis by simp
next
  case False
  then obtain k ks where ks: "\<not> stopClient c" "sessionReconnectIdList c = k # ks"
    by (cases "sessionReconnectIdList c") auto
  let ?a = "sessionList c ! unat k"
  let ?same = "\<lambda>c'. lan_keeps ?a c c' \<and> (\<forall>b. IOMode (lanHeap c' b) = IOMode (lanHeap c b))"
  from assms ks have k: "unat k < length (sessionList c)" by (auto simp: Lan_Reconnecter_def split: if_splits)
  obtain ok c1 where c1: "lan_new_socket ops ?a c = (ok, c1)" by fastforce
  obtain res c2 where c2: "connect_loop ops ?a (fst script) c1 = (res, c2)" by fastforce
  have same1: "?same c1" using lan_new_socket_keeps [OF c1] .
  with connect_loop_keeps [OF c2] have same2: "?same c2" by (auto intro: lan_keeps_trans)
  let ?c3 = "upd_lan ?a (\<lambda>x. x\<lparr>bIsConnect := True\<rparr>) c2"
  have "lan_keeps ?a c2 ?c3" by (auto simp: lan_keeps_def)
  with same2 have same3: "?same ?c3" by (auto intro: lan_keeps_trans)
  have "?same c'"
  proof (cases "ok \<and> res = Some True \<and> snd script")
    case False
    with assms ks k c1 c2 same1 same2 same3 show ?thesis
      by (auto simp: Lan_Reconnecter_def Let_def split: if_splits option.splits bool.splits)
  next
    case True
    with assms ks k c1 c2 obtain r4 c4 where c4: "Lan_RecvPost ops ?a ?c3 = Inr (r4, c4)"
      and c': "c' = c4\<lparr>m_numOfReconnect := m_numOfReconnect c4 + 1, sessionReconnectIdList := tl (sessionReconnectIdList c4)\<rparr>"
      by (auto simp: Lan_Reconnecter_def Let_def outcome_simps)
    have "IOMode (lanHeap c4 b) = IOMode (lanHeap ?c3 b)" for b
      using Lan_RecvPost_keeps [OF c4] by (cases "b = ?a") (auto simp: lan_keeps_def)
    with same3 Lan_RecvPost_keeps [OF c4] have "?same c4" using lan_keeps_trans by metis
    moreover have "lan_keeps ?a c4 c'"
      unfolding c' lan_keeps_def by (cases "sessionReconnectIdList c4") auto
    ultimately show ?thesis using lan_keeps_trans by (auto simp: c')
  qed
  with k show ?thesis by blast
qed

text \<open>The invariant: ids are positions, and only ids of sessions wait for Reconnecter.\<close>

definition lan_ids_ok :: "('r, 'q) lan_client \<Rightarrow> bool" where
  "lan_ids_ok c \<longleftrightarrow>
     (\<forall>i < length (sessionList c). m_SessionId (lanHeap c (sessionList c ! i)) = of_nat i) \<and>
     length (sessionList c) \<le> 255 \<and>
     (\<forall>k \<in> set (sessionReconnectIdList c). unat k < length (sessionList c))"

lemma lan_keeps_ids:
  assumes "lan_keeps (sessionList c ! i) c c'" and "i < length (sessionList c)" and "lan_ids_ok c"
  shows "lan_ids_ok c'"
proof -
  from assms(2,3) have "unat (m_SessionId (lanHeap c (sessionList c ! i))) = i"
    by (simp add: lan_ids_ok_def unat_of_nat)
  with assms show ?thesis unfolding lan_ids_ok_def lan_keeps_def by auto
qed

inductive lan_step ::
  "('r, 'q) lan_ops \<Rightarrow> (CSerializationBuf \<Rightarrow> 'w \<Rightarrow> 'w outcome) \<Rightarrow> ('r, 'q) lan_client \<Rightarrow> ('r, 'q) lan_client \<Rightarrow> bool"
  for ops onRecv where
  lan_send: "Lan_SendPacketImpl ops p k c = Inr (r, c') \<Longrightarrow> lan_step ops onRecv c c'"
| lan_complete: "Lan_Worker ops onRecv result c w = Some (Inr (go_on, c', w')) \<Longrightarrow> lan_step ops onRecv c c'"
| lan_reconnect: "Lan_Reconnecter ops script c = Inr (r, c') \<Longrightarrow> lan_step ops onRecv c c'"

inductive lan_reach ::
  "('r, 'q) lan_ops \<Rightarrow> (CSerializationBuf \<Rightarrow> 'w \<Rightarrow> 'w outcome) \<Rightarrow> ('r, 'q) lan_client \<Rightarrow> ('r, 'q) lan_client \<Rightarrow> bool"
  for ops onRecv c where
  lan_refl: "lan_reach ops onRecv c c"
| lan_step: "lan_reach ops onRecv c c' \<Longrightarrow> lan_step ops onRecv c' c'' \<Longrightarrow> lan_reach ops onRecv c c''"

lemma lan_step_ids: "lan_step ops onRecv c c' \<Longrightarrow> lan_ids_ok c \<Longrightarrow> lan_ids_ok c'"
proof (induction rule: lan_step.induct)
  case (lan_send p k c r c')
  with Lan_SendPacketImpl_keeps [OF lan_send(1)] lan_keeps_ids show ?case by blast
next
  case (lan_complete result c w go_on c' w')
  obtain t key ov where "result = (t, key, ov)" by (cases result)
  from Lan_Worker_keeps [OF lan_complete(1) [unfolded this]] show ?case
  proof
    assume "\<exists>p. c' = c\<lparr>port := p\<rparr>"
    with lan_complete(2) show ?case by (auto simp: lan_ids_ok_def)
  qed (use lan_complete(2) lan_keeps_ids in blast)
next
  case (lan_reconnect script c r c')
  with Lan_Reconnecter_keeps [OF this(1)] lan_keeps_ids show ?case by blast
qed

lemma lan_reach_ids: "lan_reach ops onRecv c c' \<Longrightarrow> lan_ids_ok c \<Longrightarrow> lan_ids_ok c'"
  by (induction rule: lan_reach.induct) (simp_all add: lan_step_ids)

lemma Lan_start_session_ids:
  assumes "Lan_start_session ops script a c = Inr (Some True, c')"
  shows "sessionList c' = sessionList c \<and> m_sessionIdGenerator c' = m_sessionIdGenerator c + 1 \<and>
    m_byNumOfUsingWorkerThread c' = m_byNumOfUsingWorkerThread c \<and>
    m_SessionId (lanHeap c' a) = m_sessionIdGenerator c \<and>
    (\<forall>b. b \<noteq> a \<longrightarrow> m_SessionId (lanHeap c' b) = m_SessionId (lanHeap c b)) \<and>
    set (sessionReconnectIdList c') \<subseteq> {m_sessionIdGenerator c, m_SessionId (lanHeap c a)} \<union> set (sessionReconnectIdList c)"
proof -
  obtain ok c1 where c1: "lan_new_socket ops a c = (ok, c1)" by fastforce
  obtain res c2 where c2: "connect_loop ops a (fst script) c1 = (res, c2)" by fastforce
  let ?c3 = "(upd_lan a (\<lambda>x. x\<lparr>bIsConnect := True, lBufferCount := 0, IOMode := NONSENDING,
      m_SessionId := m_sessionIdGenerator c2\<rparr>) c2)\<lparr>m_sessionIdGenerator := m_sessionIdGenerator c2 + 1\<rparr>"
  from assms c1 c2 obtain r where post: "Lan_RecvPost ops a ?c3 = Inr (r, c')"
    by (auto simp: Lan_start_session_def Let_def outcome_simps split: if_splits option.splits bool.splits)
  have 1: "lan_keeps a c c2"
    using lan_new_socket_keeps [OF c1] connect_loop_keeps [OF c2] by (auto intro: lan_keeps_trans)
  have 2: "lan_keeps a ?c3 c'" using Lan_RecvPost_keeps [OF post] by simp
  have "set (sessionReconnectIdList c') \<subseteq> insert (m_sessionIdGenerator c) (set (sessionReconnectIdList c2))"
    using 1 2 by (simp add: lan_keeps_def)
  moreover have "set (sessionReconnectIdList c2) \<subseteq> insert (m_SessionId (lanHeap c a)) (set (sessionReconnectIdList c))"
    using 1 by (simp add: lan_keeps_def)
  ultimately have "set (sessionReconnectIdList c') \<subseteq> {m_sessionIdGenerator c, m_SessionId (lanHeap c a)} \<union> set (sessionReconnectIdList c)"
    by auto
  with 1 2 show ?thesis by (simp add: lan_keeps_def)
qed

lemma Lan_start_sessions_ids:
  "Lan_start_sessions ops scripts [i..<n] c = Inr (Some True, c') \<Longrightarrow> i \<le> n \<Longrightarrow> n \<le> 255 \<Longrightarrow>
   m_sessionIdGenerator c = of_nat i \<Longrightarrow> \<forall>j < i. m_SessionId (lanHeap c j) = of_nat j \<Longrightarrow>
   \<forall>j < n. unat (m_SessionId (lanHeap c j)) < n \<Longrightarrow> \<forall>k \<in> set (sessionReconnectIdList c). unat k < n \<Longrightarrow>
   sessionList c' = sessionList c \<and> m_byNumOfUsingWorkerThread c' = m_byNumOfUsingWorkerThread c \<and>
   (\<forall>j < n. m_SessionId (lanHeap c' j) = of_nat j) \<and>
   (\<forall>k \<in> set (sessionReconnectIdList c'). unat k < n)"
proof (induction "n - i" arbitrary: scripts i c)
  case (Suc d)
  then have i: "i < n" "[i..<n] = i # [Suc i..<n]" by (simp_all add: upt_conv_Cons)
  from Suc.prems(1) obtain script scripts' where s: "scripts = script # scripts'"
    unfolding i(2) by (cases scripts) auto
  from Suc.prems(1) obtain r c1 where "Lan_start_session ops script i c = Inr (r, c1)"
    and "(if r = Some True then Lan_start_sessions ops scripts' [Suc i..<n] c1 else Inr (r, c1)) = Inr (Some True, c')"
    unfolding i(2) s by (auto simp: outcome_simps)
  then have 1: "Lan_start_session ops script i c = Inr (Some True, c1)"
    and 2: "Lan_start_sessions ops scripts' [Suc i..<n] c1 = Inr (Some True, c')" by (auto split: if_splits)
  note ids = Lan_start_session_ids [OF 1]
  have u: "unat (of_nat i :: u64) = i" using i(1) Suc.prems(3) by (simp add: unat_of_nat)
  have 3: "m_SessionId (lanHeap c1 i) = of_nat i" "\<forall>b. b \<noteq> i \<longrightarrow> m_SessionId (lanHeap c1 b) = m_SessionId (lanHeap c b)"
    using ids Suc.prems(4) by simp_all
  have "\<forall>j < Suc i. m_SessionId (lanHeap c1 j) = of_nat j"
    using 3 Suc.prems(5) by (metis less_Suc_eq)
  moreover have "\<forall>j < n. unat (m_SessionId (lanHeap c1 j)) < n"
    using 3 u i(1) Suc.prems(6) by metis
  moreover have "\<forall>k \<in> set (sessionReconnectIdList c1). unat k < n"
    using ids Suc.prems(4,6,7) u i(1) by auto
  moreover have "d = n - Suc i" "Suc i \<le> n" using Suc.hyps(2) i(1) by linarith+
  moreover have "m_sessionIdGenerator c1 = of_nat (Suc i)" using ids Suc.prems(4) by (simp add: add.commute)
  ultimately have "sessionList c' = sessionList c1 \<and> m_byNumOfUsingWorkerThread c' = m_byNumOfUsingWorkerThread c1 \<and> (\<forall>j < n. m_SessionId (lanHeap c' j) = of_nat j) \<and>
      (\<forall>k \<in> set (sessionReconnectIdList c'). unat k < n)"
    using Suc.hyps(1) [OF _ 2 _ Suc.prems(3)] by blast
  with ids show ?case by simp
qed simp

lemma Lan_Start_ids:
  assumes "Lan_Start ops garbage scripts c = Inr (Some True, c')" and "m_sessionIdGenerator c = 0"
    and "sessionReconnectIdList c = []"
  shows "lan_ids_ok c' \<and> sessionList c' = [0..<unat (m_byNumOfSession c)] \<and>
    m_byNumOfUsingWorkerThread c' = m_byNumOfUsingWorkerThread c"
proof -
  let ?n = "unat (m_byNumOfSession c)"
  have "?n < 2 ^ LENGTH(8)" by (rule unsigned_less)
  then have n: "?n \<le> 255" by simp
  let ?c = "c\<lparr>lanHeap := (\<lambda>a. if a < ?n then new_session ops garbage else lanHeap c a), sessionList := [0..<?n],
    m_numOfReconnect := 0\<rparr>"
  have "Lan_start_sessions ops scripts [0..<?n] ?c = Inr (Some True, c')"
    using assms(1) by (simp add: Lan_Start_def Let_def)
  note run = this
  have "sessionList c' = sessionList ?c \<and> m_byNumOfUsingWorkerThread c' = m_byNumOfUsingWorkerThread ?c \<and> (\<forall>j < ?n. m_SessionId (lanHeap c' j) = of_nat j) \<and>
      (\<forall>k \<in> set (sessionReconnectIdList c'). unat k < ?n)"
    by (rule Lan_start_sessions_ids [OF run _ n]) (use assms(2,3) in \<open>auto simp: new_session_def\<close>)
  then show ?thesis by (simp add: lan_ids_ok_def n)
qed

text \<open>
  C29: After Start, whatever packets are sent, completions arrive and reconnections are made, the
  id of a session is its position in \<open>sessionList\<close>, and every id that waits for Reconnecter is
  the position of a session: the index that Reconnecter uses is never out of range.
\<close>

theorem lan_session_ids:
  assumes "Lan_Start ops garbage scripts c = Inr (Some True, c0)" and "m_sessionIdGenerator c = 0"
    and "sessionReconnectIdList c = []" and "lan_reach ops onRecv c0 c'"
  shows "(\<forall>i < length (sessionList c'). m_SessionId (lanHeap c' (sessionList c' ! i)) = of_nat i) \<and>
    (\<forall>k \<in> set (sessionReconnectIdList c'). unat k < length (sessionList c'))"
proof -
  have "lan_ids_ok c'" using lan_reach_ids [OF assms(4)] Lan_Start_ids [OF assms(1-3)] by blast
  then show ?thesis by (simp add: lan_ids_ok_def)
qed

section \<open>Stopping\<close>

text \<open>
  Stop ends the process unless there is exactly one worker thread: the first worker that gets
  the message of Stop passes a completion without an OVERLAPPED on to the next one, which takes
  it for an error and calls \<open>g_Dump.Crash()\<close>. The options that the repository ships ask for
  four workers.
\<close>

lemma Stop_crashes:
  assumes "port c = []" and "0 < n"
  shows "Lan_workers ops onRecv n 2 (snd (Lan_Stop c)) w =
    (if n = 1 then Some (Inr (0, c\<lparr>stopClient := True, port := [(0, None, None)]\<rparr>, w))
     else Some (Inl Crash))"
proof -
  obtain m where n: "n = Suc m" using assms(2) by (cases n) auto
  show ?thesis
    using assms(1) by (cases m) (simp_all add: n Lan_Stop_def Lan_Worker_def numeral_2_eq_2)
qed

end
