(* ===== verification/LanErrors.thy ===== *)
theory LanErrors
  imports LanProps
begin

text \<open>
  The error paths of CMultiLanClient: a receive ring that fills
  up, a packet for a channel that is disconnected, and a channel after its reconnection.
\<close>

section \<open>A full receive ring\<close>

lemma free_bufs_alive:
  "distinct ps \<Longrightarrow> \<forall>p \<in> set ps. bufs c p \<noteq> None \<Longrightarrow>
   free_bufs (map Some ps) c = Inr (c\<lparr>bufs := bufs c |` (- set ps)\<rparr>)"
proof (induction ps arbitrary: c)
  case (Cons p ps)
  let ?c = "c\<lparr>bufs := (bufs c)(p := None)\<rparr>"
  have "\<forall>q \<in> set ps. bufs ?c q \<noteq> None" using Cons.prems by auto
  with Cons have "free_bufs (map Some ps) ?c = Inr (?c\<lparr>bufs := bufs ?c |` (- set ps)\<rparr>)" by auto
  moreover have "bufs ?c |` (- set ps) = bufs c |` (- set (p # ps))"
    by (rule ext) (simp add: restrict_map_def)
  moreover have "free_buf (Some p) c = Inr ?c" using Cons.prems(2) by (auto simp: free_buf_def)
  ultimately show ?case by simp
qed (simp add: restrict_map_def)

text \<open>
  A session with a receive and a send outstanding, the packets \<open>ps\<close> in the hands of the kernel
  and none in the queue.
\<close>

definition lan_sending_session :: "('r, 'q) lan_ops \<Rightarrow> nat list \<Rightarrow> nat \<Rightarrow> ('r, 'q) lan_client \<Rightarrow> bool" where
  "lan_sending_session ops ps a c \<longleftrightarrow>
     m_IOCount (lanHeap c a) = 2 \<and> lBufferCount (lanHeap c a) = int (length ps) \<and> ps \<noteq> [] \<and>
     take (length ps) (pSeirializeBufStore (lanHeap c a)) = map Some ps \<and> distinct ps \<and>
     (\<forall>p \<in> set ps. bufs c p \<noteq> None) \<and> q_GetRestSize (lo_queue ops) (SendQ (lanHeap c a)) = 0"

lemma release_sending_session:
  assumes "lan_sending_session ops ps a c"
  defines "c1 \<equiv> upd_lan a (\<lambda>x. x\<lparr>m_IOCount := 0\<rparr>) c"
  shows "\<exists>c'. Lan_ReleaseSession ops a c1 = Inr c' \<and> sessionList c' = sessionList c \<and>
    \<not> bIsConnect (lanHeap c' a) \<and> bufs c' (hd ps) = None \<and>
    lBufferCount (lanHeap c' a) = int (length ps) \<and> pSeirializeBufStore (lanHeap c' a) = pSeirializeBufStore (lanHeap c a)"
proof -
  let ?c = "upd_lan a (\<lambda>x. x\<lparr>bIsConnect := False\<rparr>) c1"
  have "free_bufs (map Some ps) ?c = Inr (?c\<lparr>bufs := bufs ?c |` (- set ps)\<rparr>)"
    by (rule free_bufs_alive) (use assms in \<open>auto simp: lan_sending_session_def\<close>)
  with assms show ?thesis
    by (auto simp: lan_sending_session_def Lan_ReleaseSession_def Lan_close_def Let_def)
qed

text \<open>
  C31: When a receive ring is full after a receive, RecvPost and its caller Worker both give back
  the reference of the receive. If a send is outstanding, then the session is released under it,
  its packets are freed, and the completion of the send frees them a second time. The ring fills
  up when the server announces a packet that is longer than the ring.
\<close>

theorem full_ring_frees_twice:
  assumes "k < length (sessionList c)" and "lan_sending_session ops ps (sessionList c ! k) c" and "t \<noteq> 0"
    and "rb_MoveWritePos (lo_ring ops) (uint t) (RingBuffer (lanHeap c (sessionList c ! k))) = ring"
    and "lan_recv_loop (lo_buf ops) (lo_ring ops) onRecv ring (rb_GetUseSize (lo_ring ops) ring) w = Some (Inr (ring', w'))"
    and "rb_IsFull (lo_ring ops) ring'"
  shows "\<exists>c'. Lan_Worker ops onRecv (t, Some k, Some (RecvOverlapped (sessionList c ! k))) c w = Some (Inr (True, c', w')) \<and>
    \<not> bIsConnect (lanHeap c' (sessionList c ! k)) \<and>
    Lan_Worker ops onRecv (t', Some k, Some (SendOverlapped (sessionList c ! k))) c' w' = Some (Inl UndefinedBehaviour)"
proof -
  let ?a = "sessionList c ! k"
  let ?c = "upd_lan ?a (\<lambda>x. x\<lparr>RingBuffer := ring'\<rparr>) c"
  have "lan_sending_session ops ps ?a ?c" using assms(2) by (simp add: lan_sending_session_def)
  from release_sending_session [OF this] obtain c' where
    rel: "Lan_ReleaseSession ops ?a (upd_lan ?a (\<lambda>x. x\<lparr>m_IOCount := 0\<rparr>) ?c) = Inr c'"
    and c': "sessionList c' = sessionList c" "\<not> bIsConnect (lanHeap c' ?a)" "bufs c' (hd ps) = None"
      "lBufferCount (lanHeap c' ?a) = int (length ps)"
      "pSeirializeBufStore (lanHeap c' ?a) = pSeirializeBufStore (lanHeap c ?a)"
    by auto
  have io: "m_IOCount (lanHeap c ?a) = 2" using assms(2) by (simp add: lan_sending_session_def)
  have "Lan_RecvPost ops ?a ?c = Inr (POST_RETVAL_ERR, upd_lan ?a (\<lambda>x. x\<lparr>m_IOCount := 1\<rparr>) ?c)"
    using assms(6) io by (simp add: Lan_RecvPost_def Lan_IOCount_down_def)
  then have "Lan_recv_part ops onRecv t ?a c w =
      Some (Inr (Some POST_RETVAL_ERR, upd_lan ?a (\<lambda>x. x\<lparr>m_IOCount := 1\<rparr>) ?c, w'))"
    using assms(3-5) by (simp add: Lan_recv_part_def)
  moreover have "Lan_IOCount_down ops ?a (upd_lan ?a (\<lambda>x. x\<lparr>m_IOCount := 1\<rparr>) ?c) = Inr (True, c')"
    using rel by (simp add: Lan_IOCount_down_def)
  ultimately have "Lan_Worker ops onRecv (t, Some k, Some (RecvOverlapped ?a)) c w = Some (Inr (True, c', w'))"
    using assms(1) by (simp add: Lan_Worker_def lan_consts)
  moreover have "take (length ps) (pSeirializeBufStore (lanHeap c' ?a)) = Some (hd ps) # map Some (tl ps)"
    using assms(2) c'(5) by (cases ps) (simp_all add: lan_sending_session_def)
  then have "Lan_send_part ops ?a c' = Inl UndefinedBehaviour"
    using c'(3,4) by (simp add: Lan_send_part_def free_buf_def)
  then have "Lan_Worker ops onRecv (t', Some k, Some (SendOverlapped ?a)) c' w' = Some (Inl UndefinedBehaviour)"
    using assms(1) c'(1) by (simp add: Lan_Worker_def)
  ultimately show ?thesis using c'(2) by blast
qed

section \<open>A disconnected channel\<close>

text \<open>A released session that waits for Reconnecter: no request, an empty queue, mode NONSENDING.\<close>

definition lan_released_session :: "('r, 'q) lan_ops \<Rightarrow> ('q \<Rightarrow> nat list) \<Rightarrow> nat \<Rightarrow> ('r, 'q) lan_client \<Rightarrow> bool" where
  "lan_released_session ops items a c \<longleftrightarrow>
     m_IOCount (lanHeap c a) = 0 \<and> IOMode (lanHeap c a) = NONSENDING \<and> items (SendQ (lanHeap c a)) = [] \<and>
     pSeirializeBufStore (lanHeap c a) \<noteq> [] \<and> m_bIsReconnect c"

text \<open>
  C32: SendPacket does not look at \<open>bIsConnect\<close>. A packet for a channel that has been released
  and waits for its reconnection is handed to WSASend; when that refuses the dead socket, the
  packet is freed, the session is released a second time and its id queued a second time for
  Reconnecter, and the mode of the channel stays SENDING. SendPacket answers true.
\<close>

theorem send_to_released_session:
  assumes "queue_laws (lo_queue ops) items" and "unat k < length (sessionList c)"
    and "lan_released_session ops items (sessionList c ! unat k) c"
    and "bufs c b \<noteq> None" and "lan_answer ops (lanCalls c) = LanRefused"
  shows "\<exists>c'. Lan_SendPacketImpl ops (Some b) k c = Inr (True, c') \<and> wsaSent c' = wsaSent c \<and> bufs c' b = None \<and>
    sessionReconnectIdList c' = sessionReconnectIdList c @ [m_SessionId (lanHeap c (sessionList c ! unat k))] \<and>
    IOMode (lanHeap c' (sessionList c ! unat k)) = SENDING"
proof -
  let ?a = "sessionList c ! unat k"
  let ?x = "lanHeap c ?a"
  obtain buf where buf: "bufs c b = Some buf" using assms(4) by auto
  let ?mem = "(bufs c)(b \<mapsto> lan_header (lo_buf ops) buf)"
  let ?q = "q_Enqueue (lo_queue ops) b (SendQ ?x)"
  have q: "items ?q = [b]" using assms(1,3) by (simp add: queue_laws_Enqueue lan_released_session_def)
  then obtain q' where q': "q_Dequeue (lo_queue ops) ?q = (Some b, q')" "items q' = []"
    using queue_laws_Dequeue [OF assms(1)] by blast
  have rest: "q_GetRestSize (lo_queue ops) ?q = 1" "q_GetRestSize (lo_queue ops) q' = 0"
    using queue_laws_GetRestSize [OF assms(1)] q q' by simp_all
  obtain e store where store: "pSeirializeBufStore ?x = e # store"
    using assms(3) by (cases "pSeirializeBufStore ?x") (auto simp: lan_released_session_def)
  have x: "m_IOCount ?x = 0" "IOMode ?x = NONSENDING" "m_bIsReconnect c"
    using assms(3) by (simp_all add: lan_released_session_def)
  let ?c = "upd_lan ?a (\<lambda>x. x\<lparr>SendQ := ?q\<rparr>) (c\<lparr>bufs := ?mem\<rparr>)"
  let ?send = "Lan_SendPost_send ops ?a 1 (upd_lan ?a (\<lambda>x. x\<lparr>IOMode := SENDING\<rparr>) ?c)"
  let ?c2 = "(upd_lan ?a (\<lambda>x. x\<lparr>IOMode := SENDING, SendQ := q', pSeirializeBufStore := Some b # store,
      lBufferCount := 1, m_IOCount := 1\<rparr>) (c\<lparr>bufs := ?mem\<rparr>))\<lparr>lanCalls := lanCalls c + 1\<rparr>"
  have send: "?send = Inr (LanRefused, ?c2)"
    using x assms(5) by (simp add: Lan_SendPost_send_def lan_consts q' store)
  let ?c3 = "(upd_lan ?a (\<lambda>x. x\<lparr>m_IOCount := 0, bIsConnect := False, m_sock := LAN_INVALID_SOCKET\<rparr>) ?c2)
    \<lparr>bufs := ?mem(b := None), lanClosed := lanClosed c @ [m_sock ?x],
     sessionReconnectIdList := sessionReconnectIdList c @ [m_SessionId ?x]\<rparr>"
  have "Lan_IOCount_down ops ?a ?c2 = Inr (True, ?c3)"
    using x by (simp add: Lan_IOCount_down_def Lan_ReleaseSession_def Lan_close_def rest free_buf_def)
  then have "Lan_SendPost ops ?a ?c = Inr (POST_RETVAL_ERR_SESSION_DELETED, ?c3)"
    using x send by (simp add: Lan_SendPost_flat rest)
  then have "Lan_SendPacketImpl ops (Some b) k c = Inr (True, ?c3)"
    using assms(2) by (simp add: Lan_SendPacketImpl_def Let_def buf)
  then show ?thesis by (intro exI [of _ ?c3]) simp
qed

text \<open>
  Reconnecter does not put the mode of a channel back, as Start does for a new one. A channel
  that was released while its mode was SENDING is never used again: after its reconnection
  SendPacket still answers true and hands nothing to WSASend.
\<close>

lemma reconnected_channel_stays_silent:
  assumes "IOMode (lanHeap c (sessionList c ! unat k)) \<noteq> NONSENDING"
    and "Lan_Reconnecter ops script c = Inr (r, c1)" and "unat k < length (sessionList c)" and "bufs c1 b \<noteq> None"
  shows "\<exists>c2. Lan_SendPacketImpl ops (Some b) k c1 = Inr (True, c2) \<and> wsaSent c2 = wsaSent c1 \<and>
    IOMode (lanHeap c2 (sessionList c ! unat k)) \<noteq> NONSENDING"
proof -
  have same: "sessionList c1 = sessionList c" "IOMode (lanHeap c1 (sessionList c ! unat k)) \<noteq> NONSENDING"
    using Lan_Reconnecter_keeps [OF assms(2)] assms(1) by (auto simp: lan_keeps_def)
  obtain buf where "bufs c1 b = Some buf" using assms(4) by auto
  with same assms(3) show ?thesis by (simp add: Lan_SendPacketImpl_def Lan_SendPost_busy Let_def)
qed

end
