(* ===== verification/LanSends.thy ===== *)
theory LanSends
  imports LanErrors
begin

text \<open>
  The send side of a channel of CMultiLanClient, over runs of SendPacket and of the worker's rounds
  with completed sends: SendPost takes at most 200 packets from the queue for one WSASend
  and leaves the mode SENDING; the completion frees them, puts the mode back and sends the next.
  The operations of a run do not overlap.
\<close>

section \<open>One WSASend\<close>

text \<open>What WSASend gets of a packet: its header and its payload.\<close>

definition lan_wire :: "lan_buf_ops \<Rightarrow> CSerializationBuf \<Rightarrow> u8 list" where
  "lan_wire lb buf = take (nat (lb_GetAllUseSize lb buf)) (lb_GetBufferPtr lb buf)"

lemma take_batch_value:
  assumes "queue_laws qo items"
  shows "n \<le> length (items q) \<Longrightarrow> i + n \<le> length store \<Longrightarrow> \<forall>b \<in> set (items q). mem b = Some (buf b) \<Longrightarrow>
    \<exists>q'. items q' = drop n (items q) \<and> take_batch lb qo mem n i q store =
      Inr (map (\<lambda>b. lan_wire lb (buf b)) (take n (items q)), q', take i store @ map Some (take n (items q)) @ drop (i + n) store)"
proof (induction n arbitrary: i q store)
  case (Suc n)
  obtain p ps where q: "items q = p # ps" using Suc.prems(1) by (cases "items q") auto
  obtain q1 where q1: "q_Dequeue qo q = (Some p, q1)" "items q1 = ps"
    using queue_laws_Dequeue [OF assms q] by blast
  have i: "i < length store" using Suc.prems(2) by simp
  have "\<exists>q'. items q' = drop n (items q1) \<and> take_batch lb qo mem n (i + 1) q1 (store[i := Some p]) =
      Inr (map (\<lambda>b. lan_wire lb (buf b)) (take n (items q1)), q',
        take (i + 1) (store[i := Some p]) @ map Some (take n (items q1)) @ drop (i + 1 + n) (store[i := Some p]))"
    by (rule Suc.IH) (use Suc.prems q q1(2) in auto)
  then obtain q' where q': "items q' = drop n ps" "take_batch lb qo mem n (i + 1) q1 (store[i := Some p]) =
      Inr (map (\<lambda>b. lan_wire lb (buf b)) (take n ps), q',
        take (i + 1) (store[i := Some p]) @ map Some (take n ps) @ drop (i + 1 + n) (store[i := Some p]))"
    unfolding q1(2) by blast
  have "take (i + 1) (store[i := Some p]) = take i store @ [Some p]"
    using i by (simp add: take_Suc_conv_app_nth)
  moreover have "mem p = Some (buf p)" using Suc.prems(3) q by simp
  ultimately show ?case
    using q q1 q' i by (intro exI [of _ q']) (simp add: lan_wire_def Let_def)
qed simp

lemma Lan_SendPost_sends:
  assumes "queue_laws (lo_queue ops) items" and "IOMode (lanHeap c a) = NONSENDING"
    and "items (SendQ (lanHeap c a)) = ps" and "ps \<noteq> []" and "\<forall>b \<in> set ps. bufs c b = Some (buf b)"
    and "length (pSeirializeBufStore (lanHeap c a)) = 200" and "lan_answer ops (lanCalls c) = LanAccepted"
  obtains q store where "items q = drop 200 ps" and "length store = 200"
    and "take (length (take 200 ps)) store = map Some (take 200 ps)"
    and "Lan_SendPost ops a c = Inr (POST_RETVAL_COMPLETE,
      (upd_lan a (\<lambda>x. x\<lparr>IOMode := SENDING, SendQ := q, pSeirializeBufStore := store,
         lBufferCount := int (length (take 200 ps)), m_IOCount := m_IOCount x + 1\<rparr>) c)
        \<lparr>lanCalls := lanCalls c + 1,
         wsaSent := wsaSent c @ [(a, map (\<lambda>b. lan_wire (lo_buf ops) (buf b)) (take 200 ps))]\<rparr>)"
proof -
  let ?x = "lanHeap c a" and ?n = "length (take 200 ps)"
  let ?store = "map Some (take ?n ps) @ drop ?n (pSeirializeBufStore ?x)"
  have tk: "take ?n ps = take 200 ps" "take (min (length ps) 200) ps = take 200 ps" by (simp_all add: min_def)
  obtain q where q: "items q = drop ?n ps" "take_batch (lo_buf ops) (lo_queue ops) (bufs c) ?n 0 (SendQ ?x) (pSeirializeBufStore ?x) =
      Inr (map (\<lambda>b. lan_wire (lo_buf ops) (buf b)) (take ?n ps), q, ?store)"
    using take_batch_value [OF assms(1), of ?n "SendQ ?x" 0 "pSeirializeBufStore ?x" "bufs c" buf] assms(3,5,6) by auto
  have rest: "q_GetRestSize (lo_queue ops) (SendQ ?x) = int (length ps)"
    using queue_laws_GetRestSize [OF assms(1)] assms(3) by simp
  have n: "nat (if IOCP_ONE_SEND_WSABUF_MAX < int (length ps) then IOCP_ONE_SEND_WSABUF_MAX else int (length ps)) = ?n"
    "(if IOCP_ONE_SEND_WSABUF_MAX < int (length ps) then IOCP_ONE_SEND_WSABUF_MAX else int (length ps)) = int ?n"
    by (simp_all add: IOCP_ONE_SEND_WSABUF_MAX_def)
  have len: "length ?store = 200" "take ?n ?store = map Some (take 200 ps)"
    using assms(6) by (simp_all add: tk)
  let ?c2 = "(upd_lan a (\<lambda>x. x\<lparr>IOMode := SENDING, SendQ := q, pSeirializeBufStore := ?store,
      lBufferCount := int ?n, m_IOCount := m_IOCount x + 1\<rparr>) c)
    \<lparr>lanCalls := lanCalls c + 1, wsaSent := wsaSent c @ [(a, map (\<lambda>b. lan_wire (lo_buf ops) (buf b)) (take 200 ps))]\<rparr>"
  have "Lan_SendPost_send ops a (int (length ps)) (upd_lan a (\<lambda>x. x\<lparr>IOMode := SENDING\<rparr>) c) = Inr (LanAccepted, ?c2)"
    using q(2) assms(7) unfolding Lan_SendPost_send_def Let_def n
    by (simp add: tk del: length_take)
  then have "Lan_SendPost ops a c = Inr (POST_RETVAL_COMPLETE, ?c2)"
    using assms(2,4) rest unfolding Lan_SendPost_flat Let_def by (simp del: length_take)
  moreover have "items q = drop 200 ps" using q(1) by (cases "length ps \<le> 200") auto
  ultimately show thesis using that [of q ?store] len by blast
qed

section \<open>A channel in use\<close>

text \<open>
  A channel with a receive outstanding; \<open>f\<close> are the packets in the hands of the kernel and \<open>ps\<close>
  those in the queue. The mode is SENDING exactly while a send is outstanding, and only then
  packets wait in the queue.
\<close>

definition lan_channel ::
  "('r, 'q) lan_ops \<Rightarrow> ('q \<Rightarrow> nat list) \<Rightarrow> (nat \<Rightarrow> CSerializationBuf) \<Rightarrow> nat \<Rightarrow> nat list \<Rightarrow> nat list \<Rightarrow>
   ('r, 'q) lan_client \<Rightarrow> bool" where
  "lan_channel ops items buf a f ps c \<longleftrightarrow>
     (let x = lanHeap c a
      in items (SendQ x) = ps \<and> length (pSeirializeBufStore x) = 200 \<and> lBufferCount x = int (length f) \<and>
         take (length f) (pSeirializeBufStore x) = map Some f \<and>
         IOMode x = (if f = [] then NONSENDING else SENDING) \<and> m_IOCount x = (if f = [] then 1 else 2) \<and>
         (f = [] \<longrightarrow> ps = []) \<and> distinct (f @ ps) \<and> (\<forall>b \<in> set (f @ ps). bufs c b = Some (buf b)))"

text \<open>SendPost on a channel whose mode is NONSENDING, with a receive outstanding.\<close>

lemma Lan_SendPost_channel:
  assumes "queue_laws (lo_queue ops) items" and "\<And>n. lan_answer ops n = LanAccepted"
    and "IOMode (lanHeap c a) = NONSENDING" and "items (SendQ (lanHeap c a)) = ps"
    and "length (pSeirializeBufStore (lanHeap c a)) = 200" and "lBufferCount (lanHeap c a) = 0"
    and "m_IOCount (lanHeap c a) = io" and "distinct ps" and "\<forall>b \<in> set ps. bufs c b = Some (buf b)"
  shows "\<exists>c'. Lan_SendPost ops a c = Inr (POST_RETVAL_COMPLETE, c') \<and> bufs c' = bufs c \<and>
    sessionList c' = sessionList c \<and> m_IOCount (lanHeap c' a) = (if ps = [] then io else io + 1) \<and>
    lan_channel ops items buf a (take 200 ps) (drop 200 ps)
      (upd_lan a (\<lambda>x. x\<lparr>m_IOCount := if ps = [] then 1 else 2\<rparr>) c') \<and>
    wsaSent c' = wsaSent c @ (if ps = [] then [] else [(a, map (\<lambda>b. lan_wire (lo_buf ops) (buf b)) (take 200 ps))])"
proof (cases "ps = []")
  case True
  then have "q_GetRestSize (lo_queue ops) (SendQ (lanHeap c a)) = 0"
    using queue_laws_GetRestSize [OF assms(1)] assms(4) by simp
  with True assms show ?thesis
    by (simp add: Lan_SendPost_flat Let_def lan_channel_def)
next
  case False
  from Lan_SendPost_sends [OF assms(1,3,4) False assms(9,5,2)] obtain q store where
    q: "items q = drop 200 ps" "length store = 200" "take (length (take 200 ps)) store = map Some (take 200 ps)"
    "Lan_SendPost ops a c = Inr (POST_RETVAL_COMPLETE,
      (upd_lan a (\<lambda>x. x\<lparr>IOMode := SENDING, SendQ := q, pSeirializeBufStore := store,
         lBufferCount := int (length (take 200 ps)), m_IOCount := m_IOCount x + 1\<rparr>) c)
        \<lparr>lanCalls := lanCalls c + 1,
         wsaSent := wsaSent c @ [(a, map (\<lambda>b. lan_wire (lo_buf ops) (buf b)) (take 200 ps))]\<rparr>)"
    by blast
  have "set (take 200 ps @ drop 200 ps) = set ps" by (simp only: append_take_drop_id)
  moreover have "distinct (take 200 ps @ drop 200 ps)" using assms(8) by (simp only: append_take_drop_id)
  ultimately show ?thesis
    using False q assms(7,9) by (simp add: lan_channel_def Let_def del: length_take set_append distinct_append)
qed

text \<open>
  What an operation does to the channel: the packets \<open>new\<close> are posted behind those in the queue,
  batches \<open>Bs\<close> of the queue go to WSASend, and the packets \<open>freed\<close> of the sends that
  completed are freed.
\<close>

definition channel_moves ::
  "('r, 'q) lan_ops \<Rightarrow> ('q \<Rightarrow> nat list) \<Rightarrow> (nat \<Rightarrow> CSerializationBuf) \<Rightarrow> nat \<Rightarrow> nat list \<Rightarrow>
   nat list \<times> nat list \<times> ('r, 'q) lan_client \<Rightarrow> nat list \<times> nat list \<times> ('r, 'q) lan_client \<Rightarrow> bool" where
  "channel_moves ops items buf a new = (\<lambda>(f, ps, c) (f', ps', c').
     sessionList c' = sessionList c \<and> lan_channel ops items (\<lambda>b. lan_header (lo_buf ops) (buf b)) a f' ps' c' \<and>
     (\<forall>b. b \<notin> set (f @ ps @ new) \<longrightarrow> bufs c' b = bufs c b) \<and>
     (\<exists>freed Bs. f @ ps @ new = freed @ f' @ ps' \<and> (\<forall>b \<in> set freed. bufs c' b = None) \<and>
        ps @ new = concat Bs @ ps' \<and> (\<forall>B \<in> set Bs. length B \<le> 200) \<and>
        wsaSent c' = wsaSent c @
          map (\<lambda>B. (a, map (\<lambda>b. lan_wire (lo_buf ops) (lan_header (lo_buf ops) (buf b))) B)) Bs))"

lemma channel_moves_refl:
  "lan_channel ops items (\<lambda>b. lan_header (lo_buf ops) (buf b)) a f ps c \<Longrightarrow>
   channel_moves ops items buf a [] (f, ps, c) (f, ps, c)"
  by (simp add: channel_moves_def)

lemma channel_moves_trans:
  assumes "channel_moves ops items buf a n1 (f, ps, c) (f1, ps1, c1)"
    and "channel_moves ops items buf a n2 (f1, ps1, c1) (f2, ps2, c2)" and "distinct (f @ ps @ n1 @ n2)"
  shows "channel_moves ops items buf a (n1 @ n2) (f, ps, c) (f2, ps2, c2)"
proof -
  from assms(1) obtain fr Bs where 1: "sessionList c1 = sessionList c"
    "\<forall>b. b \<notin> set (f @ ps @ n1) \<longrightarrow> bufs c1 b = bufs c b"
    "f @ ps @ n1 = fr @ f1 @ ps1" "\<forall>b \<in> set fr. bufs c1 b = None" "ps @ n1 = concat Bs @ ps1"
    "\<forall>B \<in> set Bs. length B \<le> 200"
    "wsaSent c1 = wsaSent c @ map (\<lambda>B. (a, map (\<lambda>b. lan_wire (lo_buf ops) (lan_header (lo_buf ops) (buf b))) B)) Bs"
    unfolding channel_moves_def split_conv by (elim exE conjE) (rule that)
  from assms(2) obtain fr' Bs' where 2: "sessionList c2 = sessionList c1"
    "lan_channel ops items (\<lambda>b. lan_header (lo_buf ops) (buf b)) a f2 ps2 c2"
    "\<forall>b. b \<notin> set (f1 @ ps1 @ n2) \<longrightarrow> bufs c2 b = bufs c1 b"
    "f1 @ ps1 @ n2 = fr' @ f2 @ ps2" "\<forall>b \<in> set fr'. bufs c2 b = None" "ps1 @ n2 = concat Bs' @ ps2"
    "\<forall>B \<in> set Bs'. length B \<le> 200"
    "wsaSent c2 = wsaSent c1 @ map (\<lambda>B. (a, map (\<lambda>b. lan_wire (lo_buf ops) (lan_header (lo_buf ops) (buf b))) B)) Bs'"
    unfolding channel_moves_def split_conv by (elim exE conjE) (rule that)
  have all: "f @ ps @ n1 @ n2 = fr @ f1 @ ps1 @ n2"
    using 1(3) by (metis append.assoc)
  then have all': "f @ ps @ n1 @ n2 = (fr @ fr') @ f2 @ ps2" using 2(4) by simp
  have "ps @ n1 @ n2 = (concat Bs @ ps1) @ n2" using 1(5) by (metis append.assoc)
  then have queue: "ps @ n1 @ n2 = concat (Bs @ Bs') @ ps2" using 2(6) by simp
  have sets: "set f \<union> (set ps \<union> (set n1 \<union> set n2)) = set fr \<union> (set f1 \<union> (set ps1 \<union> set n2))"
    using arg_cong [OF all, of set] by simp
  then have others: "\<forall>b. b \<notin> set (f @ ps @ n1 @ n2) \<longrightarrow> bufs c2 b = bufs c b"
    using 1(2) 2(3) by auto
  have "set fr \<inter> set (f1 @ ps1 @ n2) = {}" using assms(3) all by simp
  then have freed: "\<forall>b \<in> set (fr @ fr'). bufs c2 b = None"
    using 1(4) 2(3,5) by auto
  show ?thesis
    unfolding channel_moves_def split_conv
    using 1(1,7) 2(1,2,8) others all' freed queue 1(6) 2(7)
    by (intro conjI exI [of _ "fr @ fr'"] exI [of _ "Bs @ Bs'"]) (simp_all add: ball_Un)
qed

lemma lan_channel_sends:
  assumes "queue_laws (lo_queue ops) items" and "\<And>n. lan_answer ops n = LanAccepted"
    and "unat ch < length (sessionList c)" and a: "a = sessionList c ! unat ch"
    and "lan_channel ops items (\<lambda>b. lan_header (lo_buf ops) (buf b)) a f ps c"
    and "bufs c b = Some (buf b)" and "b \<notin> set (f @ ps)"
  shows "\<exists>c' f' ps'. Lan_SendPacketImpl ops (Some b) ch c = Inr (True, c') \<and>
    channel_moves ops items buf a [b] (f, ps, c) (f', ps', c')"
proof -
  let ?buf = "\<lambda>b. lan_header (lo_buf ops) (buf b)"
  let ?c = "upd_lan a (\<lambda>x. x\<lparr>SendQ := q_Enqueue (lo_queue ops) b (SendQ x)\<rparr>) (c\<lparr>bufs := (bufs c)(b \<mapsto> ?buf b)\<rparr>)"
  have q: "items (q_Enqueue (lo_queue ops) b (SendQ (lanHeap c a))) = ps @ [b]"
    using assms(1,5) by (simp add: queue_laws_Enqueue lan_channel_def Let_def)
  have impl: "Lan_SendPacketImpl ops (Some b) ch c = obind (Lan_SendPost ops a ?c) (\<lambda>(_, c). Inr (True, c))"
    using assms(3,6) a by (simp add: Lan_SendPacketImpl_def Let_def)
  show ?thesis
  proof (cases "f = []")
    case True
    with assms(5) have ch: "ps = []" "IOMode (lanHeap c a) = NONSENDING" "m_IOCount (lanHeap c a) = 1"
      "length (pSeirializeBufStore (lanHeap c a)) = 200" "lBufferCount (lanHeap c a) = 0"
      by (simp_all add: lan_channel_def Let_def)
    have "\<exists>c'. Lan_SendPost ops a ?c = Inr (POST_RETVAL_COMPLETE, c') \<and> bufs c' = bufs ?c \<and>
      sessionList c' = sessionList ?c \<and> m_IOCount (lanHeap c' a) = (if [b] = [] then 1 else 1 + 1) \<and>
      lan_channel ops items ?buf a (take 200 [b]) (drop 200 [b])
        (upd_lan a (\<lambda>x. x\<lparr>m_IOCount := if [b] = [] then 1 else 2\<rparr>) c') \<and>
      wsaSent c' = wsaSent ?c @ (if [b] = [] then [] else [(a, map (\<lambda>b. lan_wire (lo_buf ops) (?buf b)) (take 200 [b]))])"
      by (rule Lan_SendPost_channel [OF assms(1,2)]) (use ch q in simp_all)
    then obtain c' where c': "Lan_SendPost ops a ?c = Inr (POST_RETVAL_COMPLETE, c')" "bufs c' = bufs ?c"
      "sessionList c' = sessionList c" "m_IOCount (lanHeap c' a) = 2"
      "lan_channel ops items ?buf a [b] [] (upd_lan a (\<lambda>x. x\<lparr>m_IOCount := 2\<rparr>) c')"
      "wsaSent c' = wsaSent c @ [(a, [lan_wire (lo_buf ops) (?buf b)])]"
      by auto
    have "lan_channel ops items ?buf a [b] [] c'"
      using c'(4,5) by (simp add: lan_channel_def Let_def)
    then have "channel_moves ops items buf a [b] (f, ps, c) ([b], [], c')"
      using True ch(1) c'(2,3,6) by (auto simp: channel_moves_def intro!: exI [of _ "[[b]]"])
    with c'(1) impl show ?thesis
      by (intro exI [of _ c'] exI [of _ "[b]"] exI [of _ "[]"]) simp
  next
    case False
    with assms(5) have "IOMode (lanHeap ?c a) \<noteq> NONSENDING"
      by (simp add: lan_channel_def Let_def lan_consts)
    then have "Lan_SendPost ops a ?c = Inr (POST_RETVAL_COMPLETE, ?c)" by (rule Lan_SendPost_busy)
    moreover have "lan_channel ops items ?buf a f (ps @ [b]) ?c"
      using assms(5,7) q False by (simp add: lan_channel_def Let_def)
    then have "channel_moves ops items buf a [b] (f, ps, c) (f, ps @ [b], ?c)"
      by (auto simp: channel_moves_def intro!: exI [of _ "[]"])
    ultimately show ?thesis using impl
      by (intro exI [of _ ?c] exI [of _ f] exI [of _ "ps @ [b]"]) simp
  qed
qed

lemma lan_channel_completes:
  assumes "queue_laws (lo_queue ops) items" and "\<And>n. lan_answer ops n = LanAccepted"
    and "k < length (sessionList c)" and a: "a = sessionList c ! k"
    and "lan_channel ops items (\<lambda>b. lan_header (lo_buf ops) (buf b)) a f ps c" and "f \<noteq> []"
  shows "\<exists>c' f' ps'. Lan_Worker ops onRecv (t, Some k, Some (SendOverlapped a)) c w = Some (Inr (True, c', w)) \<and>
    channel_moves ops items buf a [] (f, ps, c) (f', ps', c')"
proof -
  let ?buf = "\<lambda>b. lan_header (lo_buf ops) (buf b)"
  let ?c = "upd_lan a (\<lambda>x. x\<lparr>lBufferCount := 0, IOMode := NONSENDING\<rparr>) (c\<lparr>bufs := bufs c |` (- set f)\<rparr>)"
  from assms(5,6) have ch: "items (SendQ (lanHeap c a)) = ps" "length (pSeirializeBufStore (lanHeap c a)) = 200"
    "lBufferCount (lanHeap c a) = int (length f)" "take (length f) (pSeirializeBufStore (lanHeap c a)) = map Some f"
    "m_IOCount (lanHeap c a) = 2" "distinct f" "distinct ps" "set f \<inter> set ps = {}"
    "\<forall>b \<in> set f. bufs c b = Some (?buf b)" "\<forall>b \<in> set ps. bufs c b = Some (?buf b)"
    by (auto simp: lan_channel_def Let_def)
  have "free_bufs (map Some f) c = Inr (c\<lparr>bufs := bufs c |` (- set f)\<rparr>)"
    by (rule free_bufs_alive) (use ch in auto)
  then have part: "Lan_send_part ops a c = Lan_SendPost ops a ?c"
    using ch(3,4) by (simp add: Lan_send_part_def Let_def)
  have "\<exists>c'. Lan_SendPost ops a ?c = Inr (POST_RETVAL_COMPLETE, c') \<and> bufs c' = bufs ?c \<and>
      sessionList c' = sessionList ?c \<and> m_IOCount (lanHeap c' a) = (if ps = [] then 2 else 2 + 1) \<and>
      lan_channel ops items ?buf a (take 200 ps) (drop 200 ps)
        (upd_lan a (\<lambda>x. x\<lparr>m_IOCount := if ps = [] then 1 else 2\<rparr>) c') \<and>
      wsaSent c' = wsaSent ?c @ (if ps = [] then [] else [(a, map (\<lambda>b. lan_wire (lo_buf ops) (?buf b)) (take 200 ps))])"
    by (rule Lan_SendPost_channel [OF assms(1,2)]) (use ch in \<open>auto simp: restrict_map_def\<close>)
  then obtain c' where c': "Lan_SendPost ops a ?c = Inr (POST_RETVAL_COMPLETE, c')" "bufs c' = bufs c |` (- set f)"
    "sessionList c' = sessionList c" "m_IOCount (lanHeap c' a) = (if ps = [] then 2 else 2 + 1)"
    "lan_channel ops items ?buf a (take 200 ps) (drop 200 ps) (upd_lan a (\<lambda>x. x\<lparr>m_IOCount := if ps = [] then 1 else 2\<rparr>) c')"
    "wsaSent c' = wsaSent c @ (if ps = [] then [] else [(a, map (\<lambda>b. lan_wire (lo_buf ops) (?buf b)) (take 200 ps))])"
    by auto
  let ?c2 = "upd_lan a (\<lambda>x. x\<lparr>m_IOCount := if ps = [] then 1 else 2\<rparr>) c'"
  have "Lan_IOCount_down ops a c' = Inr (False, ?c2)"
    using c'(4) by (simp add: Lan_IOCount_down_def Let_def)
  then have "Lan_Worker ops onRecv (t, Some k, Some (SendOverlapped a)) c w = Some (Inr (True, ?c2, w))"
    using assms(3) a part c'(1) by (simp add: Lan_Worker_def Let_def lan_consts)
  moreover have "channel_moves ops items buf a [] (f, ps, c) (take 200 ps, drop 200 ps, ?c2)"
    using c' by (auto simp: channel_moves_def restrict_map_def
        intro!: exI [of _ f] exI [of _ "if ps = [] then [] else [take 200 ps]"])
  ultimately show ?thesis by blast
qed

section \<open>Runs\<close>

text \<open>
  What happens to a channel: SendPacket with a packet, and the next completion of a send. There
  is no completion while none is outstanding.
\<close>

datatype channel_event = Sends nat | Completes u32

fun channel_run ::
  "('r, 'q) lan_ops \<Rightarrow> (CSerializationBuf \<Rightarrow> 'w \<Rightarrow> 'w outcome) \<Rightarrow> u64 \<Rightarrow> channel_event list \<Rightarrow> ('r, 'q) lan_client \<Rightarrow> 'w \<Rightarrow>
   (('r, 'q) lan_client \<times> 'w) outcome option" where
  "channel_run ops onRecv ch [] c w = Some (Inr (c, w))"
| "channel_run ops onRecv ch (Sends b # es) c w =
     rbind (Some (Lan_SendPacketImpl ops (Some b) ch c)) (\<lambda>(_, c). channel_run ops onRecv ch es c w)"
| "channel_run ops onRecv ch (Completes t # es) c w =
     (if lBufferCount (lanHeap c (sessionList c ! unat ch)) = 0 then channel_run ops onRecv ch es c w
      else rbind (Lan_Worker ops onRecv (t, Some (unat ch), Some (SendOverlapped (sessionList c ! unat ch))) c w)
        (\<lambda>(_, c, w). channel_run ops onRecv ch es c w))"

fun packets_of :: "channel_event list \<Rightarrow> nat list" where
  "packets_of [] = []"
| "packets_of (Sends b # es) = b # packets_of es"
| "packets_of (Completes t # es) = packets_of es"

lemma channel_run_moves:
  assumes laws: "queue_laws (lo_queue ops) items" "\<And>n. lan_answer ops n = LanAccepted"
  shows "unat ch < length (sessionList c) \<Longrightarrow> a = sessionList c ! unat ch \<Longrightarrow>
    lan_channel ops items (\<lambda>b. lan_header (lo_buf ops) (buf b)) a f ps c \<Longrightarrow>
    distinct (f @ ps @ packets_of es) \<Longrightarrow> \<forall>b \<in> set (packets_of es). bufs c b = Some (buf b) \<Longrightarrow>
    \<exists>c' f' ps'. channel_run ops onRecv ch es c w = Some (Inr (c', w)) \<and>
      channel_moves ops items buf a (packets_of es) (f, ps, c) (f', ps', c')"
proof (induction es arbitrary: c f ps)
  case Nil
  then show ?case by (intro exI [of _ c] exI [of _ f] exI [of _ ps]) (simp add: channel_moves_refl)
next
  case (Cons e es)
  have on: ?case
    if step: "channel_moves ops items buf a n (f, ps, c) (f1, ps1, c1)" and new: "packets_of (e # es) = n @ packets_of es"
      and run: "channel_run ops onRecv ch (e # es) c w = channel_run ops onRecv ch es c1 w" for n f1 ps1 c1
  proof -
    have c1: "sessionList c1 = sessionList c" "lan_channel ops items (\<lambda>b. lan_header (lo_buf ops) (buf b)) a f1 ps1 c1"
      "\<forall>b. b \<notin> set (f @ ps @ n) \<longrightarrow> bufs c1 b = bufs c b" "\<exists>fr. f @ ps @ n = fr @ f1 @ ps1"
      using step by (auto simp: channel_moves_def)
    then obtain fr where "(f @ ps @ n) @ packets_of es = (fr @ f1 @ ps1) @ packets_of es" by metis
    then have eq: "f @ ps @ packets_of (e # es) = fr @ f1 @ ps1 @ packets_of es" using new by simp
    have dist: "distinct (f1 @ ps1 @ packets_of es)" using Cons.prems(4) unfolding eq by simp
    have "distinct ((f @ ps @ n) @ packets_of es)" using Cons.prems(4) new by simp
    then have alive: "\<forall>b \<in> set (packets_of es). bufs c1 b = Some (buf b)"
      using c1(3) Cons.prems(5) new by auto
    have at: "unat ch < length (sessionList c1)" "a = sessionList c1 ! unat ch" using c1(1) Cons.prems(1,2) by simp_all
    from Cons.IH [OF at c1(2) dist alive] obtain c' f' ps' where
      "channel_run ops onRecv ch es c1 w = Some (Inr (c', w))"
      "channel_moves ops items buf a (packets_of es) (f1, ps1, c1) (f', ps', c')" by blast
    then show ?case
      using channel_moves_trans [OF step] Cons.prems(4) run new by metis
  qed
  show ?case
  proof (cases e)
    case (Sends b)
    then have "bufs c b = Some (buf b)" "b \<notin> set (f @ ps)" using Cons.prems(4,5) by auto
    from lan_channel_sends [OF laws Cons.prems(1,2,3) this] show ?thesis
      using on [of "[b]"] Sends by auto
  next
    case (Completes t)
    show ?thesis
    proof (cases "f = []")
      case True
      then have "lBufferCount (lanHeap c a) = 0" using Cons.prems(3) by (simp add: lan_channel_def Let_def)
      then show ?thesis
        using on [OF channel_moves_refl [OF Cons.prems(3)]] Completes Cons.prems(2) by simp
    next
      case False
      then have "lBufferCount (lanHeap c a) \<noteq> 0" using Cons.prems(3) by (simp add: lan_channel_def Let_def)
      with lan_channel_completes [OF laws Cons.prems(1,2,3) False, where onRecv = onRecv and t = t and w = w] show ?thesis
        using on [of "[]"] Completes Cons.prems(2) by auto
    qed
  qed
qed

text \<open>A channel at rest: one receive outstanding, no send, nothing in the queue.\<close>

definition lan_resting_channel :: "('q \<Rightarrow> nat list) \<Rightarrow> ('r, 'q) lan_session \<Rightarrow> bool" where
  "lan_resting_channel items x \<longleftrightarrow>
     IOMode x = NONSENDING \<and> m_IOCount x = 1 \<and> lBufferCount x = 0 \<and> items (SendQ x) = [] \<and>
     length (pSeirializeBufStore x) = 200"

text \<open>
  C28: A channel of CMultiLanClient that rests, on which WSASend accepts every request and whose
  operations do not overlap. Whatever packets are sent on it and whenever the sends complete, the
  packets go to WSASend in the order of the calls of SendPacket, each with its header, at most
  200 to a send; the others wait in the queue, and none waits while no send is outstanding. The
  buffers of the completed sends are freed, those of the outstanding send and of the queue are not.
\<close>

theorem lan_channel_in_order:
  assumes "queue_laws (lo_queue ops) items" and "\<And>n. lan_answer ops n = LanAccepted"
    and "unat ch < length (sessionList c)" and "a = sessionList c ! unat ch"
    and "lan_resting_channel items (lanHeap c a)"
    and "distinct (packets_of es)" and "\<And>b. b \<in> set (packets_of es) \<Longrightarrow> bufs c b = Some (buf b)"
  shows "\<exists>c' batches freed flying. channel_run ops onRecv ch es c w = Some (Inr (c', w)) \<and>
    wsaSent c' = wsaSent c @ map (\<lambda>B. (a, map (\<lambda>b. lan_wire (lo_buf ops) (lan_header (lo_buf ops) (buf b))) B)) batches \<and>
    (\<forall>B \<in> set batches. length B \<le> 200) \<and> concat batches = freed @ flying \<and>
    packets_of es = freed @ flying @ items (SendQ (lanHeap c' a)) \<and>
    lBufferCount (lanHeap c' a) = int (length flying) \<and>
    (flying = [] \<longrightarrow> items (SendQ (lanHeap c' a)) = []) \<and>
    (\<forall>b \<in> set (packets_of es). bufs c' b = None \<longleftrightarrow> b \<in> set freed)"
proof -
  have ch: "lan_channel ops items (\<lambda>b. lan_header (lo_buf ops) (buf b)) a [] [] c"
    using assms(5) by (simp add: lan_channel_def lan_resting_channel_def Let_def)
  have dist: "distinct ([] @ [] @ packets_of es)" using assms(6) by simp
  have alive: "\<forall>b \<in> set (packets_of es). bufs c b = Some (buf b)" using assms(7) by blast
  obtain c' f' ps' where run: "channel_run ops onRecv ch es c w = Some (Inr (c', w))"
    and "channel_moves ops items buf a (packets_of es) ([], [], c) (f', ps', c')"
    using channel_run_moves [OF assms(1,2,3,4) ch dist alive, where onRecv = onRecv and w = w] by blast
  then obtain freed Bs where c': "lan_channel ops items (\<lambda>b. lan_header (lo_buf ops) (buf b)) a f' ps' c'"
    "packets_of es = freed @ f' @ ps'" "\<forall>b \<in> set freed. bufs c' b = None" "packets_of es = concat Bs @ ps'"
    "\<forall>B \<in> set Bs. length B \<le> 200"
    "wsaSent c' = wsaSent c @ map (\<lambda>B. (a, map (\<lambda>b. lan_wire (lo_buf ops) (lan_header (lo_buf ops) (buf b))) B)) Bs"
    unfolding channel_moves_def split_conv append_Nil by (elim exE conjE) (rule that)
  from c'(1) have x: "items (SendQ (lanHeap c' a)) = ps'" "lBufferCount (lanHeap c' a) = int (length f')"
    "f' = [] \<longrightarrow> ps' = []" "\<forall>b \<in> set (f' @ ps'). bufs c' b \<noteq> None"
    by (auto simp: lan_channel_def Let_def)
  have "\<forall>b \<in> set (packets_of es). bufs c' b = None \<longleftrightarrow> b \<in> set freed"
  proof
    fix b assume b: "b \<in> set (packets_of es)"
    show "bufs c' b = None \<longleftrightarrow> b \<in> set freed"
    proof (cases "b \<in> set (f' @ ps')")
      case True
      then have "b \<notin> set freed" using assms(6) c'(2) by auto
      with True x(4) show ?thesis by blast
    next
      case False
      with b c'(2) have "b \<in> set freed" by simp
      with c'(3) show ?thesis by blast
    qed
  qed
  with run c' x show ?thesis
    by (intro exI [of _ c'] exI [of _ Bs] exI [of _ freed] exI [of _ f']) simp
qed


end
