(* ===== verification/LanRuns.thy ===== *)
theory LanRuns
  imports LanSends
begin

text \<open>
  Concrete runs of CMultiLanClient: a client with two channels on list-like rings and queues, with
  a network that accepts or refuses every request, at which the properties of LanProps,
  LanErrors and LanSends apply.
\<close>

definition plain_lan :: lan_buf_ops where
  "plain_lan = \<lparr>
     lb_Alloc = \<lparr>m_pSerializeBuffer = replicate 16 0, m_iRead = 0, m_iWrite = 2, m_iWriteLast = 0, m_bIsEncoded = False\<rparr>,
     lb_get_WORD = (\<lambda>b. (ucast (byte_at b (m_iRead b)) + 256 * ucast (byte_at b (m_iRead b + 1)),
       b\<lparr>m_iRead := m_iRead b + 2\<rparr>)),
     lb_put_WORD = (\<lambda>n b. b), lb_put = (\<lambda>f b. b), lb_get = (\<lambda>t b. (FUInt 0, b)),
     lb_GetUseSize = (\<lambda>b. m_iWrite b - m_iRead b), lb_GetAllUseSize = m_iWriteLast,
     lb_GetBufferPtr = m_pSerializeBuffer, lb_GetReadBufferPtr = (\<lambda>b. drop (nat (m_iRead b)) (m_pSerializeBuffer b)),
     lb_MoveWritePos = (\<lambda>n b. b\<lparr>m_iWrite := m_iWrite b + n\<rparr>), HEADER_SIZE = 2\<rparr>"

lemma plain_lan_laws: "lan_buf_laws plain_lan 14"
  unfolding lan_buf_laws_def by (auto simp: plain_lan_def)

lemma plain_lan_length: "lan_length plain_lan [l, h] = unat (ucast l + 256 * ucast h :: u16)"
  by (simp add: lan_length_def lan_with_header_def mem_put_def plain_lan_def byte_at_def Let_def)

definition demo_lan_ops :: "lan_answer \<Rightarrow> (u8 list, nat list) lan_ops" where
  "demo_lan_ops answer = \<lparr>lo_buf = plain_lan, lo_ring = list_ring, lo_empty_ring = [], lo_queue = list_queue,
     lo_empty_queue = [], lan_answer = (\<lambda>_. answer), lan_socket = (\<lambda>_. 7)\<rparr>"

lemma demo_lan_ops_simps [simp]:
  "lo_buf (demo_lan_ops an) = plain_lan" "lo_ring (demo_lan_ops an) = list_ring" "lo_queue (demo_lan_ops an) = list_queue"
  "lan_answer (demo_lan_ops an) n = an" "lan_socket (demo_lan_ops an) n = 7"
  by (simp_all add: demo_lan_ops_def)

text \<open>A session with given mode, reference count, ring and packets in the hands of the kernel.\<close>

definition demo_session :: "u32 \<Rightarrow> u32 \<Rightarrow> u8 list \<Rightarrow> nat list \<Rightarrow> (u8 list, nat list) lan_session" where
  "demo_session mode io ring ps = \<lparr>bIsConnect = False, m_IOCount = io, m_SessionId = 0, RingBuffer = ring,
     lBufferCount = int (length ps), IOMode = mode, SendQ = [], m_sock = 7,
     pSeirializeBufStore = map Some ps @ replicate (200 - length ps) None\<rparr>"

text \<open>A client whose two sessions are given, with three packets alive.\<close>

definition demo_client :: "(u8 list, nat list) lan_session \<Rightarrow> (u8 list, nat list) lan_client" where
  "demo_client x = \<lparr>m_byNumOfWorkerThread = 4, m_byNumOfUsingWorkerThread = 4, m_bIsNagleOn = False,
     m_bIsReconnect = True, m_numOfReconnect = 0, m_byNumOfSession = 2, m_sessionIdGenerator = 0,
     m_channelSelector = 0, lanHeap = (\<lambda>_. x), sessionList = [0, 1], sessionReconnectIdList = [],
     stopClient = False, bufs = (\<lambda>p. if p < 3 then Some blank_buffer else None), nextBuf = 3, port = [],
     lanCalls = 0, lanClosed = [], wsaSent = [], wsaRecvs = []\<rparr>"

section \<open>Receiving\<close>

lemma demo_frames: "lan_frames plain_lan [1, 0, 65, 2, 0, 66, 67, 9] = ([([1, 0], [65]), ([2, 0], [66, 67])], [9])"
  by (simp add: lan_frames.simps plain_lan_length)

theorem lan_recv_loop_delivers_witness:
  "\<exists>r'. r' = [9] \<and> lan_recv_loop plain_lan list_ring (\<lambda>b w. Inr (Suc w)) [1, 0, 65, 2, 0, 66, 67, 9] 8 0 = Some (Inr (r', 2))"
proof -
  have size: "rb_GetUseSize list_ring [1, 0, 65, 2, 0, 66, 67, 9] = 8" by (simp add: list_ring_def)
  from lan_recv_loop_delivers [OF plain_lan_laws list_ring_laws demo_frames, of "\<lambda>b w. Inr (Suc w)" 0]
  show ?thesis unfolding size by (auto simp: numeral_2_eq_2)
qed

theorem full_ring_frees_twice_witness:
  "\<exists>c'. Lan_Worker (demo_lan_ops LanAccepted) (\<lambda>b w. Inr w) (1, Some 0, Some (RecvOverlapped 0))
      (demo_client (demo_session SENDING 2 (200 # replicate 62 0) [0])) () = Some (Inr (True, c', ())) \<and>
    Lan_Worker (demo_lan_ops LanAccepted) (\<lambda>b w. Inr w) (1, Some 0, Some (SendOverlapped 0)) c' () =
      Some (Inl UndefinedBehaviour)"
proof -
  let ?x = "demo_session SENDING 2 (200 # replicate 62 0) [0]"
  let ?ring = "200 # replicate 63 (0 :: u8)"
  have t2: "take 2 ?ring = [200, 0]" by (simp add: numeral_2_eq_2 take_Cons')
  have "lan_recv_loop plain_lan list_ring (\<lambda>b w. Inr w) ?ring (int (length ?ring)) () = Some (Inr (?ring, ()))"
    by (rule lan_recv_loop_waits [OF plain_lan_laws list_ring_laws]) (simp_all add: t2 plain_lan_length)
  then have loop: "lan_recv_loop plain_lan list_ring (\<lambda>b w. Inr w) ?ring (rb_GetUseSize list_ring ?ring) () = Some (Inr (?ring, ()))"
    by (simp add: list_ring_def)
  have "lan_sending_session (demo_lan_ops LanAccepted) [0] 0 (demo_client ?x)"
    by (simp add: lan_sending_session_def demo_client_def demo_session_def list_queue_def)
  moreover have "rb_MoveWritePos list_ring 1 (200 # replicate 62 0) = ?ring"
    using replicate_add [of 62 1 "0 :: u8"] by (simp add: list_ring_def)
  ultimately show ?thesis
    using full_ring_frees_twice [of 0 "demo_client ?x" "demo_lan_ops LanAccepted" "[0]" 1 ?ring "\<lambda>b w. Inr w" "()" ?ring "()" 1] loop
    by (auto simp: demo_client_def demo_session_def list_ring_def)
qed

section \<open>Disconnected channels\<close>

theorem send_to_released_session_witness:
  "\<exists>c'. Lan_SendPacketImpl (demo_lan_ops LanRefused) (Some 0) 1 (demo_client (demo_session NONSENDING 0 [] [])) = Inr (True, c') \<and>
    sessionReconnectIdList c' = [0] \<and> IOMode (lanHeap c' 1) = SENDING"
  using send_to_released_session [of "demo_lan_ops LanRefused" "\<lambda>q. q" 1
      "demo_client (demo_session NONSENDING 0 [] [])" 0]
  by (auto simp: demo_client_def demo_session_def lan_released_session_def list_queue_laws)

lemma reconnected_channel_stays_silent_witness:
  "\<exists>c1 c2. Lan_Reconnecter (demo_lan_ops LanAccepted) ([Connected], True)
      ((demo_client (demo_session SENDING 0 [] []))\<lparr>sessionReconnectIdList := [0]\<rparr>) = Inr (Some True, c1) \<and>
    Lan_SendPacketImpl (demo_lan_ops LanAccepted) (Some 0) 0 c1 = Inr (True, c2) \<and> wsaSent c2 = wsaSent c1"
proof -
  let ?c = "(demo_client (demo_session SENDING 0 [] []))\<lparr>sessionReconnectIdList := [0]\<rparr>"
  have "\<exists>c1. Lan_Reconnecter (demo_lan_ops LanAccepted) ([Connected], True) ?c = Inr (Some True, c1) \<and> bufs c1 0 \<noteq> None"
    by (simp add: Lan_Reconnecter_def demo_client_def demo_session_def lan_new_socket_def LAN_INVALID_SOCKET_def
        Lan_RecvPost_def list_ring_def)
  then obtain c1 where c1: "Lan_Reconnecter (demo_lan_ops LanAccepted) ([Connected], True) ?c = Inr (Some True, c1)"
    "bufs c1 0 \<noteq> None" by blast
  from reconnected_channel_stays_silent [OF _ c1(1) _ c1(2), of 0] c1(1) show ?thesis
    by (auto simp: demo_client_def demo_session_def lan_consts)
qed

section \<open>Channels, ids and stopping\<close>

theorem fixed_channel_in_range_iff_witness:
  "\<not> (\<forall>fixedId. \<exists>ch. GetFixedChannelId fixedId (demo_client (demo_session NONSENDING 0 [] [])) = Inr ch \<and>
     unat ch < length (sessionList (demo_client (demo_session NONSENDING 0 [] []))))"
proof -
  have "0 < m_byNumOfUsingWorkerThread (demo_client (demo_session NONSENDING 0 [] []))"
    "\<not> unat (m_byNumOfUsingWorkerThread (demo_client (demo_session NONSENDING 0 [] [])))
       \<le> length (sessionList (demo_client (demo_session NONSENDING 0 [] [])))"
    by (simp_all add: demo_client_def)
  then show ?thesis by (simp only: fixed_channel_in_range_iff not_False_eq_True)
qed

theorem lan_session_ids_witness:
  "\<exists>c. Lan_Start (demo_lan_ops LanAccepted) (demo_session NONSENDING 0 [] [])
      [([Connected], True), ([NotConnected, Connected], True)]
      (demo_client (demo_session NONSENDING 0 [] [])) = Inr (Some True, c) \<and>
    m_SessionId (lanHeap c (sessionList c ! 1)) = 1"
proof -
  let ?c = "demo_client (demo_session NONSENDING 0 [] [])"
  let ?scripts = "[([Connected], True), ([NotConnected, Connected], True)]"
  have "\<exists>c. Lan_Start (demo_lan_ops LanAccepted) (demo_session NONSENDING 0 [] []) ?scripts ?c = Inr (Some True, c) \<and>
      length (sessionList c) = 2"
    by (simp add: Lan_Start_def demo_client_def demo_session_def lan_new_socket_def LAN_INVALID_SOCKET_def
        Lan_RecvPost_def list_ring_def Lan_start_session_def new_session_def demo_lan_ops_def Let_def upt_conv_Cons)
  then obtain c where run: "Lan_Start (demo_lan_ops LanAccepted) (demo_session NONSENDING 0 [] []) ?scripts ?c = Inr (Some True, c)"
    and len: "length (sessionList c) = 2" by blast
  have "(\<forall>i < length (sessionList c). m_SessionId (lanHeap c (sessionList c ! i)) = of_nat i) \<and>
    (\<forall>k \<in> set (sessionReconnectIdList c). unat k < length (sessionList c))"
    by (rule lan_session_ids [OF run, where onRecv = "\<lambda>b w. Inr ()"])
      (simp_all add: demo_client_def lan_reach.lan_refl)
  with run len show ?thesis by auto
qed

lemma Stop_crashes_witness:
  "Lan_workers (demo_lan_ops LanAccepted) (\<lambda>b w. Inr w) 4 2 (snd (Lan_Stop (demo_client (demo_session NONSENDING 0 [] [])))) () =
    Some (Inl Crash)"
  using Stop_crashes [of "demo_client (demo_session NONSENDING 0 [] [])" 4 "demo_lan_ops LanAccepted" "\<lambda>b w. Inr w" "()"]
  by (simp add: demo_client_def)

section \<open>Sending\<close>

text \<open>Two packets and one completion.\<close>

theorem lan_channel_in_order_witness:
  "\<exists>c' batches. channel_run (demo_lan_ops LanAccepted) (\<lambda>b w. Inr w) 1 [Sends 0, Sends 1, Completes 4]
      (demo_client (demo_session NONSENDING 1 [] [])) () = Some (Inr (c', ())) \<and>
    map fst (wsaSent c') = map (\<lambda>_. 1) batches \<and> concat batches @ SendQ (lanHeap c' 1) = [0, 1]"
proof -
  let ?c = "demo_client (demo_session NONSENDING 1 [] [])"
  have "lan_resting_channel (\<lambda>q. q) (lanHeap ?c 1)"
    by (simp add: lan_resting_channel_def demo_client_def demo_session_def)
  moreover have "bufs ?c b = Some blank_buffer" if "b \<in> set (packets_of [Sends 0, Sends 1, Completes 4])" for b
    using that by (auto simp: demo_client_def)
  ultimately have "\<exists>c' batches freed flying. channel_run (demo_lan_ops LanAccepted) (\<lambda>b w. Inr w) 1 [Sends 0, Sends 1, Completes 4] ?c () = Some (Inr (c', ())) \<and>
      wsaSent c' = wsaSent ?c @ map (\<lambda>B. (1, map (\<lambda>b. lan_wire plain_lan (lan_header plain_lan blank_buffer)) B)) batches \<and>
      (\<forall>B \<in> set batches. length B \<le> 200) \<and> concat batches = freed @ flying \<and>
      packets_of [Sends 0, Sends 1, Completes 4] = freed @ flying @ SendQ (lanHeap c' 1) \<and>
      lBufferCount (lanHeap c' 1) = int (length flying) \<and>
      (flying = [] \<longrightarrow> SendQ (lanHeap c' 1) = []) \<and>
      (\<forall>b \<in> set (packets_of [Sends 0, Sends 1, Completes 4]). bufs c' b = None \<longleftrightarrow> b \<in> set freed)"
    using lan_channel_in_order [of "demo_lan_ops LanAccepted" "\<lambda>q. q" 1 ?c 1 "[Sends 0, Sends 1, Completes 4]"
        "\<lambda>_. blank_buffer" "\<lambda>b w. Inr w" "()"]
    by (simp only: list_queue_laws demo_lan_ops_simps) (simp add: demo_client_def)
  then obtain c' batches freed flying where r: "channel_run (demo_lan_ops LanAccepted) (\<lambda>b w. Inr w) 1 [Sends 0, Sends 1, Completes 4] ?c () = Some (Inr (c', ()))"
    "wsaSent c' = wsaSent ?c @ map (\<lambda>B. (1, map (\<lambda>b. lan_wire plain_lan (lan_header plain_lan blank_buffer)) B)) batches"
    "concat batches = freed @ flying" "packets_of [Sends 0, Sends 1, Completes 4] = freed @ flying @ SendQ (lanHeap c' 1)"
    by blast
  have "map fst (wsaSent c') = map (\<lambda>_. 1) batches" using r(2) by (simp add: demo_client_def)
  moreover have "concat batches @ SendQ (lanHeap c' 1) = [0, 1]" using r(3,4) by simp
  ultimately show ?thesis using r(1) by blast
qed

end
