(* ===== verification/DBJob.thy ===== *)
theory DBJob
  imports LanErrors Handlers
begin

text \<open>
  DBJob.h, DBJob.cpp and the job classes, DBHelper and the sending half of DBClient: the jobs that
  the packet handlers make for the database, the batches that collect them, the manager that
  registers batches under keys, and what of all this reaches CMultiLanClient.
\<close>

section \<open>Jobs\<close>

datatype job_class = DBJob_StartDBJob | DBJob_test

text \<open>
  \<open>jobKeyPosition\<close> points into a buffer: its address and the position behind the packet id.
\<close>

record DBJob =
  job_class :: job_class
  job_owner :: nat
  jobSPBuffer :: "nat option"
  jobKeyPosition :: "(nat \<times> int) option"
  forRollback :: "db_packet option"

text \<open>
  The constructor of DBJob, of the class \<open>cls\<close>: the buffer it fills is the local variable
  \<open>buffer\<close>, the member \<open>jobSPBuffer\<close> keeps its initialiser.
\<close>

definition DBJob_new ::
  "lan_buf_ops \<Rightarrow> job_class \<Rightarrow> nat \<Rightarrow> db_packet \<Rightarrow> db_packet \<Rightarrow> ('r, 'q) lan_client \<Rightarrow> DBJob \<times> ('r, 'q) lan_client" where
  "DBJob_new lb cls inOwner packet rollbackPacket c =
     (let buffer = lb_Alloc lb;
          buffer = lb_put lb (FUInt (GetDBPacketId packet)) buffer;
          keyPosition = m_iWrite buffer;
          buffer = lb_MoveWritePos lb 8 buffer;
          buffer = DBPacketToBuffer (lb_put lb) packet buffer;
          (address, c) = new_buf buffer c
      in (\<lparr>job_class = cls, job_owner = inOwner, jobSPBuffer = None, jobKeyPosition = Some (address, keyPosition),
           forRollback = Some rollbackPacket\<rparr>, c))"

text \<open>
  The destructor frees \<open>jobSPBuffer\<close>. What \<open>CSerializationBuf::Free\<close> does with a null pointer is not
  in the repository: it is the parameter \<open>free_null\<close>.
\<close>

definition DBJob_dtor ::
  "(('r, 'q) lan_client \<Rightarrow> ('r, 'q) lan_client outcome) \<Rightarrow> DBJob \<Rightarrow> ('r, 'q) lan_client \<Rightarrow> ('r, 'q) lan_client outcome"
where
  "DBJob_dtor free_null job c = (case jobSPBuffer job of None \<Rightarrow> free_null c | Some a \<Rightarrow> free_buf (Some a) c)"

definition GetJobBuffer :: "DBJob \<Rightarrow> nat option" where
  "GetJobBuffer job = jobSPBuffer job"

definition GetRollbackItem :: "DBJob \<Rightarrow> db_packet option" where
  "GetRollbackItem job = (case forRollback job of None \<Rightarrow> None | Some p \<Rightarrow> Some p)"

text \<open>OnCommit and OnRollback of the job classes; the value is the copy \<open>rollback\<close> that is made.\<close>

fun DBJob_OnCommit :: "job_class \<Rightarrow> DBJob \<Rightarrow> db_packet option" where
  "DBJob_OnCommit DBJob_StartDBJob job = None"
| "DBJob_OnCommit DBJob_test job = None"

fun DBJob_OnRollback :: "job_class \<Rightarrow> DBJob \<Rightarrow> db_packet option" where
  "DBJob_OnRollback DBJob_StartDBJob job = None"
| "DBJob_OnRollback DBJob_test job =
     (case GetRollbackItem job of None \<Rightarrow> None | Some rollbackItem \<Rightarrow> Some rollbackItem)"

section \<open>DBClient, sending\<close>

definition SendJobToFixedChannel ::
  "('r, 'q) lan_ops \<Rightarrow> DBJob \<Rightarrow> ('r, 'q) lan_client \<Rightarrow> ('r, 'q) lan_client outcome" where
  "SendJobToFixedChannel ops dbJob c = obind (Lan_SendPacket ops (GetJobBuffer dbJob) c) (\<lambda>(_, c). Inr c)"

text \<open>\<open>*(long long*)batchDBJobKey\<close> reads memory at the key, which is not the address of an object.\<close>

definition ExecuteJob ::
  "('r, 'q) lan_ops \<Rightarrow> DBJobKey \<Rightarrow> DBJob \<Rightarrow> ('r, 'q) lan_client \<Rightarrow> (bool \<times> ('r, 'q) lan_client) outcome" where
  "ExecuteJob ops batchDBJobKey job c =
     (if jobSPBuffer job = None \<or> jobKeyPosition job = None then Inr (False, c)
      else Inl UndefinedBehaviour)"

definition MakeProcedurePacket ::
  "lan_buf_ops \<Rightarrow> PacketId \<Rightarrow> ('r, 'q) lan_client \<Rightarrow> nat \<times> ('r, 'q) lan_client" where
  "MakeProcedurePacket lb packetId c =
     (let buffer = lb_Alloc lb;
          buffer = lb_put lb (FUInt packetId) buffer;
          buffer = lb_put lb (FUInt64 0) buffer
      in new_buf buffer c)"

text \<open>
  \<open>auto buffer = MakeProcedurePacket(...)\<close> copies the buffer to a local variable. The pointer to
  the local variable is what SendPacket gets; the variable dies when the function returns.
\<close>

definition SendPacketToFixedChannel ::
  "('r, 'q) lan_ops \<Rightarrow> db_packet \<Rightarrow> SessionId \<Rightarrow> ('r, 'q) lan_client \<Rightarrow> ('r, 'q) lan_client outcome" where
  "SendPacketToFixedChannel ops packet k c =
     (case MakeProcedurePacket (lo_buf ops) (GetDBPacketId packet) c of (made, c) \<Rightarrow>
        case bufs c made of
          None \<Rightarrow> Inl UndefinedBehaviour
        | Some contents \<Rightarrow>
            (case new_buf (DBPacketToBuffer (lb_put (lo_buf ops)) packet contents) c of (buffer, c) \<Rightarrow>
               obind (Lan_SendPacket_fixed ops (Some buffer) k c) (\<lambda>(_, c).
                 Inr (c\<lparr>bufs := (bufs c)(buffer := None)\<rparr>))))"

section \<open>Batches and their manager\<close>

record BatchedDBJob =
  jobList :: "DBJob list"
  batch_owner :: nat
  dbJobKey :: DBJobKey

text \<open>DBJobManager, with the batches by address: a shared pointer to a batch is its address.\<close>

record job_store =
  jobKey :: DBJobKey
  jobMap :: "DBJobKey \<rightharpoonup> nat"
  batchAt :: "nat \<Rightarrow> BatchedDBJob"
  nextBatch :: nat

definition GetDBJobKey :: "job_store \<Rightarrow> DBJobKey \<times> job_store" where
  "GetDBJobKey s = (jobKey s, s\<lparr>jobKey := jobKey s + 1\<rparr>)"

text \<open>\<open>insert\<close> does not replace an entry.\<close>

definition RegisterDBJob :: "nat \<Rightarrow> job_store \<Rightarrow> job_store" where
  "RegisterDBJob job s =
     (let key = jobKey s; s = s\<lparr>jobKey := jobKey s + 1\<rparr>
      in if jobMap s key = None then s\<lparr>jobMap := (jobMap s)(key \<mapsto> job)\<rparr> else s)"

definition GetRegistedDBJob :: "DBJobKey \<Rightarrow> job_store \<Rightarrow> nat option" where
  "GetRegistedDBJob k s = (case jobMap s k of None \<Rightarrow> None | Some job \<Rightarrow> Some job)"

definition DeregisterDBJob :: "DBJobKey \<Rightarrow> job_store \<Rightarrow> job_store" where
  "DeregisterDBJob k s = s\<lparr>jobMap := (jobMap s)(k := None)\<rparr>"

definition BatchedDBJob_new :: "nat \<Rightarrow> job_store \<Rightarrow> nat \<times> job_store" where
  "BatchedDBJob_new inOwner s =
     (case GetDBJobKey s of (key, s) \<Rightarrow>
        (nextBatch s, s\<lparr>batchAt := (batchAt s)(nextBatch s := \<lparr>jobList = [], batch_owner = inOwner, dbJobKey = key\<rparr>),
           nextBatch := nextBatch s + 1\<rparr>))"

definition BatchedDBJob_dtor :: "nat \<Rightarrow> job_store \<Rightarrow> job_store" where
  "BatchedDBJob_dtor b s = DeregisterDBJob (dbJobKey (batchAt s b)) s"

definition MakeBatchedDBJob :: "nat \<Rightarrow> job_store \<Rightarrow> nat \<times> job_store" where
  "MakeBatchedDBJob inOwner s =
     (case BatchedDBJob_new inOwner s of (b, s) \<Rightarrow> (b, RegisterDBJob b s))"

definition AddDBJob :: "nat \<Rightarrow> DBJob \<Rightarrow> job_store \<Rightarrow> ERROR_CODE \<times> job_store" where
  "AddDBJob b job s =
     (if length (jobList (batchAt s b)) \<ge> MAXIMUM_BATCHED_DB_JOB_SIZE then (BATCHED_DB_JOB_SIZE_OVERFLOWED, s)
      else (EC_SUCCESS, s\<lparr>batchAt := (batchAt s)(b := (batchAt s b)\<lparr>jobList := jobList (batchAt s b) @ [job]\<rparr>)\<rparr>))"

text \<open>The loop of ExecuteBatchJob over the jobs.\<close>

fun ExecuteJobs ::
  "('r, 'q) lan_ops \<Rightarrow> DBJobKey \<Rightarrow> DBJob list \<Rightarrow> ('r, 'q) lan_client \<Rightarrow> ('r, 'q) lan_client outcome" where
  "ExecuteJobs ops k [] c = Inr c"
| "ExecuteJobs ops k (job # jobs) c = obind (ExecuteJob ops k job c) (\<lambda>(_, c). ExecuteJobs ops k jobs c)"

text \<open>The local \<open>batchStartJob\<close> is destroyed when ExecuteBatchJob returns.\<close>

definition ExecuteBatchJob ::
  "('r, 'q) lan_ops \<Rightarrow> (('r, 'q) lan_client \<Rightarrow> ('r, 'q) lan_client outcome) \<Rightarrow> SessionId \<Rightarrow> BatchedDBJob \<Rightarrow>
   ('r, 'q) lan_client \<Rightarrow> (ERROR_CODE \<times> ('r, 'q) lan_client) outcome" where
  "ExecuteBatchJob ops free_null ownerSession batch c =
     (let dbJobStartPacket = DBJobStart ownerSession (of_nat (length (jobList batch)));
          emptyRollback = DBJobStart INVALID_SESSION_ID 0;
          (batchStartJob, c) = DBJob_new (lo_buf ops) DBJob_StartDBJob (batch_owner batch) dbJobStartPacket emptyRollback c
      in obind (SendJobToFixedChannel ops batchStartJob c) (\<lambda>c.
           obind (ExecuteJobs ops (dbJobKey batch) (jobList batch) c) (\<lambda>c.
             obind (DBJob_dtor free_null batchStartJob c) (\<lambda>c. Inr (EC_SUCCESS, c)))))"

definition Batch_OnCommit :: "BatchedDBJob \<Rightarrow> db_packet option list" where
  "Batch_OnCommit batch = map (\<lambda>job. DBJob_OnCommit (job_class job) job) (jobList batch)"

definition Batch_OnRollback :: "BatchedDBJob \<Rightarrow> db_packet option list" where
  "Batch_OnRollback batch = map (\<lambda>job. DBJob_OnRollback (job_class job) job) (jobList batch)"

section \<open>The requests of the packet handlers\<close>

text \<open>What HandlePacket does for a request of Handlers, with the id of the session it is made for.\<close>

fun run_request ::
  "('r, 'q) lan_ops \<Rightarrow> (('r, 'q) lan_client \<Rightarrow> ('r, 'q) lan_client outcome) \<Rightarrow> SessionId \<Rightarrow> db_request \<Rightarrow> job_store \<Rightarrow> ('r, 'q) lan_client \<Rightarrow>
   (job_store \<times> ('r, 'q) lan_client) outcome" where
  "run_request ops free_null ownerSession (BatchRequest a packet rollback) s c =
     (case MakeBatchedDBJob a s of (b, s) \<Rightarrow>
        case DBJob_new (lo_buf ops) DBJob_test a packet rollback c of (job, c) \<Rightarrow>
          case AddDBJob b job s of (_, s) \<Rightarrow>
            obind (ExecuteBatchJob ops free_null ownerSession (batchAt s b) c) (\<lambda>(_, c). Inr (s, c)))"
| "run_request ops free_null ownerSession (FixedChannelRequest packet k) s c =
     obind (SendPacketToFixedChannel ops packet k c) (\<lambda>c. Inr (s, c))"

section \<open>Keys of batches\<close>

inductive job_step :: "job_store \<Rightarrow> job_store \<Rightarrow> bool" where
  new_batch: "BatchedDBJob_new inOwner s = (b, s') \<Longrightarrow> job_step s s'"
| register: "b < nextBatch s \<Longrightarrow> job_step s (RegisterDBJob b s)"
| add_job: "b < nextBatch s \<Longrightarrow> AddDBJob b job s = (e, s') \<Longrightarrow> job_step s s'"
| destroy: "b < nextBatch s \<Longrightarrow> job_step s (BatchedDBJob_dtor b s)"

text \<open>Runs of a given number of steps, of any threads in any order, from the start of the program.\<close>

definition initial_jobs :: "(nat \<Rightarrow> BatchedDBJob) \<Rightarrow> job_store" where
  "initial_jobs mem = \<lparr>jobKey = 1, jobMap = Map.empty, batchAt = mem, nextBatch = 0\<rparr>"

inductive job_run :: "job_store \<Rightarrow> nat \<Rightarrow> job_store \<Rightarrow> bool" for s where
  job_start: "job_run s 0 s"
| job_next: "job_run s n s' \<Longrightarrow> job_step s' s'' \<Longrightarrow> job_run s (Suc n) s''"

definition jobs_ok :: "nat \<Rightarrow> job_store \<Rightarrow> bool" where
  "jobs_ok n s \<longleftrightarrow>
     unat (jobKey s) \<le> n + 1 \<and>
     (\<forall>k b. jobMap s k = Some b \<longrightarrow> k < jobKey s) \<and>
     (\<forall>b < nextBatch s. dbJobKey (batchAt s b) < jobKey s \<and> jobMap s (dbJobKey (batchAt s b)) = None \<and>
        length (jobList (batchAt s b)) \<le> 16)"

lemma next_key:
  assumes "unat (k :: u64) \<le> n + 1" and "n + 2 < 2 ^ 64"
  shows "k < k + 1" and "unat (k + 1) \<le> n + 2"
proof -
  have "unat (k + 1) = unat k + 1"
    using assms by (simp add: unat_word_ariths)
  with assms(1) show "k < k + 1" "unat (k + 1) \<le> n + 2" by (simp_all add: word_less_nat_alt)
qed

lemma jobs_ok_fresh:
  assumes "jobs_ok n s" and "n + 2 < 2 ^ 64"
  shows "jobMap s (jobKey s) = None" and "k < jobKey s \<Longrightarrow> k < jobKey s + 1"
    and "jobKey s < jobKey s + 1" and "unat (jobKey s + 1) \<le> Suc (Suc n)"
proof -
  have "unat (jobKey s) \<le> n + 1" using assms(1) by (simp add: jobs_ok_def)
  from next_key [OF this assms(2)] show lt: "jobKey s < jobKey s + 1" and "unat (jobKey s + 1) \<le> Suc (Suc n)"
    by simp_all
  show "k < jobKey s \<Longrightarrow> k < jobKey s + 1" by (rule less_trans [OF _ lt])
  show "jobMap s (jobKey s) = None" using assms(1) by (auto simp: jobs_ok_def)
qed

lemma job_step_ok:
  assumes "job_step s s'" and "jobs_ok n s" and "n + 2 < 2 ^ 64"
  shows "jobs_ok (Suc n) s'"
  using assms
proof (induction rule: job_step.induct)
  case (new_batch inOwner s b s')
  note fresh = jobs_ok_fresh [OF new_batch(2,3)]
  from new_batch(1,2) fresh show ?case
    by (auto simp: jobs_ok_def BatchedDBJob_new_def GetDBJobKey_def less_Suc_eq)
next
  case (register b s)
  note fresh = jobs_ok_fresh [OF register(2,3)]
  from register(1,2) fresh show ?case
    by (auto simp: jobs_ok_def RegisterDBJob_def Let_def)
next
  case (add_job b s job e s')
  then show ?case
    by (auto simp: jobs_ok_def AddDBJob_def MAXIMUM_BATCHED_DB_JOB_SIZE_def split: if_splits)
next
  case (destroy b s)
  then show ?case by (auto simp: jobs_ok_def BatchedDBJob_dtor_def DeregisterDBJob_def)
qed

lemma job_run_ok: "job_run (initial_jobs mem) n s \<Longrightarrow> n + 2 < 2 ^ 64 \<Longrightarrow> jobs_ok n s"
proof (induction rule: job_run.induct)
  case (job_next n s' s'')
  then show ?case using job_step_ok [of s' s'' n] by simp
qed (simp add: jobs_ok_def initial_jobs_def)

end
