(* ===== verification/DBJobProps.thy ===== *)
theory DBJobProps
  imports DBJob LanRuns
begin

text \<open>
  The properties of the database jobs: the keys of batches, what a procedure request sends, and
  what a request on the channel of a session leaves behind, each with a concrete run.
\<close>

section \<open>Keys\<close>

text \<open>
  C33: A batch takes its key when it is made, and RegisterDBJob takes another one for the entry of
  the map. In any run of the operations no batch is therefore found under the key that it hands
  to its jobs, its destructor removes nothing, and no batch has more than sixteen jobs.
\<close>

theorem batch_not_found_by_its_key:
  assumes "job_run (initial_jobs mem) n s" and "n + 2 < 2 ^ 64" and "b < nextBatch s"
  shows "GetRegistedDBJob (dbJobKey (batchAt s b)) s = None \<and> BatchedDBJob_dtor b s = s \<and>
    length (jobList (batchAt s b)) \<le> 16"
proof -
  have "jobMap s (dbJobKey (batchAt s b)) = None" "length (jobList (batchAt s b)) \<le> 16"
    using job_run_ok [OF assms(1,2)] assms(3) by (auto simp: jobs_ok_def)
  then show ?thesis by (simp add: GetRegistedDBJob_def BatchedDBJob_dtor_def DeregisterDBJob_def fun_upd_idem)
qed

section \<open>Procedure requests\<close>

lemma Lan_SendPacket_null:
  "Lan_SendPacket ops None c =
     (if m_byNumOfWorkerThread c = 0 then Inl UndefinedBehaviour
      else Inr (False, c\<lparr>m_channelSelector := m_channelSelector c + 1\<rparr>))"
  by (simp add: Lan_SendPacket_def GetChannelId_def Lan_SendPacketImpl_def Let_def)

lemma DBJob_new_facts:
  assumes "DBJob_new lb cls x p q c = (job, c')"
  shows "jobSPBuffer job = None" "lanHeap c' = lanHeap c" "wsaSent c' = wsaSent c"
    "m_byNumOfWorkerThread c' = m_byNumOfWorkerThread c" "nextBuf c' = nextBuf c + 1"
    "bufs c' (nextBuf c) \<noteq> None" "y \<noteq> nextBuf c \<Longrightarrow> bufs c' y = bufs c y"
  using assms by (auto simp: DBJob_new_def new_buf_def Let_def)

text \<open>
  C34: The constructor of a job fills a buffer that its member \<open>jobSPBuffer\<close> does not get. A
  TestProcedurePacket is therefore answered by no packet at all: the packet for the start of the
  batch and that of its job stay in two buffers that nobody frees, no session of the database
  client changes, and what remains is the destruction of a job with a null buffer. A client with
  no worker threads (one that was never started) divides by their number.
\<close>

theorem TestProcedure_sends_nothing:
  "\<exists>s' c'. run_request ops free_null ownerSession (BatchRequest a packet rollback) s c =
      (if m_byNumOfWorkerThread c = 0 then Inl UndefinedBehaviour else obind (free_null c') (\<lambda>c. Inr (s', c))) \<and>
    lanHeap c' = lanHeap c \<and> wsaSent c' = wsaSent c \<and> nextBuf c' = nextBuf c + 2 \<and>
    bufs c' (nextBuf c) \<noteq> None \<and> bufs c' (nextBuf c + 1) \<noteq> None"
proof -
  obtain b s1 where batch: "MakeBatchedDBJob a s = (b, s1)" by (cases "MakeBatchedDBJob a s")
  have jobs: "jobList (batchAt s1 b) = []"
    using batch by (auto simp: MakeBatchedDBJob_def BatchedDBJob_new_def GetDBJobKey_def RegisterDBJob_def Let_def)
  obtain job c1 where job: "DBJob_new (lo_buf ops) DBJob_test a packet rollback c = (job, c1)"
    by (cases "DBJob_new (lo_buf ops) DBJob_test a packet rollback c")
  obtain e s2 where add: "AddDBJob b job s1 = (e, s2)" by (cases "AddDBJob b job s1")
  then have list: "jobList (batchAt s2 b) = [job]"
    using jobs by (auto simp: AddDBJob_def MAXIMUM_BATCHED_DB_JOB_SIZE_def)
  obtain start c2 where start: "DBJob_new (lo_buf ops) DBJob_StartDBJob (batch_owner (batchAt s2 b))
      (DBJobStart ownerSession (of_nat (length (jobList (batchAt s2 b))))) (DBJobStart INVALID_SESSION_ID 0) c1 = (start, c2)"
    by (rule prod.exhaust)
  note new1 = DBJob_new_facts [OF job] and new2 = DBJob_new_facts [OF start]
  let ?c = "c2\<lparr>m_channelSelector := m_channelSelector c2 + 1\<rparr>"
  have "run_request ops free_null ownerSession (BatchRequest a packet rollback) s c =
      (if m_byNumOfWorkerThread c = 0 then Inl UndefinedBehaviour else obind (free_null ?c) (\<lambda>c. Inr (s2, c)))"
    using batch job add start new1 new2
    by (simp add: ExecuteBatchJob_def SendJobToFixedChannel_def GetJobBuffer_def Lan_SendPacket_null DBJob_dtor_def
        ExecuteJob_def list Let_def obind_assoc)
  with new1 new2 show ?thesis by (intro exI [of _ s2] exI [of _ ?c]) simp
qed

section \<open>Requests on the channel of a session\<close>

text \<open>
  One packet that is enqueued on an idle channel: SendPost takes it alone and hands it over.
\<close>

lemma idle_channel_send:
  assumes "queue_laws (lo_queue ops) items" and "IOMode (lanHeap c a) = NONSENDING"
    and "items (SendQ (lanHeap c a)) = []" and "pSeirializeBufStore (lanHeap c a) = e # store"
    and "bufs c b = Some buf" and "lan_answer ops (lanCalls c) = LanAccepted"
  shows "\<exists>c'. Lan_SendPost ops a (upd_lan a (\<lambda>x. x\<lparr>SendQ := q_Enqueue (lo_queue ops) b (SendQ x)\<rparr>) c) =
      Inr (POST_RETVAL_COMPLETE, c') \<and> sessionList c' = sessionList c \<and> bufs c' = bufs c \<and>
    pSeirializeBufStore (lanHeap c' a) = Some b # store \<and> lBufferCount (lanHeap c' a) = 1 \<and>
    IOMode (lanHeap c' a) = SENDING \<and> length (wsaSent c') = length (wsaSent c) + 1"
proof -
  let ?q = "q_Enqueue (lo_queue ops) b (SendQ (lanHeap c a))"
  have q: "items ?q = [b]" using assms(1,3) by (simp add: queue_laws_Enqueue)
  then obtain q' where q': "q_Dequeue (lo_queue ops) ?q = (Some b, q')" "items q' = []"
    using queue_laws_Dequeue [OF assms(1)] by blast
  have rest: "q_GetRestSize (lo_queue ops) ?q = 1"
    using queue_laws_GetRestSize [OF assms(1)] q by simp
  show ?thesis
    using assms(2,4,5,6) by (simp add: Lan_SendPost_flat rest Lan_SendPost_send_def q' lan_consts)
qed

text \<open>
  C35: SendPacketToFixedChannel hands the address of its local copy of the buffer to SendPacket.
  On an idle channel and with a network that takes everything, the call returns and the packet is
  with the kernel; the completion of this send frees the buffer, which has died with the call.
\<close>

theorem fixed_channel_dangles:
  assumes "queue_laws (lo_queue ops) items" and "GetFixedChannelId k c = Inr ch" and "unat ch < length (sessionList c)"
    and "IOMode (lanHeap c (sessionList c ! unat ch)) = NONSENDING"
    and "items (SendQ (lanHeap c (sessionList c ! unat ch))) = []"
    and "pSeirializeBufStore (lanHeap c (sessionList c ! unat ch)) \<noteq> []"
    and "lan_answer ops (lanCalls c) = LanAccepted"
  shows "\<exists>c'. SendPacketToFixedChannel ops packet k c = Inr c' \<and> length (wsaSent c') = length (wsaSent c) + 1 \<and>
    Lan_Worker ops onRecv (t, Some (unat ch), Some (SendOverlapped (sessionList c ! unat ch))) c' w =
      Some (Inl UndefinedBehaviour)"
proof -
  let ?a = "sessionList c ! unat ch"
  obtain made c1 where made: "MakeProcedurePacket (lo_buf ops) (GetDBPacketId packet) c = (made, c1)"
    by (rule prod.exhaust)
  obtain contents where contents: "bufs c1 made = Some contents"
    using made by (auto simp: MakeProcedurePacket_def new_buf_def Let_def)
  obtain buffer c2 where local: "new_buf (DBPacketToBuffer (lb_put (lo_buf ops)) packet contents) c1 = (buffer, c2)"
    by (rule prod.exhaust)
  have c2: "lanHeap c2 = lanHeap c" "sessionList c2 = sessionList c" "lanCalls c2 = lanCalls c" "wsaSent c2 = wsaSent c"
    "GetFixedChannelId k c2 = Inr ch"
    using made local assms(2) by (auto simp: MakeProcedurePacket_def new_buf_def Let_def GetFixedChannelId_def)
  obtain buf where buf: "bufs c2 buffer = Some buf"
    using local by (auto simp: new_buf_def)
  let ?c = "c2\<lparr>bufs := (bufs c2)(buffer \<mapsto> lan_header (lo_buf ops) buf)\<rparr>"
  obtain e store where store: "pSeirializeBufStore (lanHeap c ?a) = e # store"
    using assms(6) by (cases "pSeirializeBufStore (lanHeap c ?a)") simp_all
  obtain c3 where send: "Lan_SendPost ops ?a (upd_lan ?a (\<lambda>x. x\<lparr>SendQ := q_Enqueue (lo_queue ops) buffer (SendQ x)\<rparr>) ?c) =
      Inr (POST_RETVAL_COMPLETE, c3)" and c3: "sessionList c3 = sessionList c"
      "pSeirializeBufStore (lanHeap c3 ?a) = Some buffer # store" "lBufferCount (lanHeap c3 ?a) = 1"
      "length (wsaSent c3) = length (wsaSent c) + 1"
    using idle_channel_send [of ops items ?c ?a e store buffer] assms(1,4,5,7) store c2 by auto
  let ?c4 = "c3\<lparr>bufs := (bufs c3)(buffer := None)\<rparr>"
  have "SendPacketToFixedChannel ops packet k c = Inr ?c4"
    using made contents local c2 buf send assms(3)
    by (simp add: SendPacketToFixedChannel_def Lan_SendPacket_fixed_def Lan_SendPacketImpl_def Let_def)
  moreover have "Lan_Worker ops onRecv (t, Some (unat ch), Some (SendOverlapped ?a)) ?c4 w = Some (Inl UndefinedBehaviour)"
    using assms(3) c3 by (simp add: Lan_Worker_def Lan_send_part_def free_buf_def)
  ultimately show ?thesis using c3 by (intro exI [of _ ?c4]) simp
qed

section \<open>Concrete runs\<close>

definition one_batch :: job_store where
  "one_batch = snd (MakeBatchedDBJob 5 (initial_jobs (\<lambda>_. \<lparr>jobList = [], batch_owner = 0, dbJobKey = 0\<rparr>)))"

lemma one_batch_run: "job_run (initial_jobs (\<lambda>_. \<lparr>jobList = [], batch_owner = 0, dbJobKey = 0\<rparr>)) 2 one_batch"
proof -
  let ?s = "initial_jobs (\<lambda>_. \<lparr>jobList = [], batch_owner = 0, dbJobKey = 0\<rparr>)"
  obtain b s1 where s1: "BatchedDBJob_new 5 ?s = (b, s1)" by (rule prod.exhaust)
  have "job_run ?s (Suc (Suc 0)) (RegisterDBJob b s1)"
  proof (rule job_run.job_next [OF job_run.job_next [OF job_run.job_start]])
    show "job_step ?s s1" by (rule job_step.new_batch [OF s1])
    have "b < nextBatch s1" using s1 by (auto simp: BatchedDBJob_new_def GetDBJobKey_def)
    then show "job_step s1 (RegisterDBJob b s1)" by (rule job_step.register)
  qed
  with s1 show ?thesis by (simp add: one_batch_def MakeBatchedDBJob_def numeral_2_eq_2)
qed

theorem batch_not_found_by_its_key_witness:
  "dbJobKey (batchAt one_batch 0) = 1 \<and> GetRegistedDBJob 1 one_batch = None \<and> GetRegistedDBJob 2 one_batch = Some 0"
proof -
  have one: "nextBatch one_batch = 1" "dbJobKey (batchAt one_batch 0) = 1" "jobMap one_batch = [2 \<mapsto> 0]"
    by (simp_all add: one_batch_def MakeBatchedDBJob_def BatchedDBJob_new_def GetDBJobKey_def RegisterDBJob_def initial_jobs_def)
  with batch_not_found_by_its_key [OF one_batch_run, of 0] show ?thesis
    by (simp add: GetRegistedDBJob_def)
qed

theorem fixed_channel_dangles_witness:
  "\<exists>c'. SendPacketToFixedChannel (demo_lan_ops LanAccepted) (DBTest 3 [65]) 5
      (demo_client (demo_session NONSENDING 0 [] [])) = Inr c' \<and> length (wsaSent c') = 1 \<and>
    Lan_Worker (demo_lan_ops LanAccepted) (\<lambda>b w. Inr w) (3, Some 1, Some (SendOverlapped 1)) c' () =
      Some (Inl UndefinedBehaviour)"
proof -
  have "GetFixedChannelId 5 (demo_client (demo_session NONSENDING 0 [] [])) = Inr 1"
    by (simp add: GetFixedChannelId_def demo_client_def)
  from fixed_channel_dangles [OF _ this, of "demo_lan_ops LanAccepted" "\<lambda>q. q" "DBTest 3 [65]" "\<lambda>b w. Inr w" 3 "()"]
  show ?thesis by (auto simp: demo_client_def demo_session_def list_queue_laws)
qed

end
