(* ===== verification/ReplyHandler.thy ===== *)
theory ReplyHandler
  imports DBJobProps
begin

text \<open>
  ProcedureReplyHandler and \<open>DBClient::OnRecv\<close>: what happens with a reply of the database server.
  Its table of handlers is the third instance of \<open>dispatch_table\<close>.
\<close>

section \<open>The table of handlers\<close>

text \<open>The classes of replies; as in Dispatch, a class stands for the function stored for it.\<close>

datatype reply_class = Class_CallSelectTest2ProcedurePacketReply | Class_DBJobReply

fun default_reply :: "reply_class \<Rightarrow> db_packet" where
  "default_reply Class_CallSelectTest2ProcedurePacketReply =
     CallSelectTest2ProcedurePacketReply INVALID_SESSION_ID [] []"
| "default_reply Class_DBJobReply = DBJobReply INVALID_DB_JOB_KEY False"

definition reply_class_id :: "reply_class \<Rightarrow> PacketId" where
  "reply_class_id c = GetDBPacketId (default_reply c)"

type_synonym reply_table = "PacketId \<rightharpoonup> reply_class"

definition Reply_RegisterPacketHandler :: "reply_class \<Rightarrow> reply_table \<Rightarrow> reply_table" where
  "Reply_RegisterPacketHandler c m = m(reply_class_id c \<mapsto> c)"

definition REGISTER_ALL_DB_REPLY_HANDLER :: "reply_class list" where
  "REGISTER_ALL_DB_REPLY_HANDLER = [Class_CallSelectTest2ProcedurePacketReply, Class_DBJobReply]"

definition Reply_Initialize :: "reply_table \<Rightarrow> reply_table" where
  "Reply_Initialize m = fold Reply_RegisterPacketHandler REGISTER_ALL_DB_REPLY_HANDLER m"

definition Reply_GetPacketHandler :: "reply_table \<Rightarrow> PacketId \<Rightarrow> reply_class option" where
  "Reply_GetPacketHandler m packetId = (case m packetId of None \<Rightarrow> None | Some handler \<Rightarrow> Some handler)"

interpretation replies: dispatch_table Reply_RegisterPacketHandler "\<lambda>m. m" reply_class_id
  by unfold_locales (simp add: Reply_RegisterPacketHandler_def)

lemma reply_class_id_values [simp]:
  "reply_class_id Class_CallSelectTest2ProcedurePacketReply = 13" "reply_class_id Class_DBJobReply = 14"
  by (simp_all add: reply_class_id_def GetDBPacketId_def)

lemma Reply_Initialize_lookup:
  "Reply_GetPacketHandler (Reply_Initialize Map.empty) k = Some c \<longleftrightarrow> k = reply_class_id c"
proof -
  have "distinct (map reply_class_id REGISTER_ALL_DB_REPLY_HANDLER)" "c \<in> set REGISTER_ALL_DB_REPLY_HANDLER"
    by (cases c; simp add: REGISTER_ALL_DB_REPLY_HANDLER_def)+
  with replies.lookup_fold_Some [of REGISTER_ALL_DB_REPLY_HANDLER Map.empty k c]
  show ?thesis by (auto simp: Reply_GetPacketHandler_def Reply_Initialize_def split: option.split)
qed

section \<open>AssemblePacket\<close>

text \<open>What the handlers work on: the server and the manager of batches.\<close>

record ('r, 'q, 'p) reply_world =
  rw_server :: "('r, 'q, 'p) server"
  rw_jobs :: job_store

fun read_UInt64 :: "wire_value \<Rightarrow> u64" where
  "read_UInt64 (FUInt64 v) = v"
| "read_UInt64 _ = 0"

text \<open>
  The overload for CallSelectTest2ProcedurePacketReply. What it reads from the reply it writes to
  a buffer of the server; nothing checks the pointer that \<open>NetBuffer::Alloc\<close> returns.
\<close>

definition AssemblePacket_select ::
  "('r, 'q, 'p) server_ops \<Rightarrow> lan_buf_ops \<Rightarrow> CSerializationBuf \<Rightarrow> ('r, 'q, 'p) server \<Rightarrow>
   (bool \<times> ('r, 'q, 'p) server) outcome" where
  "AssemblePacket_select ops lb recvPacket s =
     (case lb_get lb TUInt64 recvPacket of (v, recvPacket) \<Rightarrow>
        obind (GetSession (read_UInt64 v) s) (\<lambda>(session, s).
          case session of
            None \<Rightarrow> Inr (False, s)
          | Some a \<Rightarrow>
              (case lb_get lb TIntList recvPacket of (noList, recvPacket) \<Rightarrow>
               case lb_get lb TStringList recvPacket of (testStringList, recvPacket) \<Rightarrow>
               case nb_Alloc (so_net ops) of
                 None \<Rightarrow> Inl UndefinedBehaviour
               | Some sendBuffer \<Rightarrow>
                   (let sendBuffer = nb_put (so_net ops) testStringList (nb_put (so_net ops) noList sendBuffer)
                    in obind (SendPacket ops a sendBuffer s) (\<lambda>s. Inr (True, s))))))"

text \<open>The overload for DBJobReply, with the copies that the jobs' callbacks make.\<close>

definition AssemblePacket_job :: "DBJobKey \<Rightarrow> bool \<Rightarrow> job_store \<Rightarrow> bool \<times> db_packet option list" where
  "AssemblePacket_job k succeeded jobs =
     (case GetRegistedDBJob k jobs of
        None \<Rightarrow> (True, [])
      | Some b \<Rightarrow>
          if \<not> succeeded then (True, Batch_OnRollback (batchAt jobs b))
          else (True, Batch_OnCommit (batchAt jobs b)))"

section \<open>Dispatching a reply\<close>

text \<open>A packet that a factory of PacketManager makes, as the object that the handlers get.\<close>

datatype packet_object = GameObject game_packet | DBObject db_packet

definition made_object :: "PacketManager \<Rightarrow> PacketId \<Rightarrow> packet_object option" where
  "made_object pm packetId = map_option GameObject (MakePacket pm packetId)"

text \<open>
  \<open>memcpy\<close> over the members of a packet, which are packed. Only the members of DBJobReply may be
  overwritten byte by byte: the other packets have containers among them, or no room at all.
\<close>

definition u64_bytes :: "u64 \<Rightarrow> u8 list" where
  "u64_bytes v = map (\<lambda>i. ucast (drop_bit (8 * i) v)) [0..<8]"

definition bytes_u64 :: "u8 list \<Rightarrow> u64" where
  "bytes_u64 bs = foldr (\<lambda>b v. or (ucast b) (push_bit 8 v)) bs 0"

definition object_memcpy :: "u8 list \<Rightarrow> packet_object \<Rightarrow> packet_object outcome" where
  "object_memcpy bytes obj =
     (if bytes = [] then Inr obj
      else case obj of
        DBObject (DBJobReply k succeeded) \<Rightarrow>
          (let members = u64_bytes k @ [if succeeded then 1 else 0];
               members = bytes @ drop (length bytes) members
           in if length bytes > 9 \<or> members ! 8 > 1 then Inl UndefinedBehaviour
              else Inr (DBObject (DBJobReply (bytes_u64 (take 8 members)) (members ! 8 = 1))))
      | _ \<Rightarrow> Inl UndefinedBehaviour)"

text \<open>
  The lambda of RegisterPacketHandler: \<open>any_cast\<close> gives back the pointer that SPReplyHandle put in;
  the \<open>static_cast\<close> is good for an object of the class of the handler only.
\<close>

definition reply_handler ::
  "('r, 'q, 'p) server_ops \<Rightarrow> lan_buf_ops \<Rightarrow> reply_class \<Rightarrow> packet_object any_packet \<Rightarrow> CSerializationBuf \<Rightarrow>
   ('r, 'q, 'p) reply_world \<Rightarrow> ('r, 'q, 'p) reply_world outcome" where
  "reply_handler ops lb c packet recvPacket w =
     obind (any_cast IPacket_ptr packet) (\<lambda>realPacket.
       case (c, realPacket) of
         (Class_CallSelectTest2ProcedurePacketReply, DBObject (CallSelectTest2ProcedurePacketReply _ _ _)) \<Rightarrow>
           obind (AssemblePacket_select ops lb recvPacket (rw_server w)) (\<lambda>(_, s). Inr (w\<lparr>rw_server := s\<rparr>))
       | (Class_DBJobReply, DBObject (DBJobReply k succeeded)) \<Rightarrow>
           (case AssemblePacket_job k succeeded (rw_jobs w) of (_, _) \<Rightarrow> Inr w)
       | _ \<Rightarrow> Inl UndefinedBehaviour)"

definition SPReplyHandle ::
  "('r, 'q, 'p) server_ops \<Rightarrow> lan_buf_ops \<Rightarrow> reply_table \<Rightarrow> (PacketId \<Rightarrow> packet_object option) \<Rightarrow> PacketId \<Rightarrow>
   CSerializationBuf \<Rightarrow> ('r, 'q, 'p) reply_world \<Rightarrow> ('r, 'q, 'p) reply_world outcome" where
  "SPReplyHandle ops lb m mk packetId recvPacket w =
     (case Reply_GetPacketHandler m packetId of
        None \<Rightarrow> Inr w
      | Some packetHandler \<Rightarrow>
          (case mk packetId of
             None \<Rightarrow> Inr w
           | Some packet \<Rightarrow>
               obind (object_memcpy (take (nat (lb_GetUseSize lb recvPacket)) (lb_GetReadBufferPtr lb recvPacket)) packet)
                 (\<lambda>packet. reply_handler ops lb packetHandler (Any IPacket_ptr packet) recvPacket w)))"

definition DBClient_OnRecv ::
  "('r, 'q, 'p) server_ops \<Rightarrow> lan_buf_ops \<Rightarrow> reply_table \<Rightarrow> (PacketId \<Rightarrow> packet_object option) \<Rightarrow>
   CSerializationBuf \<Rightarrow> ('r, 'q, 'p) reply_world \<Rightarrow> ('r, 'q, 'p) reply_world outcome" where
  "DBClient_OnRecv ops lb m mk OutReadBuf w =
     (case lb_get lb TUInt OutReadBuf of (v, buffer) \<Rightarrow> SPReplyHandle ops lb m mk (read_UInt v) buffer w)"

text \<open>The tables as \<open>main\<close> and the constructor of DBClient fill them.\<close>

abbreviation shipped_replies :: reply_table where
  "shipped_replies \<equiv> Reply_Initialize Map.empty"

abbreviation shipped_factory :: "PacketId \<Rightarrow> packet_object option" where
  "shipped_factory \<equiv> made_object (PacketManager_Init empty_PacketManager)"

section \<open>No reply has an effect\<close>

lemma OnRecv_ignores: "DBClient_OnRecv ops lb shipped_replies shipped_factory b w = Inr w"
proof -
  obtain v b' where get: "lb_get lb TUInt b = (v, b')" by (rule prod.exhaust)
  show ?thesis
  proof (cases "Reply_GetPacketHandler shipped_replies (read_UInt v)")
    case None
    with get show ?thesis by (simp add: DBClient_OnRecv_def SPReplyHandle_def)
  next
    case (Some c)
    then have "read_UInt v \<in> {13, 14}" using Reply_Initialize_lookup by (cases c) auto
    then have "read_UInt v \<notin> {1, 2, 3, 4, 6, 8}" by auto
    then have "shipped_factory (read_UInt v) = None" using Init_lookups(2) by (simp add: made_object_def)
    with Some get show ?thesis by (simp add: DBClient_OnRecv_def SPReplyHandle_def)
  qed
qed

text \<open>
  C36: ProcedureReplyHandler knows the two replies of the database server, but the objects for them
  come from PacketManager, which makes packets of clients only. With both tables as the program
  fills them, a worker of the database client does with any completion exactly what it would do
  with an empty OnRecv: no reply reaches a session or a batch.
\<close>

theorem replies_are_ignored:
  "Lan_Worker lops (DBClient_OnRecv ops (lo_buf lops) shipped_replies shipped_factory) result c w =
   Lan_Worker lops (\<lambda>b w. Inr w) result c w"
  by (rule arg_cong [where f = "\<lambda>f. Lan_Worker lops f result c w"]) (intro ext OnRecv_ignores)

text \<open>
  With a factory for the replies, the reply to a batch would still find no batch, by the key that
  the batch has, and run no callback.
\<close>

lemma reply_runs_no_callback:
  assumes "job_run (initial_jobs mem) n s" and "n + 2 < 2 ^ 64" and "b < nextBatch s"
  shows "AssemblePacket_job (dbJobKey (batchAt s b)) succeeded s = (True, [])"
  using job_run_ok [OF assms(1,2)] assms(3)
  by (simp add: jobs_ok_def AssemblePacket_job_def GetRegistedDBJob_def)

text \<open>What a client gets of a result set that fits a buffer: the two lists, with no packet id in front.\<close>

lemma AssemblePacket_select_sends:
  assumes "net_stream_laws (so_net ops) sz flds" and "net_fits (so_net ops) sz [FIntList ns, FStringList ss]" and "sessionMapLock s = Unlocked" and "sessionMap s k = Some a"
    and "lb_get lb TUInt64 r = (FUInt64 k, r1)" and "lb_get lb TIntList r1 = (FIntList ns, r2)"
    and "lb_get lb TStringList r2 = (FStringList ss, r3)"
  shows "\<exists>b. flds b = [FIntList ns, FStringList ss] \<and>
    AssemblePacket_select ops lb r s = obind (SendPacket ops a b s) (\<lambda>s. Inr (True, s))"
proof -
  obtain b where b: "nb_Alloc (so_net ops) = Some b"
    "flds (fold (nb_put (so_net ops)) [FIntList ns, FStringList ss] b) = [FIntList ns, FStringList ss]"
    using net_stream_puts [OF assms(1,2)] .
  let ?b = "nb_put (so_net ops) (FStringList ss) (nb_put (so_net ops) (FIntList ns) b)"
  have "flds ?b = [FIntList ns, FStringList ss]" using b by simp
  moreover have "AssemblePacket_select ops lb r s = obind (SendPacket ops a ?b s) (\<lambda>s. Inr (True, s))"
    using assms b by (simp add: AssemblePacket_select_def GetSession_Unlocked Let_def)
  ultimately show ?thesis by blast
qed

text \<open>What \<open>memcpy\<close> does to a DBJobReply from the nine bytes of its members.\<close>

lemma low_byte_first: "or (ucast (ucast (w :: u64) :: u8)) (push_bit 8 (drop_bit 8 w)) = w"
proof (rule bit_word_eqI)
  fix n assume "n < LENGTH(64)"
  then show "bit (or (ucast (ucast w :: u8)) (push_bit 8 (drop_bit 8 w))) n = bit w n"
    by (cases "n < 8") (simp_all add: bit_simps)
qed

lemma bytes_u64_bytes: "bytes_u64 (u64_bytes v) = v"
proof -
  have step: "foldr (\<lambda>b v. or (ucast b) (push_bit 8 v)) (map (\<lambda>i. ucast (drop_bit (8 * i) v) :: u8) [8 - k..<8]) 0 =
      drop_bit (8 * (8 - k)) v" if "k \<le> 8" for k
    using that
  proof (induction k)
    case 0
    have "drop_bit 64 v = 0" by (rule bit_word_eqI) (simp add: bit_simps)
    then show ?case by simp
  next
    case (Suc k)
    then have "Suc (8 - Suc k) = 8 - k" "8 - Suc k < 8" by simp_all
    then have "[8 - Suc k..<8] = (8 - Suc k) # [8 - k..<8]" by (simp only: upt_conv_Cons)
    moreover have "drop_bit (8 * (8 - k)) v = drop_bit 8 (drop_bit (8 * (8 - Suc k)) v)"
      using Suc.prems by (simp add: drop_bit_drop_bit algebra_simps)
    ultimately show ?case using Suc low_byte_first [of "drop_bit (8 * (8 - Suc k)) v"] by simp
  qed
  from step [of 8] show ?thesis by (simp add: bytes_u64_def u64_bytes_def)
qed

lemma object_memcpy_reply:
  "object_memcpy (u64_bytes v @ [if b then 1 else 0]) (DBObject (DBJobReply k succeeded)) = Inr (DBObject (DBJobReply v b))"
proof -
  have len: "length (u64_bytes v) = 8" by (simp add: u64_bytes_def)
  then have "u64_bytes v \<noteq> []" by auto
  with len show ?thesis by (auto simp: object_memcpy_def Let_def nth_append bytes_u64_bytes)
qed

end
