(* ===== verification/Broadcast.thy ===== *)
theory Broadcast
  imports ServerProps
begin

text \<open>
  \<open>Broadcaster::BroadcastToAllSession\<close>: one packet to every session whose id is in the set, with
  the buffer that is encoded by the first SendPacket and shared by the others.
\<close>

section \<open>BroadcastToAllSession\<close>

text \<open>The loop over the copied ids; \<open>buffer\<close> is the buffer as the calls before have left it.\<close>

fun broadcast_loop ::
  "('r, 'q, 'p) server_ops \<Rightarrow> NetBuffer \<Rightarrow> SessionId list \<Rightarrow> ('r, 'q, 'p) server \<Rightarrow> ('r, 'q, 'p) server outcome" where
  "broadcast_loop ops buffer [] s = Inr s"
| "broadcast_loop ops buffer (k # sessionIdList) s =
     obind (GetSession k s) (\<lambda>(session, s).
       case session of
         None \<Rightarrow> broadcast_loop ops buffer sessionIdList s
       | Some a \<Rightarrow>
           if isReleasedSession (heap s a) then broadcast_loop ops buffer sessionIdList s
           else obind (SendPacket ops a buffer s) (\<lambda>s.
             broadcast_loop ops (encode_packet (so_net ops) buffer) sessionIdList s))"

text \<open>
  AddRefCount is called before the pointer is tested; what it does with a null pointer is the
  parameter \<open>add_ref_null\<close>.
\<close>

definition BroadcastToAllSession ::
  "('r, 'q, 'p) server_ops \<Rightarrow> unit outcome \<Rightarrow> game_packet \<Rightarrow> ('r, 'q, 'p) server \<Rightarrow> ('r, 'q, 'p) server outcome" where
  "BroadcastToAllSession ops add_ref_null packet s =
     (case nb_Alloc (so_net ops) of
        None \<Rightarrow> obind add_ref_null (\<lambda>_. Inr s)
      | Some buffer \<Rightarrow>
          (let buffer = nb_put (so_net ops) (FUInt (GetPacketId packet)) buffer;
               buffer = PacketToBuffer (so_net ops) packet buffer;
               sessionIdList = sorted_list_of_set (sessionIdSet s)
           in broadcast_loop ops buffer sessionIdList s))"

section \<open>What a broadcast is\<close>

text \<open>One send after the other, of the same packet.\<close>

fun send_all ::
  "('r, 'q, 'p) server_ops \<Rightarrow> NetBuffer \<Rightarrow> nat list \<Rightarrow> ('r, 'q, 'p) server \<Rightarrow> ('r, 'q, 'p) server outcome" where
  "send_all ops p [] s = Inr s"
| "send_all ops p (a # as) s = obind (SendPacket ops a p s) (send_all ops p as)"

definition target :: "('r, 'q, 'p) server \<Rightarrow> SessionId \<Rightarrow> nat option" where
  "target s k = (case sessionMap s k of
     None \<Rightarrow> None
   | Some a \<Rightarrow> if isReleasedSession (heap s a) then None else Some a)"

definition broadcast_targets :: "('r, 'q, 'p) server \<Rightarrow> nat list" where
  "broadcast_targets s = List.map_filter (target s) (sorted_list_of_set (sessionIdSet s))"

section \<open>The loop is the fold\<close>

lemma ReleaseSession_isReleased:
  "ReleaseSession a s = Inr s' \<Longrightarrow> isReleasedSession (heap s' b) = isReleasedSession (heap s b)"
  by (auto simp: ReleaseSession_def OnSessionReleased_def with_map_lock_def scoped_def Let_def outcome_simps split: if_splits)

lemma IOCountDecrement_isReleased:
  "IOCountDecrement a s = Inr s' \<Longrightarrow> isReleasedSession (heap s' b) = isReleasedSession (heap s b)"
  by (auto simp: IOCountDecrement_def OnSessionLeaved_def Let_def split: if_splits dest!: ReleaseSession_isReleased [where b = b])

lemma SendPost_isReleased:
  assumes "SendPost ops a s = Inr (r, s')"
  shows "isReleasedSession (heap s' b) = isReleasedSession (heap s b)"
  using assms
proof (cases rule: SendPost_cases)
  case sent
  then show ?thesis by (auto elim!: SendPost_sendE split: if_splits)
next
  case (refused s1)
  then show ?thesis by (auto elim!: SendPost_sendE dest!: IOCountDecrement_isReleased [where b = b] split: if_splits)
qed simp_all

lemma SendPacket_target:
  assumes "pool_laws (so_pool ops) used" and "server_inv used hold s" and "sessionMap s k = Some a"
    and "SendPacket ops a p s = Inr s'"
  shows "server_inv used hold s'" and "target s' = target s"
proof -
  from SendPacket_keeps [OF assms] show "server_inv used hold s'" by simp
  have "sessionMap s' = sessionMap s" using SendPacket_keeps [OF assms] by (simp add: keeps_def)
  moreover have "isReleasedSession (heap s' b) = isReleasedSession (heap s b)" for b
    using assms(4) by (auto simp: SendPacket_def Let_def outcome_simps dest!: SendPost_isReleased [where b = b] split: if_splits)
  ultimately show "target s' = target s" by (intro ext) (simp add: target_def split: option.split)
qed

lemma SendPacket_encoded:
  "encode_packet (so_net ops) p = encode_packet (so_net ops) q \<Longrightarrow> SendPacket ops a p s = SendPacket ops a q s"
  by (simp add: SendPacket_def)

lemma broadcast_loop_eq:
  assumes pool: "pool_laws (so_pool ops) used" and once: "encode_packet (so_net ops) p = p"
    and "server_inv used hold s" and "encode_packet (so_net ops) buffer = p"
  shows "broadcast_loop ops buffer ks s = send_all ops p (List.map_filter (target s) ks) s"
  using assms(3,4)
proof (induction ks arbitrary: buffer s)
  case (Cons k ks)
  note free = GetSession_Unlocked [OF server_inv_lock [OF Cons.prems(1)]]
  show ?case
  proof (cases "target s k")
    case None
    then show ?thesis
      using Cons free by (auto simp: map_filter_simps target_def split: option.splits if_splits)
  next
    case (Some a)
    then have a: "sessionMap s k = Some a" "\<not> isReleasedSession (heap s a)"
      by (auto simp: target_def split: option.splits if_splits)
    have send: "SendPacket ops a buffer s = SendPacket ops a p s"
      by (rule SendPacket_encoded) (simp add: Cons.prems(2) once)
    have "broadcast_loop ops p ks s' = send_all ops p (List.map_filter (target s) ks) s'"
      if "SendPacket ops a p s = Inr s'" for s'
      using Cons.IH [of s' p] SendPacket_target [OF pool Cons.prems(1) a(1) that] once by simp
    with a Some free send show ?thesis
      by (cases "SendPacket ops a p s") (simp_all add: map_filter_simps Cons.prems(2))
  qed
qed (simp add: map_filter_simps)

text \<open>
  C37: A broadcast is one SendPacket for each session whose id is in the set and that the server
  still has, in the order of the ids, of one buffer that was encoded once: its first send marks it
  as encoded, and every later one takes it as it is. Ids that the set has kept after their session
  was released (those of a packet error) are passed over.
\<close>

theorem broadcast_sends_once_each:
  assumes "pool_laws (so_pool ops) used" and "server_inv used hold s"
    and "nb_Alloc (so_net ops) = Some b" and "\<And>x. m_bIsEncoded (nb_Encode (so_net ops) x)"
  shows "BroadcastToAllSession ops add_ref_null packet s =
    send_all ops (encode_packet (so_net ops) (PacketToBuffer (so_net ops) packet
      (nb_put (so_net ops) (FUInt (GetPacketId packet)) b))) (broadcast_targets s) s"
proof -
  let ?raw = "PacketToBuffer (so_net ops) packet (nb_put (so_net ops) (FUInt (GetPacketId packet)) b)"
  have "encode_packet (so_net ops) (encode_packet (so_net ops) ?raw) = encode_packet (so_net ops) ?raw"
    using assms(4) by (simp add: encode_packet_def)
  from broadcast_loop_eq [OF assms(1) this assms(2)] assms(3) show ?thesis
    by (simp add: BroadcastToAllSession_def broadcast_targets_def)
qed

theorem broadcast_sends_once_each_witness:
  "\<exists>s p. sessionMap s = [2 \<mapsto> 0] \<and> 2 \<in> sessionIdSet s \<and>
    BroadcastToAllSession (demo_ops {}) (Inr ()) (TestStringPacket ''hi'') s =
      send_all (demo_ops {}) p (broadcast_targets s) s \<and> m_bIsEncoded p"
proof -
  obtain s c where acc: "accepted_one {} s c"
    by (rule demo_accepted [of "{}"]) simp_all
  then have s: "server_inv list_pool_used None s" "sessionMap s = [2 \<mapsto> 0]" "2 \<in> sessionIdSet s"
    by (simp_all add: accepted_one_def)
  obtain b where b: "nb_Alloc plain_net = Some b" by (simp add: plain_net_def)
  let ?p = "encode_packet plain_net (PacketToBuffer plain_net (TestStringPacket ''hi'')
      (nb_put plain_net (FUInt (GetPacketId (TestStringPacket ''hi''))) b))"
  have enc: "m_bIsEncoded (nb_Encode plain_net x)" for x by (simp add: plain_net_def)
  have "BroadcastToAllSession (demo_ops {}) (Inr ()) (TestStringPacket ''hi'') s =
      send_all (demo_ops {}) ?p (broadcast_targets s) s"
    using broadcast_sends_once_each [OF _ s(1), of "demo_ops {}" b "Inr ()" "TestStringPacket ''hi''"] b enc
    by (simp add: list_pool_laws)
  moreover have "m_bIsEncoded ?p" using enc by (simp add: encode_packet_def)
  ultimately show ?thesis using s by blast
qed

end
