(* ===== verification/Logging.thy ===== *)
theory Logging
  imports Prelude
begin

text \<open>
  Logger, the log objects of LogClass, PrintError of RIOTestServer.cpp, and DeadlockChecker. The
  JSON library gives a text to the objects that are written; the model keeps the assignments that
  the code makes to them.
\<close>

section \<open>Log objects\<close>

datatype json = JString string | JNumber u32 | JObject "(string \<times> json) list"

record ServerLog =
  loggingTime :: string
  lastErrorCode :: u32
  logString :: string

definition ObjectToJson :: "ServerLog \<Rightarrow> json" where
  "ObjectToJson obj = JObject [(''logString'', JString (logString obj))]"

definition ObjectToJsonImpl :: "ServerLog \<Rightarrow> json" where
  "ObjectToJsonImpl obj = JObject
     [(''LogTime'', JString (loggingTime obj)), (''GetLastErrorCode'', JNumber (lastErrorCode obj)),
      (''Log'', ObjectToJson obj)]"

text \<open>\<open>now\<close> is the formatted time, \<open>None\<close> when \<open>gmtime_s\<close> fails.\<close>

definition SetLogTime :: "string option \<Rightarrow> ServerLog \<Rightarrow> ServerLog outcome" where
  "SetLogTime now obj = (case now of None \<Rightarrow> Inl Crash | Some t \<Rightarrow> Inr (obj\<lparr>loggingTime := t\<rparr>))"

section \<open>Logger\<close>

text \<open>
  \<open>loggerEventHandles\<close> says whether the two events have been created; before, \<open>SetEvent\<close> does nothing.
  They reset when a wait has returned for them. \<open>logFile\<close> and \<open>console\<close> are what was
  streamed to the file and to the console.
\<close>

record logger =
  logWaitingQueue :: "ServerLog list"
  loggerEventHandles :: bool
  logEvent :: bool
  stopEvent :: bool
  logFile :: "json list"
  console :: "json list"
  isPrintConsole :: bool

definition new_logger :: logger where
  "new_logger = \<lparr>logWaitingQueue = [], loggerEventHandles = False, logEvent = False, stopEvent = False, logFile = [], console = [],
     isPrintConsole = False\<rparr>"

text \<open>The constructor: \<open>gmtime_s\<close>, which names the file, and the file itself have to work.\<close>

definition Logger_ctor :: "bool \<Rightarrow> bool \<Rightarrow> logger outcome" where
  "Logger_ctor gmtime_ok is_open =
     (if \<not> gmtime_ok then Inl Crash else if \<not> is_open then Inl Crash else Inr new_logger)"

definition WriteLog :: "string option \<Rightarrow> ServerLog \<Rightarrow> logger \<Rightarrow> logger outcome" where
  "WriteLog now logObject l =
     obind (SetLogTime now logObject) (\<lambda>logObject.
       let l = l\<lparr>logWaitingQueue := logWaitingQueue l @ [logObject]\<rparr>
       in Inr (if loggerEventHandles l then l\<lparr>logEvent := True\<rparr> else l))"

text \<open>The logger is made by the first call of GetInstance; until then it is \<open>None\<close>.\<close>

definition GetInstance :: "bool \<Rightarrow> bool \<Rightarrow> logger option \<Rightarrow> logger outcome" where
  "GetInstance gmtime_ok is_open inst = (case inst of None \<Rightarrow> Logger_ctor gmtime_ok is_open | Some l \<Rightarrow> Inr l)"

definition PrintError ::
  "string option \<Rightarrow> bool \<Rightarrow> string \<Rightarrow> u32 \<Rightarrow> logger option \<Rightarrow> logger option outcome" where
  "PrintError now is_open errorFunctionName errorCode inst =
     (let log = \<lparr>loggingTime = '''', lastErrorCode = errorCode, logString = errorFunctionName @ ''() failed''\<rparr>
      in obind (GetInstance (now \<noteq> None) is_open inst) (\<lambda>l. obind (WriteLog now log l) (\<lambda>l. Inr (Some l))))"

definition WriteLogToFile :: "ServerLog \<Rightarrow> logger \<Rightarrow> logger" where
  "WriteLogToFile logObject l =
     (let logJson = ObjectToJsonImpl logObject;
          l = l\<lparr>logFile := logFile l @ [logJson]\<rparr>
      in if isPrintConsole l then l\<lparr>console := console l @ [logJson]\<rparr> else l)"

text \<open>
  The loop of WriteLogImpl over the queue. Its counter \<open>restSize\<close> does not change; \<open>front\<close> and
  \<open>pop\<close> of an empty queue have no meaning.
\<close>

fun move_waiting :: "nat \<Rightarrow> ServerLog list \<Rightarrow> ServerLog list \<Rightarrow> (ServerLog list \<times> ServerLog list) outcome" where
  "move_waiting restSize [] waitingLogList =
     (if restSize > 0 then Inl UndefinedBehaviour else Inr ([], waitingLogList))"
| "move_waiting restSize (x # queue) waitingLogList =
     (if restSize > 0 then move_waiting restSize queue (waitingLogList @ [x]) else Inr (x # queue, waitingLogList))"

definition WriteLogImpl :: "ServerLog list \<Rightarrow> logger \<Rightarrow> (ServerLog list \<times> logger) outcome" where
  "WriteLogImpl waitingLogList l =
     (let restSize = length (logWaitingQueue l)
      in obind (move_waiting restSize (logWaitingQueue l) waitingLogList) (\<lambda>(queue, waitingLogList).
           Inr (waitingLogList, fold WriteLogToFile waitingLogList (l\<lparr>logWaitingQueue := queue\<rparr>))))"

text \<open>One round of Worker with the result of its wait; the answer is whether it goes on.\<close>

definition Logger_Worker :: "u32 \<Rightarrow> ServerLog list \<Rightarrow> logger \<Rightarrow> (bool \<times> ServerLog list \<times> logger) outcome" where
  "Logger_Worker result waitingLogList l =
     (if result = 0 then obind (WriteLogImpl waitingLogList l) (\<lambda>(_, l). Inr (True, [], l))
      else if result = 1 then obind (WriteLogImpl waitingLogList l) (\<lambda>(waitingLogList, l). Inr (False, waitingLogList, l))
      else Inl Crash)"

text \<open>\<open>created\<close> is whether the system creates both events. StopLoggerThread up to the join.\<close>

definition RunLoggerThread :: "bool \<Rightarrow> logger \<Rightarrow> logger outcome" where
  "RunLoggerThread created l =
     (if \<not> created then Inl Crash
      else Inr (l\<lparr>loggerEventHandles := True, logEvent := False, stopEvent := False\<rparr>))"

definition StopLoggerThread :: "logger \<Rightarrow> logger" where
  "StopLoggerThread l = (if loggerEventHandles l then l\<lparr>stopEvent := True\<rparr> else l)"

text \<open>
  The threads of the program and the logger thread, which WaitForMultipleObjects wakes for the
  first event that is set.
\<close>

inductive logger_step :: "bool \<times> ServerLog list \<times> logger \<Rightarrow> bool \<times> ServerLog list \<times> logger \<Rightarrow> bool" where
  log_write: "WriteLog now obj l = Inr l' \<Longrightarrow> logger_step (running, w, l) (running, w, l')"
| log_run: "RunLoggerThread created l = Inr l' \<Longrightarrow> logger_step (False, w, l) (True, [], l')"
| log_stop: "logger_step (running, w, l) (running, w, StopLoggerThread l)"
| log_round: "logEvent l \<Longrightarrow> Logger_Worker 0 w (l\<lparr>logEvent := False\<rparr>) = Inr r \<Longrightarrow> logger_step (True, w, l) r"
| stop_round: "\<not> logEvent l \<Longrightarrow> stopEvent l \<Longrightarrow> Logger_Worker 1 w (l\<lparr>stopEvent := False\<rparr>) = Inr r \<Longrightarrow>
    logger_step (True, w, l) r"

inductive logger_reach :: "bool \<times> ServerLog list \<times> logger \<Rightarrow> bool \<times> ServerLog list \<times> logger \<Rightarrow> bool" for x where
  logger_start: "logger_reach x x"
| logger_next: "logger_reach x y \<Longrightarrow> logger_step y z \<Longrightarrow> logger_reach x z"

lemma move_waiting_positive: "0 < n \<Longrightarrow> move_waiting n q w = Inl UndefinedBehaviour"
  by (induction n q w rule: move_waiting.induct) simp_all

lemma WriteLogImpl_eq:
  "WriteLogImpl w l = (if logWaitingQueue l = [] then Inr (w, fold WriteLogToFile w l) else Inl UndefinedBehaviour)"
proof (cases "logWaitingQueue l")
  case Nil
  then show ?thesis by (cases l) (simp add: WriteLogImpl_def)
qed (simp add: WriteLogImpl_def move_waiting_positive)

definition nothing_written :: "bool \<times> ServerLog list \<times> logger \<Rightarrow> bool" where
  "nothing_written x \<longleftrightarrow> fst (snd x) = [] \<and> logFile (snd (snd x)) = [] \<and> console (snd (snd x)) = []"

lemma Logger_Worker_Inr:
  assumes "Logger_Worker result w l = Inr r" and "w = []"
  shows "logWaitingQueue l = [] \<and> fst (snd r) = [] \<and> snd (snd r) = l"
  using assms by (auto simp: Logger_Worker_def WriteLogImpl_eq split: if_splits)

lemma logger_step_nothing: "logger_step x y \<Longrightarrow> nothing_written x \<Longrightarrow> nothing_written y"
proof (induction rule: logger_step.induct)
  case (log_write now obj l l' running w)
  then show ?case by (cases now) (auto simp: nothing_written_def WriteLog_def SetLogTime_def Let_def split: if_splits)
qed (auto simp: nothing_written_def RunLoggerThread_def StopLoggerThread_def split: if_splits dest!: Logger_Worker_Inr)

lemma logger_reach_nothing: "logger_reach x y \<Longrightarrow> nothing_written x \<Longrightarrow> nothing_written y"
  by (induction rule: logger_reach.induct) (auto dest: logger_step_nothing)

text \<open>
  C38: WriteLogImpl does not count down what is left to move, so a round of the logger thread with
  any entry in the queue goes on past the end of the queue. No run of the program that has a
  meaning ever writes a line to the log file or to the console.
\<close>

theorem logger_writes_nothing:
  assumes "logger_reach (False, [], new_logger) (running, w, l)"
  shows "logFile l = [] \<and> console l = [] \<and>
    (if logWaitingQueue l = [] then w = [] else Logger_Worker 0 w l = Inl UndefinedBehaviour)"
proof -
  have "nothing_written (running, w, l)"
    using logger_reach_nothing [OF assms] by (simp add: nothing_written_def new_logger_def)
  then show ?thesis by (simp add: nothing_written_def Logger_Worker_def WriteLogImpl_eq)
qed

theorem logger_writes_nothing_witness:
  "\<exists>l0 l. GetInstance True True None = Inr new_logger \<and> RunLoggerThread True new_logger = Inr l0 \<and>
    PrintError (Some ''2024-01-01'') True ''bind'' 10048 (Some l0) = Inr (Some l) \<and>
    length (logWaitingQueue l) = 1 \<and> logEvent l \<and> Logger_Worker 0 [] l = Inl UndefinedBehaviour"
proof -
  let ?started = "new_logger\<lparr>loggerEventHandles := True\<rparr>"
  let ?l = "?started\<lparr>logWaitingQueue := [\<lparr>loggingTime = ''2024-01-01'', lastErrorCode = 10048, logString = ''bind() failed''\<rparr>],
    logEvent := True\<rparr>"
  have start: "RunLoggerThread True new_logger = Inr ?started" by (simp add: RunLoggerThread_def new_logger_def)
  have written: "WriteLog (Some ''2024-01-01'') \<lparr>loggingTime = '''', lastErrorCode = 10048, logString = ''bind() failed''\<rparr> ?started = Inr ?l"
    by (simp add: WriteLog_def SetLogTime_def new_logger_def)
  then have run: "PrintError (Some ''2024-01-01'') True ''bind'' 10048 (Some ?started) = Inr (Some ?l)"
    by (simp add: PrintError_def GetInstance_def)
  have made: "GetInstance True True None = Inr new_logger" by (simp add: GetInstance_def Logger_ctor_def)
  have "logger_reach (False, [], new_logger) (True, [], ?started)"
    by (rule logger_reach.logger_next [OF logger_reach.logger_start logger_step.log_run [OF start]])
  then have "logger_reach (False, [], new_logger) (True, [], ?l)"
    by (rule logger_reach.logger_next) (rule logger_step.log_write [OF written])
  from logger_writes_nothing [OF this] start run made show ?thesis by simp
qed

section \<open>DeadlockChecker\<close>

text \<open>
  The checks are compiled in when USE_DEDALOCK_CHECKER is not zero: \<open>enabled\<close>. A thread stands
  with the tick that its functor returns.
\<close>

definition maxCheckCount :: u16 where "maxCheckCount = 20000"

definition RegisterCheckThread :: "bool \<Rightarrow> nat \<Rightarrow> 'f \<Rightarrow> (nat \<rightharpoonup> 'f) \<Rightarrow> bool \<times> (nat \<rightharpoonup> 'f)" where
  "RegisterCheckThread enabled k countGetterFunctor checkerMap =
     (if enabled then
        (case checkerMap k of Some _ \<Rightarrow> (False, checkerMap) | None \<Rightarrow> (True, checkerMap(k \<mapsto> countGetterFunctor)))
      else (True, checkerMap))"

definition DeregisteredCheckThread :: "bool \<Rightarrow> nat \<Rightarrow> (nat \<rightharpoonup> 'f) \<Rightarrow> (nat \<rightharpoonup> 'f)" where
  "DeregisteredCheckThread enabled k checkerMap = (if enabled then checkerMap(k := None) else checkerMap)"

text \<open>One round of the checker at the tick \<open>now\<close>, over the ticks of the registered threads.\<close>

fun CheckDeadlock :: "u64 \<Rightarrow> u64 list \<Rightarrow> unit outcome" where
  "CheckDeadlock now [] = Inr ()"
| "CheckDeadlock now (threadUpdatedTick # ticks) =
     (if threadUpdatedTick \<ge> now - ucast maxCheckCount then CheckDeadlock now ticks else Inl Crash)"

text \<open>The thread, over the rounds in which it wakes up.\<close>

fun CheckDeadlockThread :: "bool \<Rightarrow> (u64 \<times> u64 list) list \<Rightarrow> unit outcome" where
  "CheckDeadlockThread enabled [] = Inr ()"
| "CheckDeadlockThread enabled ((now, ticks) # rounds) =
     (if enabled then obind (CheckDeadlock now ticks) (\<lambda>_. CheckDeadlockThread enabled rounds) else Inr ())"

lemma CheckDeadlock_eq:
  "CheckDeadlock now ticks = Inl Crash \<longleftrightarrow> (\<exists>t \<in> set ticks. t < now - ucast maxCheckCount)"
  by (induction now ticks rule: CheckDeadlock.induct) (auto simp: not_le)

text \<open>
  The checker stops the program when some thread has not updated its tick for twenty seconds.
  In the first twenty seconds after the system has booted the limit wraps around, and a thread
  whose tick is the present one is enough.
\<close>

lemma CheckDeadlock_crashes_iff:
  "CheckDeadlock now ticks = Inl Crash \<longleftrightarrow>
   (\<exists>t \<in> set ticks. if unat now < 20000 then unat t + 20000 < unat now + 2 ^ 64 else unat t + 20000 < unat now)"
proof -
  have "t < now - ucast maxCheckCount \<longleftrightarrow>
      (if unat now < 20000 then unat t + 20000 < unat now + 2 ^ 64 else unat t + 20000 < unat now)" for t
  proof -
    have "unat (now - 20000) = (if unat now < 20000 then unat now + 2 ^ 64 - 20000 else unat now - 20000)"
      using unat_sub_if' [of now 20000] by simp
    then show ?thesis by (auto simp: maxCheckCount_def word_less_nat_alt)
  qed
  then show ?thesis by (simp add: CheckDeadlock_eq)
qed

text \<open>Compiled in, the thread stops the program in the first round in which one thread is late; as it ships, never.\<close>

lemma CheckDeadlock_cases: "CheckDeadlock now ticks \<in> {Inr (), Inl Crash}"
  by (induction now ticks rule: CheckDeadlock.induct) auto

lemma CheckDeadlockThread_crashes_iff:
  "CheckDeadlockThread enabled rounds = Inl Crash \<longleftrightarrow>
   enabled \<and> (\<exists>x \<in> set rounds. CheckDeadlock (fst x) (snd x) = Inl Crash)"
proof (induction enabled rounds rule: CheckDeadlockThread.induct)
  case (2 enabled now ticks rounds)
  from CheckDeadlock_cases [of now ticks] consider "CheckDeadlock now ticks = Inr ()" | "CheckDeadlock now ticks = Inl Crash" by blast
  then show ?case using 2 by cases (cases enabled; simp)+
qed simp

end
