(* ===== verification/Startup.thy ===== *)
theory Startup
  imports ServerThreads Broadcast ReplyHandler Logging
begin

text \<open>
  How the program comes up and goes down: the option files, RIOTestServer::StartServer with
  SetSocketOption, InitializeRIO and RunThreads, the loop of Accepter, StopServer, and \<open>main\<close>, which
  leaves the database client unstarted. A start that succeeds ends in the \<open>initial_server\<close> of
  Lifecycle, from which the properties of the running server go out.
\<close>

section \<open>Option files\<close>

text \<open>
  The parser of the common library: what it finds under a section and a key. The option files'
  keys are the literals of the code.
\<close>

record parser_ops =
  GetValue_Byte :: "string \<Rightarrow> string \<Rightarrow> u8 option"
  GetValue_Short :: "string \<Rightarrow> string \<Rightarrow> u16 option"
  GetValue_Int :: "string \<Rightarrow> string \<Rightarrow> u32 option"
  GetValue_String :: "string \<Rightarrow> string \<Rightarrow> string option"

record server_options =
  numOfWorkerThread :: u8
  nagleOn :: bool
  server_port :: u16
  option_maxClientCount :: u32
  option_byHeaderCode :: u8
  option_byXORCode :: u8

definition ServerOptionParsing :: "parser_ops \<Rightarrow> server_options \<Rightarrow> bool \<times> server_options" where
  "ServerOptionParsing parser opt =
     (case GetValue_Byte parser ''RIO_SERVER'' ''THREAD_COUNT'' of None \<Rightarrow> (False, opt) | Some v \<Rightarrow>
      let opt = opt\<lparr>numOfWorkerThread := v\<rparr> in
      case GetValue_Byte parser ''RIO_SERVER'' ''NAGLE_ON'' of None \<Rightarrow> (False, opt) | Some v \<Rightarrow>
      let opt = opt\<lparr>nagleOn := v \<noteq> 0\<rparr> in
      case GetValue_Short parser ''RIO_SERVER'' ''PORT'' of None \<Rightarrow> (False, opt) | Some v \<Rightarrow>
      let opt = opt\<lparr>server_port := v\<rparr> in
      case GetValue_Int parser ''RIO_SERVER'' ''MAX_CLIENT_COUNT'' of None \<Rightarrow> (False, opt) | Some v \<Rightarrow>
      let opt = opt\<lparr>option_maxClientCount := v\<rparr> in
      case GetValue_Byte parser ''SERIALIZEBUF'' ''PACKET_CODE'' of None \<Rightarrow> (False, opt) | Some v \<Rightarrow>
      let opt = opt\<lparr>option_byHeaderCode := v\<rparr> in
      case GetValue_Byte parser ''SERIALIZEBUF'' ''PACKET_KEY'' of None \<Rightarrow> (False, opt) | Some v \<Rightarrow>
      (True, opt\<lparr>option_byXORCode := v\<rparr>))"

text \<open>The options of the database client, after the file was read; the address is not kept.\<close>

definition LanClientOptionParsing :: "parser_ops \<Rightarrow> ('r, 'q) lan_client \<Rightarrow> bool \<times> ('r, 'q) lan_client" where
  "LanClientOptionParsing parser c =
     (case GetValue_String parser ''LANCLIENT'' ''SERVER_IP'' of None \<Rightarrow> (False, c) | Some _ \<Rightarrow>
      case GetValue_Short parser ''LANCLIENT'' ''SERVER_PORT'' of None \<Rightarrow> (False, c) | Some _ \<Rightarrow>
      let c = c\<lparr>m_byNumOfWorkerThread := 1, m_byNumOfUsingWorkerThread := 1, m_byNumOfSession := 1\<rparr> in
      case GetValue_Byte parser ''LANCLIENT'' ''WORKER_THREAD'' of None \<Rightarrow> (False, c) | Some v \<Rightarrow>
      let c = c\<lparr>m_byNumOfWorkerThread := v\<rparr> in
      case GetValue_Byte parser ''LANCLIENT'' ''USE_IOCPWORKER'' of None \<Rightarrow> (False, c) | Some v \<Rightarrow>
      let c = c\<lparr>m_byNumOfUsingWorkerThread := v\<rparr> in
      case GetValue_Byte parser ''LANCLIENT'' ''NAGLE_ON'' of None \<Rightarrow> (False, c) | Some v \<Rightarrow>
      let c = c\<lparr>m_bIsNagleOn := v \<noteq> 0\<rparr> in
      case GetValue_Byte parser ''LANCLIENT'' ''RECONNECT'' of None \<Rightarrow> (False, c) | Some v \<Rightarrow>
      let c = c\<lparr>m_bIsReconnect := v \<noteq> 0\<rparr> in
      case GetValue_Byte parser ''LANCLIENT'' ''SESSION_COUNT'' of None \<Rightarrow> (False, c) | Some v \<Rightarrow>
      (True, c\<lparr>m_byNumOfSession := v\<rparr>))"

section \<open>StartServer\<close>

text \<open>What the system answers while the server starts, and what it says of the time and of errors.\<close>

record system_answers =
  now_text :: "string option"
  log_file_opens :: bool
  GetLastError :: u32
  WSAStartup_ok :: bool
  listen_socket :: u64
  bind_ok :: bool
  listen_ok :: bool
  setsockopt_nagle_ok :: bool
  setsockopt_linger_ok :: bool
  WSAIoctl_ok :: bool

text \<open>
  The server around the sessions: its options, the threads it has started and not joined, the
  socket, and the logger, if it was needed yet. \<open>running\<close> is the state of Server.
\<close>

record ('r, 'q, 'p) program =
  options :: server_options
  listenSocket :: u64
  workerThreads :: nat
  accepterThread :: bool
  serverStop :: bool
  rioCQList :: "nat option"
  logs :: "logger option"
  running :: "('r, 'q, 'p) server"

definition report_error ::
  "system_answers \<Rightarrow> string \<Rightarrow> ('r, 'q, 'p) program \<Rightarrow> ('r, 'q, 'p) program outcome" where
  "report_error sys name g = 
     obind (PrintError (now_text sys) (log_file_opens sys) name (GetLastError sys) (logs g)) (\<lambda>l. Inr (g\<lparr>logs := l\<rparr>))"

definition fail ::
  "system_answers \<Rightarrow> string \<Rightarrow> ('r, 'q, 'p) program \<Rightarrow> (bool \<times> ('r, 'q, 'p) program) outcome" where
  "fail sys name g = obind (report_error sys name g) (\<lambda>g. Inr (False, g))"

text \<open>USE_SOCKET_LINGER_OPTION is 1.\<close>

definition SetSocketOption :: "system_answers \<Rightarrow> ('r, 'q, 'p) program \<Rightarrow> (bool \<times> ('r, 'q, 'p) program) outcome" where
  "SetSocketOption sys g =
     (if nagleOn (options g) \<and> \<not> setsockopt_nagle_ok sys then fail sys ''setsockopt_nagle'' g
      else if \<not> setsockopt_linger_ok sys then fail sys ''setsockopt_linger'' g
      else Inr (True, g))"

definition InitializeRIO :: "system_answers \<Rightarrow> ('r, 'q, 'p) program \<Rightarrow> (bool \<times> ('r, 'q, 'p) program) outcome" where
  "InitializeRIO sys g =
     (let n = unat (numOfWorkerThread (options g));
          g = g\<lparr>running := (running g)\<lparr>numOfSessionInWorkerThread :=
            fold (\<lambda>i list. list @ [0]) [0..<n] (numOfSessionInWorkerThread (running g))\<rparr>\<rparr>
      in if \<not> WSAIoctl_ok sys then fail sys ''WSAIoctl_SIO_GET_MULTIPLE_EXTENSION_FUNCTION_POINTER'' g
         else Inr (True, g\<lparr>rioCQList := Some n\<rparr>))"

text \<open>
  The wait of RunThreads, over the contents of \<open>workerOnList\<close> at each of its looks: whether it has
  seen every worker on.
\<close>

fun wait_workers :: "nat \<Rightarrow> bool list list \<Rightarrow> bool" where
  "wait_workers n [] = False"
| "wait_workers n (workerOnList # looks) =
     (if list_all (\<lambda>i. workerOnList ! i) [0..<n] then True else wait_workers n looks)"

definition RunThreads ::
  "bool list list \<Rightarrow> ('r, 'q, 'p) program \<Rightarrow> bool \<times> ('r, 'q, 'p) program" where
  "RunThreads looks g =
     (let n = unat (numOfWorkerThread (options g));
          g = g\<lparr>workerThreads := workerThreads g + n\<rparr>
      in if wait_workers n looks then (True, g\<lparr>accepterThread := True\<rparr>) else (False, g))"

text \<open>\<open>None\<close> while it waits for the workers, else what StartServer returns.\<close>

definition StartServer ::
  "parser_ops \<Rightarrow> system_answers \<Rightarrow> bool list list \<Rightarrow> ('r, 'q, 'p) program \<Rightarrow>
   (bool option \<times> ('r, 'q, 'p) program) outcome" where
  "StartServer parser sys looks g =
     (case ServerOptionParsing parser (options g) of (parsed, opt) \<Rightarrow>
      let g = g\<lparr>options := opt, running := (running g)\<lparr>maxClientCount := option_maxClientCount opt\<rparr>\<rparr>;
          failed = (\<lambda>name g. obind (fail sys name g) (\<lambda>(_, g). Inr (Some False, g)))
      in if \<not> parsed then failed ''ServerOptionParsing'' g
      else if \<not> WSAStartup_ok sys then failed ''WSAStartup'' g
      else
        let g = g\<lparr>listenSocket := listen_socket sys\<rparr>
        in if listenSocket g = INVALID_SOCKET then failed ''socket'' g
        else if \<not> bind_ok sys then failed ''bind'' g
        else if \<not> listen_ok sys then failed ''listen'' g
        else obind (SetSocketOption sys g) (\<lambda>(ok, g).
          if \<not> ok then Inr (Some False, g)
          else obind (InitializeRIO sys g) (\<lambda>(ok, g).
            if \<not> ok then Inr (Some False, g)
            else case RunThreads looks g of (up, g) \<Rightarrow> Inr (if up then Some True else None, g))))"

text \<open>The program when \<open>main\<close> calls StartServer: static memory and what the constructors set.\<close>

definition fresh_program ::
  "(nat \<Rightarrow> ('r, 'q) RIOTestSession) \<Rightarrow> 'p \<Rightarrow> (nat \<Rightarrow> IOContext) \<Rightarrow> ('r, 'q, 'p) program" where
  "fresh_program h p c = \<lparr>
     options = \<lparr>numOfWorkerThread = 0, nagleOn = False, server_port = 0, option_maxClientCount = 0,
       option_byHeaderCode = 0, option_byXORCode = 0\<rparr>,
     listenSocket = 0, workerThreads = 0, accepterThread = False, serverStop = False, rioCQList = None,
     logs = None, running = initial_server h p c 0 0\<rparr>"

section \<open>A start that succeeds\<close>

definition system_ok :: "system_answers \<Rightarrow> server_options \<Rightarrow> bool" where
  "system_ok sys opt \<longleftrightarrow>
     WSAStartup_ok sys \<and> listen_socket sys \<noteq> INVALID_SOCKET \<and> bind_ok sys \<and> listen_ok sys \<and>
     (\<not> nagleOn opt \<or> setsockopt_nagle_ok sys) \<and> setsockopt_linger_ok sys \<and> WSAIoctl_ok sys"

text \<open>The program when StartServer has returned true.\<close>

definition started_program ::
  "system_answers \<Rightarrow> server_options \<Rightarrow> (nat \<Rightarrow> ('r, 'q) RIOTestSession) \<Rightarrow> 'p \<Rightarrow> (nat \<Rightarrow> IOContext) \<Rightarrow>
   ('r, 'q, 'p) program" where
  "started_program sys opt h p c = \<lparr>
     options = opt, listenSocket = listen_socket sys, workerThreads = unat (numOfWorkerThread opt),
     accepterThread = True, serverStop = False, rioCQList = Some (unat (numOfWorkerThread opt)), logs = None,
     running = initial_server h p c (unat (numOfWorkerThread opt)) (option_maxClientCount opt)\<rparr>"

lemma append_zeros: "fold (\<lambda>i list. list @ [0]) [0..<n] [] = replicate n 0"
  by (induction n) (simp_all add: replicate_append_same [symmetric])

lemma fail_ends [simp]: "obind (fail sys name g) (\<lambda>(_, g). Inr (Some False, g)) \<noteq> Inr (Some True, g')"
  by (auto simp: outcome_simps)

lemma stage_fails [simp]:
  "obind (fail sys name g) (\<lambda>(ok, g). if \<not> ok then Inr (Some False, g) else f g) \<noteq> Inr (Some True, g')"
  by (auto simp: fail_def outcome_simps)

lemma SetSocketOption_stage:
  "obind (SetSocketOption sys g) (\<lambda>(ok, g). if \<not> ok then Inr (Some False, g) else f g) = Inr (Some True, g') \<longleftrightarrow>
   (\<not> nagleOn (options g) \<or> setsockopt_nagle_ok sys) \<and> setsockopt_linger_ok sys \<and> f g = Inr (Some True, g')"
  by (simp add: SetSocketOption_def)

definition rio_initialized :: "('r, 'q, 'p) program \<Rightarrow> ('r, 'q, 'p) program" where
  "rio_initialized g =
     (let n = unat (numOfWorkerThread (options g))
      in g\<lparr>running := (running g)\<lparr>numOfSessionInWorkerThread :=
           fold (\<lambda>i list. list @ [0]) [0..<n] (numOfSessionInWorkerThread (running g))\<rparr>, rioCQList := Some n\<rparr>)"

lemma InitializeRIO_stage:
  "obind (InitializeRIO sys g) (\<lambda>(ok, g). if \<not> ok then Inr (Some False, g) else f g) = Inr (Some True, g') \<longleftrightarrow>
   WSAIoctl_ok sys \<and> f (rio_initialized g) = Inr (Some True, g')"
  by (simp add: InitializeRIO_def rio_initialized_def Let_def)

lemma StartServer_True:
  assumes "ServerOptionParsing parser (options g) = (parsed, opt)"
  shows "StartServer parser sys looks g = Inr (Some True, g') \<longleftrightarrow>
    parsed \<and> system_ok sys opt \<and>
    RunThreads looks (rio_initialized (g\<lparr>options := opt,
      running := (running g)\<lparr>maxClientCount := option_maxClientCount opt\<rparr>, listenSocket := listen_socket sys\<rparr>)) = (True, g')"
  unfolding StartServer_def assms Let_def system_ok_def prod.case
  by (simp add: SetSocketOption_stage InitializeRIO_stage split: prod.split)

lemma fresh_program_started:
  "RunThreads looks (rio_initialized ((fresh_program h p c)\<lparr>options := opt,
      running := (running (fresh_program h p c))\<lparr>maxClientCount := option_maxClientCount opt\<rparr>,
      listenSocket := listen_socket sys\<rparr>)) = (True, g) \<longleftrightarrow>
    wait_workers (unat (numOfWorkerThread opt)) looks \<and> g = started_program sys opt h p c"
  by (auto simp: RunThreads_def rio_initialized_def append_zeros Let_def fresh_program_def started_program_def
      initial_server_def)

text \<open>
  C40: StartServer returns true exactly when the option file has all its keys, the system accepts
  every call, and every worker comes up. The server is then the \<open>initial_server\<close> with the number of
  threads and of clients of the options, from which the properties of its runs go out, with a
  thread for each completion queue, the accepter thread, and nothing logged: the Logger is not made yet.
\<close>

theorem StartServer_true_iff:
  "StartServer parser sys looks (fresh_program h p c) = Inr (Some True, g) \<longleftrightarrow>
   (\<exists>opt. ServerOptionParsing parser (options (fresh_program h p c)) = (True, opt) \<and> system_ok sys opt \<and>
      wait_workers (unat (numOfWorkerThread opt)) looks \<and> g = started_program sys opt h p c)"
proof -
  obtain parsed opt where parse: "ServerOptionParsing parser (options (fresh_program h p c)) = (parsed, opt)"
    by (rule prod.exhaust)
  show ?thesis by (simp add: StartServer_True [OF parse] fresh_program_started parse)
qed

definition shipped_parser :: parser_ops where
  "shipped_parser = \<lparr>
     GetValue_Byte = (\<lambda>section key.
       map_of [(''THREAD_COUNT'', 4), (''NAGLE_ON'', 0), (''PACKET_CODE'', 119), (''PACKET_KEY'', 50),
         (''WORKER_THREAD'', 4), (''USE_IOCPWORKER'', 4), (''RECONNECT'', 1), (''SESSION_COUNT'', 2)] key),
     GetValue_Short = (\<lambda>section key. if section = ''RIO_SERVER'' then Some 10001 else Some 10010),
     GetValue_Int = (\<lambda>section key. Some 1000), GetValue_String = (\<lambda>section key. Some ''127.0.0.1'')\<rparr>"

text \<open>With the option files of the repository: four threads, a thousand clients; two channels of four.\<close>

lemma shipped_options:
  "fst (ServerOptionParsing shipped_parser opt)"
  "numOfWorkerThread (snd (ServerOptionParsing shipped_parser opt)) = 4"
  "option_maxClientCount (snd (ServerOptionParsing shipped_parser opt)) = 1000"
  "m_byNumOfUsingWorkerThread (snd (LanClientOptionParsing shipped_parser c)) = 4"
  "m_byNumOfSession (snd (LanClientOptionParsing shipped_parser c)) = 2"
  by (simp_all add: ServerOptionParsing_def LanClientOptionParsing_def shipped_parser_def)

section \<open>Worker threads come up\<close>

text \<open>
  The size that a worker asks for its completion queue: the division has no meaning for no thread
  at all, which no worker sees; the product is one of 32 bits.
\<close>

definition completion_queue_size :: "server_options \<Rightarrow> u32 outcome" where
  "completion_queue_size opt =
     (if numOfWorkerThread opt = 0 then Inl UndefinedBehaviour
      else Inr (option_maxClientCount opt div ucast (numOfWorkerThread opt) * word_of_int MAX_SEND_BUFFER_SIZE))"

text \<open>Worker up to its loop, for the thread \<open>i\<close> at the tick \<open>now\<close>, without the deadlock checker.\<close>

definition Worker_begin :: "nat \<Rightarrow> u64 \<Rightarrow> server_options \<Rightarrow> bool list \<Rightarrow> (u32 \<times> bool list \<times> TickSet) outcome" where
  "Worker_begin i now opt workerOnList =
     obind (completion_queue_size opt) (\<lambda>size.
       Inr (size, workerOnList[i := True], \<lparr>nowTick = now, beforeTick = now\<rparr>))"

lemma unat_u8_u32 [simp]: "unat (ucast (n :: u8) :: u32) = unat n"
proof -
  have "unat n < 2 ^ LENGTH(8)" by (rule unsigned_less)
  then show ?thesis by (simp add: unsigned_ucast_eq take_bit_nat_eq_self)
qed

lemma completion_queue_size_exact:
  assumes "numOfWorkerThread opt \<noteq> 0"
    and "unat (option_maxClientCount opt) div unat (numOfWorkerThread opt) * nat MAX_SEND_BUFFER_SIZE < 2 ^ 32"
  shows "\<exists>size. completion_queue_size opt = Inr size \<and>
    unat size = unat (option_maxClientCount opt) div unat (numOfWorkerThread opt) * nat MAX_SEND_BUFFER_SIZE"
proof -
  let ?q = "option_maxClientCount opt div ucast (numOfWorkerThread opt)"
  have q: "unat ?q = unat (option_maxClientCount opt) div unat (numOfWorkerThread opt)"
    by (simp add: unat_div)
  have "unat (?q * word_of_int MAX_SEND_BUFFER_SIZE) = unat ?q * nat MAX_SEND_BUFFER_SIZE"
    using assms(2) q by (simp add: unat_word_ariths MAX_SEND_BUFFER_SIZE_def)
  with assms(1) q show ?thesis by (simp add: completion_queue_size_def)
qed

section \<open>The accepter\<close>

datatype accept_answer = AcceptFailed u32 | Accepted u64 bool

definition WSAEINTR :: u32 where "WSAEINTR = 10004"

text \<open>
  Accepter, over what \<open>accept\<close> returns: an error, or a socket and whether InetNtop works for its
  address. The first component of the result is whether the loop has ended.
\<close>

fun Accepter_loop ::
  "('r, 'q, 'p) server_ops \<Rightarrow> string option \<Rightarrow> bool \<Rightarrow> u32 \<Rightarrow> accept_answer list \<Rightarrow> ('r, 'q, 'p) server \<Rightarrow> logger option \<Rightarrow>
   (bool \<times> ('r, 'q, 'p) server \<times> logger option) outcome" where
  "Accepter_loop ops now is_open err [] s l = Inr (False, s, l)"
| "Accepter_loop ops now is_open err (AcceptFailed error # answers) s l =
     (if error = WSAEINTR then Inr (True, s, l)
      else obind (PrintError now is_open ''Accepter() / accept'' error l) (Accepter_loop ops now is_open err answers s))"
| "Accepter_loop ops now is_open err (Accepted enteredClientSocket ntop_ok # answers) s l =
     obind (if ntop_ok then Inr l else PrintError now is_open ''Accepter() / InetNtop() return NULL'' err l) (\<lambda>l.
       obind (Accepter ops enteredClientSocket s) (\<lambda>s. Accepter_loop ops now is_open err answers s l))"

definition waiting_logs :: "logger option \<Rightarrow> ServerLog list" where
  "waiting_logs inst = (case inst of None \<Rightarrow> [] | Some l \<Rightarrow> logWaitingQueue l)"

lemma PrintError_now:
  "\<exists>l'. PrintError (Some t) True name e l = Inr l' \<and> length (waiting_logs l') = length (waiting_logs l) + 1"
  by (simp add: PrintError_def GetInstance_def Logger_ctor_def new_logger_def WriteLog_def SetLogTime_def waiting_logs_def
      Let_def split: option.split)

text \<open>
  Only an accept that was interrupted ends the accepter. StopServer closes the listening socket;
  an accept that starts later fails in another way, with \<open>WSAENOTSOCK\<close>, in every round, and each of
  the rounds adds an entry to the queue of the logger, without a pause.
\<close>

lemma accepter_spins:
  assumes "error \<noteq> WSAEINTR"
  shows "\<exists>l'. Accepter_loop ops (Some t) True err (replicate n (AcceptFailed error)) s l = Inr (False, s, l') \<and>
    length (waiting_logs l') = length (waiting_logs l) + n"
proof (induction n arbitrary: l)
  case (Suc n)
  obtain l1 where l1: "PrintError (Some t) True ''Accepter() / accept'' error l = Inr l1"
    "length (waiting_logs l1) = length (waiting_logs l) + 1"
    using PrintError_now by blast
  with Suc.IH [of l1] assms show ?case by auto
qed simp

lemma accepter_spins_witness:
  "\<exists>l'. Accepter_loop (demo_ops {}) (Some ''now'') True 0 (replicate 1000 (AcceptFailed 10038)) demo_server None =
    Inr (False, demo_server, l') \<and> length (waiting_logs l') = 1000"
  using accepter_spins [of 10038 "demo_ops {}" "''now''" 0 1000 demo_server None]
  by (simp add: WSAEINTR_def waiting_logs_def)

section \<open>StopServer and the end of the program\<close>

text \<open>
  StopServer; every worker ends in its next round, as Worker does for \<open>serverStop\<close>. Joining them
  leaves the accepter, whose thread object nobody joins. The completion queues of an array that
  was never made have no meaning.
\<close>

definition StopServer :: "('r, 'q, 'p) program \<Rightarrow> ('r, 'q, 'p) program outcome" where
  "StopServer g =
     (let g = g\<lparr>running := (running g)\<lparr>closedSockets := closedSockets (running g) @ [listenSocket g]\<rparr>\<rparr>;
          g = g\<lparr>serverStop := True\<rparr>;
          g = g\<lparr>workerThreads := 0\<rparr>
      in case rioCQList g of
           None \<Rightarrow> if numOfWorkerThread (options g) = 0 then Inr g else Inl UndefinedBehaviour
         | Some n \<Rightarrow> Inr (g\<lparr>rioCQList := None\<rparr>))"

text \<open>The destructor of the server: that of a thread that can be joined calls \<open>std::terminate\<close>.\<close>

definition RIOTestServer_dtor :: "('r, 'q, 'p) program \<Rightarrow> unit outcome" where
  "RIOTestServer_dtor g = (if accepterThread g \<or> workerThreads g > 0 then Inl UncaughtException else Inr ())"

text \<open>
  After any successful start, leaving \<open>main\<close> through StopServer ends in \<open>std::terminate\<close>: the
  accepter's thread was not joined when the server is destroyed. StopServer closes the listening
  socket and joins the workers, but closes none of the sessions.
\<close>

lemma shutdown_terminates:
  assumes "StartServer parser sys looks (fresh_program h p c) = Inr (Some True, g)"
  shows "\<exists>g'. StopServer g = Inr g' \<and> serverStop g' \<and> workerThreads g' = 0 \<and>
    closedSockets (running g') = [listen_socket sys] \<and> RIOTestServer_dtor g' = Inl UncaughtException"
proof -
  obtain parsed opt where parse: "ServerOptionParsing parser (options (fresh_program h p c)) = (parsed, opt)"
    by (rule prod.exhaust)
  have "g = started_program sys opt h p c"
    using assms by (auto simp: StartServer_True [OF parse] fresh_program_started)
  then show ?thesis
    by (simp add: StopServer_def RIOTestServer_dtor_def started_program_def initial_server_def)
qed

text \<open>A system that accepts every call.\<close>

definition willing_system :: system_answers where
  "willing_system = \<lparr>now_text = Some ''now'', log_file_opens = True, GetLastError = 0, WSAStartup_ok = True, listen_socket = 3, bind_ok = True,
     listen_ok = True, setsockopt_nagle_ok = True, setsockopt_linger_ok = True, WSAIoctl_ok = True\<rparr>"

lemma shutdown_terminates_witness:
  "\<exists>g g'. StartServer shipped_parser willing_system [[True, False, True, True], [True, True, True, True]]
      (fresh_program (\<lambda>_. blank_session) (0 :: nat, [] :: nat list) (\<lambda>_. blank_context)) = Inr (Some True, g) \<and>
    workerThreads g = 4 \<and> StopServer g = Inr g' \<and> RIOTestServer_dtor g' = Inl UncaughtException"
proof -
  let ?looks = "[[True, False, True, True], [True, True, True, True]]"
  let ?g = "fresh_program (\<lambda>_. blank_session) (0 :: nat, [] :: nat list) (\<lambda>_. blank_context)"
  obtain opt where parse: "ServerOptionParsing shipped_parser (options ?g) = (True, opt)" and n: "numOfWorkerThread opt = 4"
    using shipped_options(1,2) [of "options ?g"] by (cases "ServerOptionParsing shipped_parser (options ?g)") auto
  let ?s = "started_program willing_system opt (\<lambda>_. blank_session) (0 :: nat, [] :: nat list) (\<lambda>_. blank_context)"
  have "wait_workers 4 ?looks" by (simp add: upt_conv_Cons)
  moreover have "system_ok willing_system opt" by (simp add: system_ok_def willing_system_def INVALID_SOCKET_def)
  ultimately have run: "StartServer shipped_parser willing_system ?looks ?g = Inr (Some True, ?s)"
    by (simp add: StartServer_True [OF parse] fresh_program_started n)
  moreover have "workerThreads ?s = 4" by (simp add: started_program_def n)
  ultimately show ?thesis using shutdown_terminates [OF run] by blast
qed

section \<open>main\<close>

text \<open>
  The loop of \<open>main\<close>, over the seconds that it sleeps: what the other threads did to the server meanwhile, and whether
  Escape is down. The first component of the result is whether it was left, the second what was printed.
\<close>

fun main_loop ::
  "((('r, 'q, 'p) server \<Rightarrow> ('r, 'q, 'p) server) \<times> bool) list \<Rightarrow> u32 list \<Rightarrow> ('r, 'q, 'p) program \<Rightarrow>
   (bool \<times> u32 list \<times> ('r, 'q, 'p) program) outcome" where
  "main_loop [] out g = Inr (False, out, g)"
| "main_loop ((threads, escape) # seconds) out g =
     (let g = g\<lparr>running := threads (running g)\<rparr>;
          out = out @ [GetSessionCount (running g)]
      in if escape then obind (StopServer g) (\<lambda>g. Inr (True, out, g))
         else main_loop seconds out g)"

text \<open>
  \<open>main\<close>, with the destructors of the objects in static memory: what it printed and, once it is over,
  its exit status. It goes on whether or not StartServer succeeded.
\<close>

definition main ::
  "parser_ops \<Rightarrow> system_answers \<Rightarrow> bool list list \<Rightarrow>
   ((('r, 'q, 'p) server \<Rightarrow> ('r, 'q, 'p) server) \<times> bool) list \<Rightarrow> ('r, 'q, 'p) program \<Rightarrow>
   (PacketManager \<times> u32 list \<times> nat option) outcome" where
  "main parser sys looks seconds g =
     (let pm = PacketManager_Init empty_PacketManager
      in obind (StartServer parser sys looks g) (\<lambda>(started, g).
           if started = None then Inr (pm, [], None)
           else obind (main_loop seconds [] g) (\<lambda>(stopped, out, g).
             if \<not> stopped then Inr (pm, out, None)
             else obind (RIOTestServer_dtor g) (\<lambda>_. Inr (pm, out, Some 0)))))"


text \<open>What a start that fails leaves behind.\<close>

definition failed_start :: "server_options \<Rightarrow> ('r, 'q, 'p) program \<Rightarrow> bool" where
  "failed_start opt g \<longleftrightarrow> options g = opt \<and> rioCQList g = None \<and> \<not> accepterThread g \<and> workerThreads g = 0"

definition log_works :: "system_answers \<Rightarrow> bool" where
  "log_works sys \<longleftrightarrow> now_text sys \<noteq> None \<and> log_file_opens sys"

definition fails_with ::
  "system_answers \<Rightarrow> server_options \<Rightarrow> (bool option \<times> ('r, 'q, 'p) program) outcome \<Rightarrow> bool" where
  "fails_with sys opt r \<longleftrightarrow>
     (if log_works sys then \<exists>g. r = Inr (Some False, g) \<and> failed_start opt g else r = Inl Crash)"

text \<open>The first error makes the logger, so it ends the process when the logger cannot be made.\<close>

lemma fail_first:
  assumes "logs g = None"
  shows "if log_works sys then \<exists>l. fail sys name g = Inr (False, g\<lparr>logs := l\<rparr>) else fail sys name g = Inl Crash"
proof (cases "log_works sys")
  case True
  then obtain t where "now_text sys = Some t" "log_file_opens sys" by (auto simp: log_works_def)
  moreover obtain l where "PrintError (Some t) True name (GetLastError sys) (logs g) = Inr l"
    using PrintError_now by blast
  ultimately show ?thesis using True by (simp add: fail_def report_error_def exI [of _ l])
next
  case False
  with assms show ?thesis
    by (auto simp: log_works_def fail_def report_error_def PrintError_def GetInstance_def Logger_ctor_def Let_def)
qed

lemma failed_stage:
  assumes "logs g = None" and "failed_start opt g"
  shows "fails_with sys opt (obind (fail sys name g) (\<lambda>(_, g). Inr (Some False, g)))"
    "fails_with sys opt (obind (fail sys name g) (\<lambda>(ok, g). if \<not> ok then Inr (Some False, g) else f g))"
proof -
  have g: "failed_start opt (g\<lparr>logs := l\<rparr>)" for l using assms(2) by (simp add: failed_start_def)
  with fail_first [OF assms(1), of sys name]
  show "fails_with sys opt (obind (fail sys name g) (\<lambda>(_, g). Inr (Some False, g)))"
    "fails_with sys opt (obind (fail sys name g) (\<lambda>(ok, g). if \<not> ok then Inr (Some False, g) else f g))"
    by (auto simp: fails_with_def split: if_splits)
qed

lemma failed_SetSocketOption:
  assumes "logs g = None" and "failed_start opt g"
    and "nagleOn opt \<and> \<not> setsockopt_nagle_ok sys \<or> \<not> setsockopt_linger_ok sys \<or> fails_with sys opt (f g)"
  shows "fails_with sys opt (obind (SetSocketOption sys g) (\<lambda>(ok, g). if \<not> ok then Inr (Some False, g) else f g))"
  using assms(2,3) failed_stage(2) [OF assms(1,2)]
  by (auto simp: SetSocketOption_def failed_start_def)

lemma failed_InitializeRIO:
  assumes "logs g = None" and "failed_start opt g" and "\<not> WSAIoctl_ok sys"
  shows "fails_with sys opt (obind (InitializeRIO sys g) (\<lambda>(ok, g). if \<not> ok then Inr (Some False, g) else f g))"
proof -
  have "failed_start opt (g\<lparr>running := s\<rparr>)" "logs (g\<lparr>running := s\<rparr>) = None" for s
    using assms(1,2) by (simp_all add: failed_start_def)
  from failed_stage(2) [OF this(2,1)] assms(3) show ?thesis
    by (simp add: InitializeRIO_def Let_def)
qed

lemma StartServer_fails:
  assumes parse: "ServerOptionParsing parser (options g) = (parsed, opt)"
    and none: "logs g = None" and bad: "\<not> (parsed \<and> system_ok sys opt)" and g: "failed_start (options g) g"
  shows "fails_with sys opt (StartServer parser sys looks g)"
proof -
  let ?g = "g\<lparr>options := opt, running := (running g)\<lparr>maxClientCount := option_maxClientCount opt\<rparr>\<rparr>"
  have g: "failed_start opt ?g" "failed_start opt (?g\<lparr>listenSocket := x\<rparr>)" for x
    using g by (simp_all add: failed_start_def)
  have l: "logs ?g = None" "logs (?g\<lparr>listenSocket := x\<rparr>) = None" for x using none by simp_all
  note ends = failed_stage(1) [OF l(1) g(1)] failed_stage(1) [OF l(2) g(2)]
  consider "\<not> parsed" | "parsed" "\<not> WSAStartup_ok sys" | "parsed" "WSAStartup_ok sys" "listen_socket sys = INVALID_SOCKET"
    | "parsed" "WSAStartup_ok sys" "listen_socket sys \<noteq> INVALID_SOCKET" "\<not> (bind_ok sys \<and> listen_ok sys)"
    | "parsed" "WSAStartup_ok sys" "listen_socket sys \<noteq> INVALID_SOCKET" "bind_ok sys" "listen_ok sys" by blast
  then show ?thesis
  proof cases
    case 5
    let ?run = "\<lambda>g. obind (InitializeRIO sys g) (\<lambda>(ok, g).
      if \<not> ok then Inr (Some False, g) else case RunThreads looks g of (up, g) \<Rightarrow> Inr (if up then Some True else None, g))"
    from bad 5 have "nagleOn opt \<and> \<not> setsockopt_nagle_ok sys \<or> \<not> setsockopt_linger_ok sys \<or>
        fails_with sys opt (?run (?g\<lparr>listenSocket := listen_socket sys\<rparr>))"
    proof (cases "WSAIoctl_ok sys")
      case True
      with bad 5 show ?thesis by (auto simp: system_ok_def)
    next
      case False
      show ?thesis by (intro disjI2) (rule failed_InitializeRIO [OF l(2) g(2) False])
    qed
    from failed_SetSocketOption [where f = ?run, OF l(2) g(2) this] 5 show ?thesis
      by (simp add: StartServer_def parse)
  qed (use ends in \<open>auto simp: StartServer_def parse Let_def\<close>)
qed

text \<open>What the other threads did until the key is down leaves everything but \<open>running\<close> as it is.\<close>

lemma main_loop_stops:
  assumes "list_ex snd seconds"
  shows "\<exists>s out'. main_loop seconds out g = obind (StopServer (g\<lparr>running := s\<rparr>)) (\<lambda>g. Inr (True, out', g)) \<and> out' \<noteq> []"
  using assms
proof (induction seconds arbitrary: out g)
  case (Cons x seconds)
  obtain f e where x: "x = (f, e)" by (cases x)
  show ?case
  proof (cases e)
    case True
    then show ?thesis by (auto simp: x Let_def)
  next
    case False
    let ?s = "f (running g)"
    from Cons.prems False have "list_ex snd seconds" by (simp add: x)
    from Cons.IH [OF this, of "out @ [GetSessionCount ?s]" "g\<lparr>running := ?s\<rparr>"] False
    show ?thesis by (simp add: x Let_def)
  qed
qed simp

text \<open>
  C39: How a run of \<open>main\<close> in which Escape is pressed ends. After a successful start it ends in \<open>std::terminate\<close>. A
  failed one crashes at once when its error cannot be logged, the clock or the log file being
  refused; else it ends in undefined behaviour, since StopServer goes through the completion queues that
  were not made, unless the option file gave no number of threads. Only then does \<open>main\<close> return 0.
\<close>

theorem main_ends:
  assumes key: "list_ex snd seconds"
    and parse: "ServerOptionParsing parser (options (fresh_program h p c)) = (parsed, opt)"
    and up: "wait_workers (unat (numOfWorkerThread opt)) looks"
  shows "\<exists>out. main parser sys looks seconds (fresh_program h p c) =
    (if parsed \<and> system_ok sys opt then Inl UncaughtException
     else if now_text sys = None \<or> \<not> log_file_opens sys then Inl Crash
     else if numOfWorkerThread opt \<noteq> 0 then Inl UndefinedBehaviour
     else Inr (PacketManager_Init empty_PacketManager, out, Some 0))"
proof (cases "parsed \<and> system_ok sys opt")
  case True
  let ?g = "started_program sys opt h p c"
  from True up have run: "StartServer parser sys looks (fresh_program h p c) = Inr (Some True, ?g)"
    by (simp add: StartServer_True [OF parse] fresh_program_started)
  obtain s out where "main_loop seconds [] ?g = obind (StopServer (?g\<lparr>running := s\<rparr>)) (\<lambda>g. Inr (True, out, g))"
    using main_loop_stops [OF key] by blast
  with True run show ?thesis
    by (simp add: main_def StopServer_def RIOTestServer_dtor_def started_program_def Let_def)
next
  case False
  have "failed_start (options (fresh_program h p c)) (fresh_program h p c)" "logs (fresh_program h p c) = None"
    by (simp_all add: failed_start_def fresh_program_def)
  from StartServer_fails [OF parse this(2) False this(1)]
  have start: "fails_with sys opt (StartServer parser sys looks (fresh_program h p c))" .
  show ?thesis
  proof (cases "log_works sys")
    case True
    with start obtain g
      where run: "StartServer parser sys looks (fresh_program h p c) = Inr (Some False, g)" and g: "failed_start opt g"
      unfolding fails_with_def by auto
    obtain s out where "main_loop seconds [] g = obind (StopServer (g\<lparr>running := s\<rparr>)) (\<lambda>g. Inr (True, out, g))"
      using main_loop_stops [OF key] by blast
    with False True run g show ?thesis
      by (auto simp: log_works_def main_def StopServer_def RIOTestServer_dtor_def failed_start_def Let_def)
  next
    case no_log: False
    with start False show ?thesis by (auto simp: fails_with_def log_works_def main_def Let_def)
  qed
qed

theorem main_ends_witness:
  "main shipped_parser willing_system [[True, False, True, True], [True, True, True, True]] [(\<lambda>s. s, False), (\<lambda>s. s, True)]
     (fresh_program (\<lambda>_. blank_session) (0 :: nat, [] :: nat list) (\<lambda>_. blank_context)) = Inl UncaughtException"
proof -
  let ?looks = "[[True, False, True, True], [True, True, True, True]]"
  let ?g = "fresh_program (\<lambda>_. blank_session) (0 :: nat, [] :: nat list) (\<lambda>_. blank_context)"
  obtain opt where parse: "ServerOptionParsing shipped_parser (options ?g) = (True, opt)" and n: "numOfWorkerThread opt = 4"
    using shipped_options(1,2) [of "options ?g"] by (cases "ServerOptionParsing shipped_parser (options ?g)") auto
  have "wait_workers (unat (numOfWorkerThread opt)) ?looks" by (simp add: upt_conv_Cons n)
  moreover have "system_ok willing_system opt"
    by (simp add: system_ok_def willing_system_def INVALID_SOCKET_def)
  ultimately show ?thesis
    using main_ends [of "[(\<lambda>s. s, False), (\<lambda>s. s, True)]", OF _ parse, of ?looks willing_system] by simp
qed

section \<open>The start of the database client\<close>

text \<open>
  The whole of CMultiLanClient::Start: the options, the system calls that can fail, then the
  sessions. Of a start that fails nothing is used again, since DBClient::Start ends the process.
\<close>

definition Lan_Start_all ::
  "parser_ops \<Rightarrow> bool \<Rightarrow> bool \<Rightarrow> ('r, 'q) lan_ops \<Rightarrow> ('r, 'q) lan_session \<Rightarrow> connect_script list \<Rightarrow>
   ('r, 'q) lan_client \<Rightarrow> (bool option \<times> ('r, 'q) lan_client) outcome" where
  "Lan_Start_all parser wsa_ok port_ok ops garbage scripts c =
     (case LanClientOptionParsing parser c of (parsed, c) \<Rightarrow>
        if \<not> parsed then Inr (Some False, c)
        else if \<not> wsa_ok then Inr (Some False, c)
        else if \<not> port_ok then Inr (Some False, c)
        else Lan_Start ops garbage scripts c)"

definition DBClient_Start ::
  "parser_ops \<Rightarrow> bool \<Rightarrow> bool \<Rightarrow> ('r, 'q) lan_ops \<Rightarrow> ('r, 'q) lan_session \<Rightarrow> connect_script list \<Rightarrow>
   ('r, 'q) lan_client \<Rightarrow> (bool option \<times> ('r, 'q) lan_client) outcome" where
  "DBClient_Start parser wsa_ok port_ok ops garbage scripts c =
     obind (Lan_Start_all parser wsa_ok port_ok ops garbage scripts c) (\<lambda>(r, c).
       if r = Some False then Inl Crash else Inr (r, c))"

text \<open>
  The database client with the options that the repository ships, just started: a request of the
  session with id 2 goes to a channel that does not exist, like those of half of all sessions.
\<close>

lemma shipped_client_lacks_channels:
  assumes "DBClient_Start shipped_parser wsa_ok port_ok ops garbage scripts c = Inr (Some True, c')"
    and "m_sessionIdGenerator c = 0" and "sessionReconnectIdList c = []"
  shows "GetFixedChannelId 2 c' = Inr 2 \<and> length (sessionList c') = 2"
proof -
  obtain opts where opts: "LanClientOptionParsing shipped_parser c = (True, opts)"
    by (simp add: LanClientOptionParsing_def shipped_parser_def)
  then have o: "m_byNumOfUsingWorkerThread opts = 4" "m_byNumOfSession opts = 2"
      "m_sessionIdGenerator opts = 0" "sessionReconnectIdList opts = []"
    using assms(2,3) by (auto simp: LanClientOptionParsing_def shipped_parser_def)
  have "Lan_Start ops garbage scripts opts = Inr (Some True, c')"
    using assms(1) opts by (auto simp: DBClient_Start_def Lan_Start_all_def outcome_simps split: if_splits)
  from Lan_Start_ids [OF this o(3,4)] o(1,2) show ?thesis by (simp add: GetFixedChannelId_def)
qed

section \<open>The database client that main does not start\<close>

text \<open>
  The DBClient of the program is an object in static memory, so the members that only Start sets
  are zero. Any request of a packet handler divides by the number of its worker threads.
\<close>

lemma unstarted_client_divides:
  assumes "m_byNumOfWorkerThread c = 0" and "m_byNumOfUsingWorkerThread c = 0"
  shows "run_request ops free_null k request s c = Inl UndefinedBehaviour"
  using assms
  by (cases request)
    (auto simp: Lan_SendPacket_null SendJobToFixedChannel_def GetJobBuffer_def ExecuteBatchJob_def
      SendPacketToFixedChannel_def MakeProcedurePacket_def new_buf_def Lan_SendPacket_fixed_def GetFixedChannelId_def
      DBJob_new_def Let_def split: prod.splits)

end
