(* ===== verification/Spec2Isabelle.thy ===== *)
theory Spec2Isabelle
  imports SendGate SessionTable ProgramRuns LanRuns DBJobProps ReplyHandler Broadcast Logging Startup
begin

text \<open>
  Verification library of the RIO server (\<open>src/RIO_Test\<close>).

  THE PROGRAM. RIOTestServer is a game server over Windows registered I/O. One accepter thread makes
  a RIOTestSession for each client and gives it to the worker thread with the fewest sessions.
  The workers dequeue completions once a frame: a receive fills the ring buffer of its session,
  the received bytes are cut into packets, and PacketManager finds the class and the handler of
  each by its id. A handler answers through RIOTestServer::SendPacket, which queues a NetBuffer; the
  queue is gathered into the registered send buffer by MakeSendStream. Broadcaster keeps the ids of the sessions
  and sends to all of them. A handler may also ask the database: a BatchedDBJob collects jobs, and DBClient,
  a CMultiLanClient with several connections and its own completion port, sends them;
  ProcedureReplyHandler takes the replies. Logger and DeadlockChecker stand aside.

  THE THEORIES, each on top of the ones before it.

  Prelude: the integer types, \<open>outcome\<close> (a call returns or ends in one of five ways; \<open>rbind\<close> and an
  option around it where a loop may not return), memory blocks, the locale \<open>simulation\<close>.

  EnumTypes: EnumType.h, DefineType.h, GlobalUtil.cpp. External: the classes that are not in the
  repository, as records of operations with the laws the code relies on (\<open>ring_laws\<close>, \<open>queue_laws\<close>,
  \<open>pool_laws\<close>, \<open>net_frame_laws\<close>, \<open>net_size_laws\<close>, \<open>net_stream_laws\<close>), and operations on lists that satisfy them.

  Framing: the receive loop of RecvCompleted (\<open>recv_loop\<close>, \<open>GetPayloadLength\<close>) refines \<open>parse_frames\<close>, a function
  of the bytes alone, which does not depend on how the bytes arrive.

  SendStream: MakeSendStream. Which packets a call gathers, that it stays in the buffer, and the
  backlogs on which it aborts or announces too many bytes.

  Protocol, Dispatch: Protocol.h, PacketManager, OnRecvPacket. The locale \<open>dispatch_table\<close> is the contract of a table
  of handlers, interpreted for the two of PacketManager and the one of ProcedureReplyHandler.

  ScopeLock: ScopeLock.cpp. SendGate: the exchange on \<open>ioMode\<close> that lets one thread at a time into SendPost,
  with the threads interleaved at every access. The locale \<open>send_gate\<close> is interpreted for RIOTestServer and
  for CMultiLanClient: one sender at a time, nothing sent twice or out of order, and nothing left
  when all threads have gone.

  Server: the record \<open>server\<close> is the state of RIOTestServer, Broadcaster, the contexts and the kernel;
  one definition per member function of RIOTestServer.cpp, in its order. Lifecycle: the invariant
  \<open>server_inv\<close> (the I/O count of a session is the number of its pending contexts, the counters count the
  map) and that every operation keeps it, under the contract \<open>session_handler\<close> of the packet handlers.
  Handlers: PacketHandler.cpp, the interpretation of that contract. ServerProps, ServerThreads: the
  properties of every reachable state, the end of a session, the runs that go wrong, the choice of a thread,
  the return of a worker. Packets: framing, dispatch, completions and the send path together, what a received packet comes to and what
  a handler answers. ProgramRuns: the runs that the program itself makes, in which it never sends. SessionTable: the server refines an abstract table in which no id comes back.

  LanClient: CMultiLanClient, the record \<open>lan_client\<close>, with buffers by address, so that a buffer freed
  twice or after its death is visible. LanProps, LanErrors, LanRuns: its framing, ids and channels, its error paths, concrete runs.
  DBJob, DBJobProps: DBJob.cpp, DBJobUtil.cpp, the job classes, DBHelper, the sending half of DBClient.
  ReplyHandler: ProcedureReplyHandler and \<open>DBClient::OnRecv\<close>.

  Broadcast: BroadcastToAllSession is one send to each session, of a buffer that is encoded once.
  Logging: Logger, LogClass, PrintError, DeadlockChecker. Startup: the option parsers, StartServer, RunThreads, the loop
  of Accepter, StopServer and the destructor, \<open>main\<close>, the start of the database client; a successful start ends in the \<open>initial_server\<close> of Lifecycle.

  CONVENTIONS. A definition has the name of the function it models; \<open>Lan_\<close> stands before names that both
  the server and CMultiLanClient have. Objects are passed by address where the code shares them
  (sessions, buffers of CSerializationBuf, batches) and by value where it does not. The answers of Windows
  are arguments: \<open>rio_ok n\<close> for the n-th call, \<open>lan_answer\<close>, \<open>system_answers\<close>, lists of answers for the loops that wait
  (\<open>connect_loop\<close>, \<open>wait_workers\<close>, \<open>Accepter_loop\<close>, \<open>Worker\<close>): a list that is used up means that the loop is still waiting.
  Where a program has no meaning in C++ (an index out of range, a dead pointer, a division by zero,
  \<open>front\<close> of an empty queue) the outcome is \<open>UndefinedBehaviour\<close>. Integers have the width of the code.

  LOOPS. The receive loops are partial functions into the options; that they return is shown with what they
  compute. SendPost of both classes terminates because a second round finds the mode taken. All other loops
  are recursive on a list or on a number that the code counts down. No fuel is used.

  WHERE THREADS MEET. Lifecycle runs one operation after the other; its steps are the bodies of the loops of
  the threads. The interleavings that matter inside operations have their own models: the
  shared send side (SendGate), a completion between RIOReceive and the count of RecvPost
  (\<open>accept_race_releases_twice\<close>), writers and the thread of the logger (Logging), runs of the operations of
  DBJobManager. Other data races are not modelled: \<open>workerOnList\<close>, \<open>serverStop\<close> and \<open>stopClient\<close> are read as they were last written.

  NOT MODELLED. The handles of threads and events, addresses and ports, the
  text of JSON objects, the name of the log file, the functions of DBClient that are empty. A sent NetBuffer is a value: that the code frees none is a finding, not a theorem.
\<close>

end
